(* ===== verification/Prelude.thy ===== *)
theory Prelude
  imports Main "HOL-Library.Word" "HOL-Library.Monad_Syntax"
begin

text \<open>
  Shared vocabulary of the development: the machine integers of the two programs
  (the LK boot loader and Android's init), the partiality monad of the kernel
  model, and the generic facts on lists, functions and 32-bit bitmaps that the
  component theories rely on.

  A computation that may stop the machine (a failed ASSERT, a call of panic(), an
  index outside an array) has type \<open>'a option\<close>; \<^term>\<open>None\<close> is the halted
  machine, and \<open>do\<close> blocks sequence such computations.
\<close>

unbundle bit_operations_syntax

subsection \<open>Machine integers\<close>

type_synonym u8 = "8 word"
type_synonym u32 = "32 word"
type_synonym u64 = "64 word"

subsection \<open>Assertions in the partiality monad\<close>

definition assert_opt :: "bool \<Rightarrow> unit option" where
  "assert_opt b = (if b then Some () else None)"

lemma assert_opt_simps [simp]:
  "assert_opt True = Some ()" "assert_opt False = None"
  by (simp_all add: assert_opt_def)

lemma assert_opt_eq_Some [simp]: "assert_opt b = Some u \<longleftrightarrow> b"
  by (simp add: assert_opt_def)

lemma bind_assert [simp]: "b \<Longrightarrow> (assert_opt b \<bind> f) = f ()"
  by simp

lemma bind_assert_eq_Some [simp]:
  "((assert_opt b \<bind> f) = Some y) \<longleftrightarrow> b \<and> f () = Some y"
  by (cases b) auto

subsection \<open>Named collections\<close>

named_theorems frame_simps \<open>what an operation leaves unchanged\<close>
named_theorems inv_intros \<open>preservation of a component's invariant\<close>

subsection \<open>Lists\<close>

lemma set_remove1_distinct [simp]: "distinct xs \<Longrightarrow> set (remove1 x xs) = set xs - {x}"
  by (rule set_remove1_eq)

lemma length_remove1_mem: "x \<in> set xs \<Longrightarrow> Suc (length (remove1 x xs)) = length xs"
  by (induction xs) auto

lemma remove1_hd: "xs \<noteq> [] \<Longrightarrow> remove1 (hd xs) xs = tl xs"
  by (cases xs) auto

lemma butlast_neq_last: "distinct xs \<Longrightarrow> a \<in> set (butlast xs) \<Longrightarrow> a \<noteq> last xs"
  by (cases xs rule: rev_cases) auto

subsection \<open>32-bit bitmaps\<close>

text \<open>
  \<open>x |= (1<<p)\<close> and \<open>x &= ~(1<<p)\<close> on a \<open>uint32_t\<close>, and gcc's
  \<open>__builtin_clz\<close> (whose value at 0 is undefined in C; callers must not use it).
\<close>

definition set_bit32 :: "nat \<Rightarrow> u32 \<Rightarrow> u32" where
  "set_bit32 p w = w OR push_bit p 1"

definition clear_bit32 :: "nat \<Rightarrow> u32 \<Rightarrow> u32" where
  "clear_bit32 p w = w AND NOT (push_bit p 1)"

definition clz32 :: "u32 \<Rightarrow> nat" where
  "clz32 w = length (takeWhile (\<lambda>i. \<not> bit w i) (rev [0..<32]))"

lemma bit_set_bit32 [simp]: "q < 32 \<Longrightarrow> bit (set_bit32 p w) q \<longleftrightarrow> bit w q \<or> q = p"
  by (auto simp: set_bit32_def bit_or_iff bit_exp_iff)

lemma bit_clear_bit32 [simp]: "q < 32 \<Longrightarrow> bit (clear_bit32 p w) q \<longleftrightarrow> bit w q \<and> q \<noteq> p"
  by (auto simp: clear_bit32_def bit_and_iff bit_not_iff bit_exp_iff)

lemma u32_nonzero_bit:
  assumes "(w :: u32) \<noteq> 0"
  shows "\<exists>i<32. bit w i"
proof (rule ccontr)
  assume "\<not> ?thesis"
  then have "w = 0" by (intro bit_word_eqI) simp
  with assms show False by simp
qed

lemma clz32_bound:
  assumes "w \<noteq> 0"
  shows "clz32 w < 32"
proof -
  from assms obtain i where "i < 32" "bit w i" using u32_nonzero_bit by blast
  then have "takeWhile (\<lambda>i. \<not> bit w i) (rev [0..<32]) \<noteq> rev [0..<32]"
    by (auto simp: takeWhile_eq_all_conv)
  moreover have "length (takeWhile (\<lambda>i. \<not> bit w i) (rev [0..<32])) \<le> length (rev [0..<32::nat])"
    by (rule length_takeWhile_le)
  ultimately show ?thesis
    using takeWhile_eq_take [of "\<lambda>i. \<not> bit w i" "rev [0..<32]"]
    by (cases "length (takeWhile (\<lambda>i. \<not> bit w i) (rev [0..<32])) < 32") (auto simp: clz32_def)
qed

text \<open>The index \<open>31 - clz\<close> is the most significant bit that is set.\<close>

lemma clz32_msb:
  assumes "w \<noteq> 0"
  shows "bit w (31 - clz32 w)" and "\<And>j. 31 - clz32 w < j \<Longrightarrow> j < 32 \<Longrightarrow> \<not> bit w j"
proof -
  let ?xs = "rev [0..<32::nat]"
  let ?P = "\<lambda>i. \<not> bit w i"
  from clz32_bound [OF assms] have len: "length (takeWhile ?P ?xs) < length ?xs"
    by (simp add: clz32_def)
  have nth: "?xs ! k = 31 - k" if "k < 32" for k
    using that by (simp add: rev_nth)
  from nth_length_takeWhile [OF len] show "bit w (31 - clz32 w)"
    using len by (simp add: nth clz32_def)
  fix j :: nat
  assume j: "31 - clz32 w < j" "j < 32"
  then have k: "31 - j < clz32 w" by simp
  then have "takeWhile ?P ?xs ! (31 - j) = ?xs ! (31 - j)"
    by (simp add: takeWhile_nth clz32_def)
  also have "\<dots> = j" using j by (simp add: nth)
  finally have "j \<in> set (takeWhile ?P ?xs)"
    using k by (metis clz32_def nth_mem)
  then show "\<not> bit w j" by (auto dest: set_takeWhileD)
qed

end
