(* ===== verification/Intrusive_List.thy ===== *)
theory Intrusive_List
  imports Prelude
begin

text \<open>
  The intrusive doubly-linked lists of \<^verbatim>\<open>bootable/lk/include/list.h\<close>, at pointer
  level: a heap maps the address of every \<open>struct list_node\<close> to its two links, and
  each inline function is the sequence of its assignments, so that aliasing between
  the head, the item and its neighbours is what the C code makes of it.

  The abstraction \<open>dlist h l xs\<close> says that the ring starting at the head \<open>l\<close> links
  exactly the nodes \<open>xs\<close>, in order. The interface \<open>node_lists\<close> states what the
  clients of list.h rely on; it is interpreted here on the pointer-level functions,
  and in the kernel theories on the scheduler's queues.
\<close>

type_synonym addr = nat

record list_node =
  prev :: addr
  "next" :: addr

type_synonym heap = "addr \<Rightarrow> list_node"

abbreviation (input) NULL :: addr where "NULL \<equiv> 0"

text \<open>\<open>p->prev = v\<close> and \<open>p->next = v\<close>\<close>

definition set_prev :: "addr \<Rightarrow> addr \<Rightarrow> heap \<Rightarrow> heap" where
  "set_prev p v h = h(p := (h p)\<lparr>prev := v\<rparr>)"

definition set_next :: "addr \<Rightarrow> addr \<Rightarrow> heap \<Rightarrow> heap" where
  "set_next p v h = h(p := (h p)\<lparr>next := v\<rparr>)"

lemma prev_set_prev [simp]: "prev (set_prev p v h a) = (if a = p then v else prev (h a))"
  and next_set_prev [simp]: "next (set_prev p v h a) = next (h a)"
  and next_set_next [simp]: "next (set_next p v h a) = (if a = p then v else next (h a))"
  and prev_set_next [simp]: "prev (set_next p v h a) = prev (h a)"
  by (simp_all add: set_prev_def set_next_def)

subsection \<open>The functions of list.h\<close>

definition list_initialize :: "addr \<Rightarrow> heap \<Rightarrow> heap" where
  "list_initialize list h = set_prev list list (set_next list list h)"

definition list_clear_node :: "addr \<Rightarrow> heap \<Rightarrow> heap" where
  "list_clear_node item h = set_prev item NULL (set_next item NULL h)"

definition list_in_list :: "addr \<Rightarrow> heap \<Rightarrow> bool" where
  "list_in_list item h = (if prev (h item) = NULL \<and> next (h item) = NULL then False else True)"

definition list_add_head :: "addr \<Rightarrow> addr \<Rightarrow> heap \<Rightarrow> heap" where
  "list_add_head list item h =
     (let h = set_next item (next (h list)) h;
          h = set_prev item list h;
          h = set_prev (next (h list)) item h
      in set_next list item h)"

definition list_add_after :: "addr \<Rightarrow> addr \<Rightarrow> heap \<Rightarrow> heap" where
  "list_add_after entry new_entry = list_add_head entry new_entry"

definition list_add_tail :: "addr \<Rightarrow> addr \<Rightarrow> heap \<Rightarrow> heap" where
  "list_add_tail list item h =
     (let h = set_prev item (prev (h list)) h;
          h = set_next item list h;
          h = set_next (prev (h list)) item h
      in set_prev list item h)"

definition list_add_before :: "addr \<Rightarrow> addr \<Rightarrow> heap \<Rightarrow> heap" where
  "list_add_before entry new_entry = list_add_tail entry new_entry"

definition list_delete :: "addr \<Rightarrow> heap \<Rightarrow> heap" where
  "list_delete item h =
     (let h = set_prev (next (h item)) (prev (h item)) h;
          h = set_next (prev (h item)) (next (h item)) h
      in set_prev item NULL (set_next item NULL h))"

definition list_remove_head :: "addr \<Rightarrow> heap \<Rightarrow> addr \<times> heap" where
  "list_remove_head list h =
     (if next (h list) \<noteq> list then (let item = next (h list) in (item, list_delete item h))
      else (NULL, h))"

definition list_remove_tail :: "addr \<Rightarrow> heap \<Rightarrow> addr \<times> heap" where
  "list_remove_tail list h =
     (if prev (h list) \<noteq> list then (let item = prev (h list) in (item, list_delete item h))
      else (NULL, h))"

definition list_peek_head :: "addr \<Rightarrow> heap \<Rightarrow> addr" where
  "list_peek_head list h = (if next (h list) \<noteq> list then next (h list) else NULL)"

definition list_peek_tail :: "addr \<Rightarrow> heap \<Rightarrow> addr" where
  "list_peek_tail list h = (if prev (h list) \<noteq> list then prev (h list) else NULL)"

definition list_prev :: "addr \<Rightarrow> addr \<Rightarrow> heap \<Rightarrow> addr" where
  "list_prev list item h = (if prev (h item) \<noteq> list then prev (h item) else NULL)"

definition list_prev_wrap :: "addr \<Rightarrow> addr \<Rightarrow> heap \<Rightarrow> addr" where
  "list_prev_wrap list item h =
     (if prev (h item) \<noteq> list then prev (h item)
      else if prev (h (prev (h item))) \<noteq> list then prev (h (prev (h item)))
      else NULL)"

definition list_next :: "addr \<Rightarrow> addr \<Rightarrow> heap \<Rightarrow> addr" where
  "list_next list item h = (if next (h item) \<noteq> list then next (h item) else NULL)"

definition list_next_wrap :: "addr \<Rightarrow> addr \<Rightarrow> heap \<Rightarrow> addr" where
  "list_next_wrap list item h =
     (if next (h item) \<noteq> list then next (h item)
      else if next (h (next (h item))) \<noteq> list then next (h (next (h item)))
      else NULL)"

definition list_is_empty :: "addr \<Rightarrow> heap \<Rightarrow> bool" where
  "list_is_empty list h = (if next (h list) = list then True else False)"

text \<open>
  The loop of \<open>list_for_every(list, node)\<close>: the nodes it visits, starting at
  \<open>node\<close>. A corrupt ring need not come back to its head, hence the fuel; a ring of
  \<open>n\<close> nodes needs \<open>n + 1\<close> (lemma \<open>list_for_every_dlist\<close>).
\<close>

fun list_for_every_from :: "nat \<Rightarrow> addr \<Rightarrow> addr \<Rightarrow> heap \<Rightarrow> addr list option" where
  "list_for_every_from 0 list node h = None"
| "list_for_every_from (Suc fuel) list node h =
     (if node = list then Some []
      else map_option ((#) node) (list_for_every_from fuel list (next (h node)) h))"

definition list_for_every :: "nat \<Rightarrow> addr \<Rightarrow> heap \<Rightarrow> addr list option" where
  "list_for_every fuel list h = list_for_every_from fuel list (next (h list)) h"

subsection \<open>The abstraction\<close>

fun chain :: "heap \<Rightarrow> addr list \<Rightarrow> bool" where
  "chain h [] \<longleftrightarrow> True"
| "chain h [a] \<longleftrightarrow> True"
| "chain h (a # b # xs) \<longleftrightarrow> next (h a) = b \<and> prev (h b) = a \<and> chain h (b # xs)"

definition dlist :: "heap \<Rightarrow> addr \<Rightarrow> addr list \<Rightarrow> bool" where
  "dlist h l xs \<longleftrightarrow> distinct (l # xs) \<and> NULL \<notin> set (l # xs) \<and> chain h (l # xs @ [l])"

lemma chain_Cons: "xs \<noteq> [] \<Longrightarrow>
    chain h (a # xs) \<longleftrightarrow> next (h a) = hd xs \<and> prev (h (hd xs)) = a \<and> chain h xs"
  by (cases xs) auto

lemma chain_append: "xs \<noteq> [] \<Longrightarrow> ys \<noteq> [] \<Longrightarrow>
    chain h (xs @ ys) \<longleftrightarrow>
      chain h xs \<and> next (h (last xs)) = hd ys \<and> prev (h (hd ys)) = last xs \<and> chain h ys"
  by (induction xs rule: list_nonempty_induct) (auto simp: chain_Cons)

lemma chain_cong:
  assumes "\<And>a. a \<in> set (butlast xs) \<Longrightarrow> next (h' a) = next (h a)"
    and "\<And>a. a \<in> set (tl xs) \<Longrightarrow> prev (h' a) = prev (h a)"
  shows "chain h' xs = chain h xs"
  using assms
proof (induction h xs rule: chain.induct)
  case (3 h a b xs)
  have "chain h' (b # xs) = chain h (b # xs)"
    by (rule "3.IH") (use "3.prems" in \<open>auto split: if_splits dest: list.set_sel(2)\<close>)
  with "3.prems" show ?case by simp
qed auto

text \<open>
  A ring split at an arbitrary point: \<open>p\<close> is the node (or head) before the gap and
  \<open>n\<close> the one after it.
\<close>

lemma dlist_split:
  assumes "p = last (l # xs)" and "n = hd (ys @ [l])"
  shows "dlist h l (xs @ ys) \<longleftrightarrow>
    distinct (l # xs @ ys) \<and> NULL \<notin> set (l # xs @ ys) \<and>
    chain h (l # xs) \<and> next (h p) = n \<and> prev (h n) = p \<and> chain h (ys @ [l])"
proof -
  have "chain h ((l # xs) @ (ys @ [l])) \<longleftrightarrow>
      chain h (l # xs) \<and> next (h p) = n \<and> prev (h n) = p \<and> chain h (ys @ [l])"
    unfolding assms by (rule chain_append) auto
  then show ?thesis by (simp add: dlist_def)
qed

subsection \<open>Insertion and deletion on rings\<close>

lemma list_add_head_fields:
  assumes "item \<noteq> list" and "item \<noteq> next (h list)"
  shows "next (list_add_head list item h a) =
           (if a = list then item else if a = item then next (h list) else next (h a))"
    and "prev (list_add_head list item h a) =
           (if a = next (h list) then item else if a = item then list else prev (h a))"
  using assms by (auto simp: list_add_head_def Let_def)

lemma list_add_tail_fields:
  assumes "item \<noteq> list" and "item \<noteq> prev (h list)"
  shows "next (list_add_tail list item h a) =
           (if a = prev (h list) then item else if a = item then list else next (h a))"
    and "prev (list_add_tail list item h a) =
           (if a = list then item else if a = item then prev (h list) else prev (h a))"
  using assms by (auto simp: list_add_tail_def Let_def)

lemma list_delete_fields:
  assumes "next (h item) \<noteq> item" and "prev (h item) \<noteq> item"
  shows "next (list_delete item h a) =
           (if a = item then NULL else if a = prev (h item) then next (h item) else next (h a))"
    and "prev (list_delete item h a) =
           (if a = item then NULL else if a = next (h item) then prev (h item) else prev (h a))"
  using assms by (auto simp: list_delete_def Let_def)

lemma dlist_frame:
  assumes "\<And>a. a \<in> set (l # xs) \<Longrightarrow> next (h' a) = next (h a) \<and> prev (h' a) = prev (h a)"
  shows "dlist h' l xs = dlist h l xs"
proof -
  have "chain h' (l # xs @ [l]) = chain h (l # xs @ [l])"
    by (rule chain_cong) (use assms in auto)
  then show ?thesis by (simp add: dlist_def)
qed

text \<open>
  Any heap whose links differ from \<open>h\<close> only by splicing \<open>item\<close> into the gap between
  \<open>p\<close> and \<open>n\<close> represents the longer list; symmetrically for unlinking.
\<close>

lemma dlist_splice_in:
  assumes d: "dlist h l (xs @ ys)" and p: "p = last (l # xs)" and n: "n = hd (ys @ [l])"
    and fresh: "item \<notin> set (l # xs @ ys)" "item \<noteq> NULL"
    and nxt: "\<And>a. next (h' a) = (if a = p then item else if a = item then n else next (h a))"
    and prv: "\<And>a. prev (h' a) = (if a = n then item else if a = item then p else prev (h a))"
  shows "dlist h' l (xs @ item # ys)"
proof -
  from d p n have D: "distinct (l # xs @ ys)" "NULL \<notin> set (l # xs @ ys)"
    "chain h (l # xs)" "chain h (ys @ [l])" by (simp_all add: dlist_split)
  have pin: "p \<in> set (l # xs)" unfolding p by (rule last_in_set) simp
  have nin: "n = l \<or> n \<in> set ys" unfolding n by (cases ys) auto
  have "chain h' (l # xs) = chain h (l # xs)"
  proof (rule chain_cong)
    fix a assume a: "a \<in> set (butlast (l # xs))"
    then have "a \<noteq> p" unfolding p by (rule butlast_neq_last [rotated]) (use D(1) in auto)
    moreover have "a \<noteq> item" using in_set_butlastD [OF a] fresh by auto
    ultimately show "next (h' a) = next (h a)" using nxt by simp
  next
    fix a assume "a \<in> set (tl (l # xs))"
    with D(1) nin fresh prv show "prev (h' a) = prev (h a)" by auto
  qed
  moreover have "chain h' (ys @ [l]) = chain h (ys @ [l])"
  proof (rule chain_cong)
    fix a assume "a \<in> set (butlast (ys @ [l]))"
    with D(1) pin fresh nxt show "next (h' a) = next (h a)" by auto
  next
    fix a assume a: "a \<in> set (tl (ys @ [l]))"
    moreover have "distinct (ys @ [l])" using D(1) by auto
    ultimately have "a \<noteq> n" unfolding n by (cases ys) auto
    with a fresh prv show "prev (h' a) = prev (h a)"
      by (cases ys) auto
  qed
  moreover have "next (h' p) = item" "prev (h' item) = p" "next (h' item) = n" "prev (h' n) = item"
    using nxt prv fresh pin nin by auto
  ultimately show ?thesis
    using D fresh p n
    by (subst dlist_split [of p l xs item "item # ys"]) (auto simp: chain_Cons)
qed

lemma dlist_splice_out:
  assumes d: "dlist h l (xs @ item # ys)" and p: "p = last (l # xs)" and n: "n = hd (ys @ [l])"
    and nxt: "\<And>a. a \<noteq> item \<Longrightarrow> next (h' a) = (if a = p then n else next (h a))"
    and prv: "\<And>a. a \<noteq> item \<Longrightarrow> prev (h' a) = (if a = n then p else prev (h a))"
  shows "dlist h' l (xs @ ys)"
proof -
  from d p have D: "distinct (l # xs @ item # ys)" "NULL \<notin> set (l # xs @ item # ys)"
    "chain h (l # xs)" "chain h (item # ys @ [l])"
    using dlist_split [of p l xs item "item # ys" h] by auto
  then have cy: "chain h (ys @ [l])" by (simp add: chain_Cons)
  have pin: "p \<in> set (l # xs)" unfolding p by (rule last_in_set) simp
  have nin: "n = l \<or> n \<in> set ys" unfolding n by (cases ys) auto
  have "chain h' (l # xs) = chain h (l # xs)"
  proof (rule chain_cong)
    fix a assume a: "a \<in> set (butlast (l # xs))"
    then have "a \<noteq> p" unfolding p by (rule butlast_neq_last [rotated]) (use D(1) in auto)
    moreover have "a \<noteq> item" using in_set_butlastD [OF a] D(1) by auto
    ultimately show "next (h' a) = next (h a)" using nxt by simp
  next
    fix a assume "a \<in> set (tl (l # xs))"
    then have "a \<noteq> item" "a \<noteq> n" using D(1) nin by auto
    then show "prev (h' a) = prev (h a)" using prv by simp
  qed
  moreover have "chain h' (ys @ [l]) = chain h (ys @ [l])"
  proof (rule chain_cong)
    fix a assume "a \<in> set (butlast (ys @ [l]))"
    then have "a \<noteq> item" "a \<noteq> p" using D(1) pin by auto
    then show "next (h' a) = next (h a)" using nxt by simp
  next
    fix a assume a: "a \<in> set (tl (ys @ [l]))"
    moreover have "distinct (ys @ [l])" using D(1) by auto
    ultimately have "a \<noteq> n" unfolding n by (cases ys) auto
    moreover have "a \<noteq> item" using a D(1) by (cases ys) auto
    ultimately show "prev (h' a) = prev (h a)" using prv by simp
  qed
  moreover have "p \<noteq> item" "n \<noteq> item" using D(1) pin nin by auto
  then have "next (h' p) = n" "prev (h' n) = p" using nxt prv by simp_all
  ultimately show ?thesis
    using D cy p n by (subst dlist_split [of p l xs n ys]) auto
qed

text \<open>
  \<open>list_add_after\<close> (which list_add_head is, with the head as entry) and
  \<open>list_add_before\<close> (likewise list_add_tail) insert at the gap they name;
  \<open>list_delete\<close> unlinks its node and clears it.
\<close>

lemma dlist_add_after:
  assumes d: "dlist h l (xs @ ys)" and "item \<notin> set (l # xs @ ys)" "item \<noteq> NULL"
  shows "dlist (list_add_after (last (l # xs)) item h) l (xs @ item # ys)"
proof -
  let ?p = "last (l # xs)" and ?n = "hd (ys @ [l])"
  from d have link: "next (h ?p) = ?n" by (simp only: dlist_split)
  have "?p \<in> set (l # xs)" by (rule last_in_set) simp
  moreover have "?n \<in> set (l # ys)" by (cases ys) auto
  ultimately have ne: "item \<noteq> ?p" "item \<noteq> next (h ?p)" using assms(2) link by auto
  show ?thesis unfolding list_add_after_def
    by (rule dlist_splice_in [OF d refl refl assms(2,3)])
      (simp_all only: list_add_head_fields [where list = "?p" and h = h, OF ne] link)
qed

lemma dlist_add_before:
  assumes d: "dlist h l (xs @ ys)" and "item \<notin> set (l # xs @ ys)" "item \<noteq> NULL"
  shows "dlist (list_add_before (hd (ys @ [l])) item h) l (xs @ item # ys)"
proof -
  let ?p = "last (l # xs)" and ?n = "hd (ys @ [l])"
  from d have link: "prev (h ?n) = ?p" by (simp only: dlist_split)
  have "?p \<in> set (l # xs)" by (rule last_in_set) simp
  moreover have "?n \<in> set (l # ys)" by (cases ys) auto
  ultimately have ne: "item \<noteq> ?n" "item \<noteq> prev (h ?n)" using assms(2) link by auto
  show ?thesis unfolding list_add_before_def
    by (rule dlist_splice_in [OF d refl refl assms(2,3)])
      (simp_all only: list_add_tail_fields [where list = "?n" and h = h, OF ne] link)
qed

lemma dlist_neighbours:
  assumes "dlist h l (xs @ item # ys)"
  shows "prev (h item) = last (l # xs)" and "next (h item) = hd (ys @ [l])"
    and "next (h item) \<noteq> item" and "prev (h item) \<noteq> item"
proof -
  from assms show prv: "prev (h item) = last (l # xs)"
    using dlist_split [of "last (l # xs)" l xs item "item # ys" h] by simp
  from assms show nxt: "next (h item) = hd (ys @ [l])"
    using dlist_split [of item l "xs @ [item]" "hd (ys @ [l])" ys h] by simp
  from assms have "distinct (l # xs @ item # ys)" by (simp add: dlist_def)
  then show "next (h item) \<noteq> item" "prev (h item) \<noteq> item"
    unfolding nxt prv by (cases ys; auto)+
qed

lemma dlist_delete:
  assumes d: "dlist h l (xs @ item # ys)"
  shows "dlist (list_delete item h) l (xs @ ys)" and "\<not> list_in_list item (list_delete item h)"
proof -
  note nb = dlist_neighbours [OF d]
  note fld = list_delete_fields [where h = h and item = item, OF nb(3,4)]
  show "dlist (list_delete item h) l (xs @ ys)"
    by (rule dlist_splice_out [OF d refl refl])
      (simp_all only: fld nb(1,2) if_False)
  show "\<not> list_in_list item (list_delete item h)"
    by (simp add: list_in_list_def fld)
qed

subsection \<open>What the clients of list.h rely on\<close>

text \<open>
  A family of lists, one per head, over nodes that sit in at most one of them.
  \<open>repr s L\<close>: in state \<open>s\<close> the list of head \<open>l\<close> is \<open>L l\<close>.
\<close>

primrec drain :: "('s \<Rightarrow> 'n option \<times> 's) \<Rightarrow> nat \<Rightarrow> 's \<Rightarrow> 'n list \<times> 's" where
  "drain rem 0 s = ([], s)"
| "drain rem (Suc k) s =
     (case rem s of
        (None, s') \<Rightarrow> ([], s')
      | (Some n, s') \<Rightarrow> (let (ns, s'') = drain rem k s' in (n # ns, s'')))"

locale node_lists =
  fixes heads :: "'l set" and nodes :: "'n set"
    and repr :: "'s \<Rightarrow> ('l \<Rightarrow> 'n list) \<Rightarrow> bool"
    and add_head :: "'l \<Rightarrow> 'n \<Rightarrow> 's \<Rightarrow> 's"
    and add_tail :: "'l \<Rightarrow> 'n \<Rightarrow> 's \<Rightarrow> 's"
    and delete :: "'n \<Rightarrow> 's \<Rightarrow> 's"
    and remove_head :: "'l \<Rightarrow> 's \<Rightarrow> 'n option \<times> 's"
    and in_list :: "'n \<Rightarrow> 's \<Rightarrow> bool"
    and is_empty :: "'l \<Rightarrow> 's \<Rightarrow> bool"
  assumes repr_distinct: "repr s L \<Longrightarrow> l \<in> heads \<Longrightarrow> distinct (L l)"
    and repr_nodes: "repr s L \<Longrightarrow> l \<in> heads \<Longrightarrow> set (L l) \<subseteq> nodes"
    and repr_disjoint: "repr s L \<Longrightarrow> l \<in> heads \<Longrightarrow> k \<in> heads \<Longrightarrow> l \<noteq> k \<Longrightarrow>
          set (L l) \<inter> set (L k) = {}"
    and in_list_iff: "repr s L \<Longrightarrow> n \<in> nodes \<Longrightarrow> in_list n s \<longleftrightarrow> (\<exists>l\<in>heads. n \<in> set (L l))"
    and is_empty_iff: "repr s L \<Longrightarrow> l \<in> heads \<Longrightarrow> is_empty l s \<longleftrightarrow> L l = []"
    and remove_head_eq: "repr s L \<Longrightarrow> l \<in> heads \<Longrightarrow> remove_head l s =
          (case L l of [] \<Rightarrow> (None, s) | n # _ \<Rightarrow> (Some n, delete n s))"
    and repr_add_head: "repr s L \<Longrightarrow> l \<in> heads \<Longrightarrow> n \<in> nodes \<Longrightarrow> \<not> in_list n s \<Longrightarrow>
          repr (add_head l n s) (L(l := n # L l))"
    and repr_add_tail: "repr s L \<Longrightarrow> l \<in> heads \<Longrightarrow> n \<in> nodes \<Longrightarrow> \<not> in_list n s \<Longrightarrow>
          repr (add_tail l n s) (L(l := L l @ [n]))"
    and repr_delete: "repr s L \<Longrightarrow> l \<in> heads \<Longrightarrow> n \<in> set (L l) \<Longrightarrow>
          repr (delete n s) (L(l := remove1 n (L l)))"
begin

lemma repr_enqueue_all:
  assumes "repr s L" "l \<in> heads" "distinct ns" "set ns \<subseteq> nodes" "\<forall>n\<in>set ns. \<not> in_list n s"
  shows "repr (fold (add_tail l) ns s) (L(l := L l @ ns))"
  using assms
proof (induction ns arbitrary: s L)
  case (Cons n ns)
  let ?s = "add_tail l n s" and ?L = "L(l := L l @ [n])"
  have r: "repr ?s ?L" using Cons.prems by (intro repr_add_tail) auto
  have "\<forall>m\<in>set ns. \<not> in_list m ?s"
  proof
    fix m assume m: "m \<in> set ns"
    then have "\<not> in_list m s" "m \<noteq> n" "m \<in> nodes" using Cons.prems by auto
    with r Cons.prems(1,2) show "\<not> in_list m ?s"
      by (auto simp: in_list_iff split: if_splits)
  qed
  then have "repr (fold (add_tail l) ns ?s) (?L(l := ?L l @ ns))"
    using Cons.prems by (intro Cons.IH [OF r]) auto
  then show ?case by (simp add: fun_upd_def cong: if_cong)
qed simp

lemma drain_all:
  assumes "repr s L" "l \<in> heads" "L l = ns"
  shows "fst (drain (remove_head l) (length ns) s) = ns \<and>
         repr (snd (drain (remove_head l) (length ns) s)) (L(l := []))"
  using assms
proof (induction ns arbitrary: s L)
  case Nil
  then have "L(l := []) = L" by auto
  with Nil show ?case by simp
next
  case (Cons n ns)
  have r: "repr (delete n s) (L(l := ns))"
    using repr_delete [OF Cons.prems(1,2), of n] Cons.prems(3) by simp
  have "fst (drain (remove_head l) (length ns) (delete n s)) = ns \<and>
      repr (snd (drain (remove_head l) (length ns) (delete n s))) (L(l := []))"
    using Cons.IH [OF r Cons.prems(2)] by (simp add: fun_upd_def cong: if_cong)
  then show ?case
    using Cons.prems by (simp add: remove_head_eq case_prod_unfold Let_def fun_upd_def)
qed

text \<open>First in, first out: draining a queue filled with \<open>add_tail\<close> returns the
  nodes in the order in which they were added.\<close>

lemma fifo:
  assumes "repr s L" "l \<in> heads" "L l = []" "distinct ns" "set ns \<subseteq> nodes"
    and "\<forall>n\<in>set ns. \<not> in_list n s"
  shows "fst (drain (remove_head l) (length ns) (fold (add_tail l) ns s)) = ns"
  using drain_all [OF repr_enqueue_all [OF assms(1,2,4-6)] assms(2)] assms(3) by simp

end

subsection \<open>list.h keeps the promise\<close>

text \<open>
  \<open>list_remove_head_type\<close> maps the NULL result to a null container pointer and any
  other node to its container; here the node stands for its container.
\<close>

definition ptr_opt :: "addr \<Rightarrow> addr option" where
  "ptr_opt a = (if a = NULL then None else Some a)"

definition list_remove_head_type :: "addr \<Rightarrow> heap \<Rightarrow> addr option \<times> heap" where
  "list_remove_head_type list h = (let (nod, h') = list_remove_head list h in (ptr_opt nod, h'))"

definition rings :: "addr set \<Rightarrow> addr set \<Rightarrow> heap \<Rightarrow> (addr \<Rightarrow> addr list) \<Rightarrow> bool" where
  "rings H N h L \<longleftrightarrow> H \<inter> N = {} \<and> NULL \<notin> H \<union> N \<and>
     (\<forall>l\<in>H. dlist h l (L l) \<and> set (L l) \<subseteq> N) \<and>
     (\<forall>l\<in>H. \<forall>k\<in>H. l \<noteq> k \<longrightarrow> set (L l) \<inter> set (L k) = {}) \<and>
     (\<forall>n\<in>N. (\<forall>l\<in>H. n \<notin> set (L l)) \<longrightarrow> \<not> list_in_list n h)"

lemma dlist_in_list:
  assumes "dlist h l xs" "n \<in> set xs"
  shows "list_in_list n h"
proof -
  from assms(2) obtain ys zs where xs: "xs = ys @ n # zs" by (auto simp: in_set_conv_decomp)
  with assms(1) have "prev (h n) = last (l # ys)" by (simp add: dlist_neighbours)
  moreover have "last (l # ys) \<in> set (l # ys)" by (rule last_in_set) simp
  moreover have "NULL \<notin> set (l # ys)" using assms(1) xs by (auto simp: dlist_def)
  ultimately have "prev (h n) \<noteq> NULL" by metis
  then show ?thesis by (simp add: list_in_list_def)
qed

lemma dlist_head:
  assumes "dlist h l xs"
  shows "next (h l) = hd (xs @ [l])" and "prev (h l) = last (l # xs)"
  using assms dlist_split [of l l "[]" "hd (xs @ [l])" xs h]
    dlist_split [of "last (l # xs)" l xs l "[]" h] by simp_all

text \<open>Every update touches one ring only; the other rings and the free nodes keep
  their links.\<close>

lemma rings_D:
  assumes "rings H N h L"
  shows "H \<inter> N = {}" and "NULL \<notin> H \<union> N"
    and "l \<in> H \<Longrightarrow> dlist h l (L l)" and "l \<in> H \<Longrightarrow> set (L l) \<subseteq> N"
    and "l \<in> H \<Longrightarrow> k \<in> H \<Longrightarrow> l \<noteq> k \<Longrightarrow> set (L l) \<inter> set (L k) = {}"
    and "n \<in> N \<Longrightarrow> \<forall>l\<in>H. n \<notin> set (L l) \<Longrightarrow> \<not> list_in_list n h"
  using assms unfolding rings_def by simp_all

lemma rings_update:
  assumes r: "rings H N h L" and l: "l \<in> H"
    and item: "item \<in> N" "\<And>k. k \<in> H \<Longrightarrow> k \<noteq> l \<Longrightarrow> item \<notin> set (L k)"
    and d: "dlist h' l xs" and xs: "insert item (set xs) = insert item (set (L l))"
    and fld: "\<And>a. a \<notin> set (l # item # L l) \<Longrightarrow> next (h' a) = next (h a) \<and> prev (h' a) = prev (h a)"
    and free: "item \<notin> set xs \<Longrightarrow> \<not> list_in_list item h'"
  shows "rings H N h' (L(l := xs))"
proof -
  note R = rings_D [OF r]
  have apart: "set (k # L k) \<inter> set (l # item # L l) = {}" if k: "k \<in> H" "k \<noteq> l" for k
    using R(1) R(4) [OF k(1)] R(4) [OF l] R(5) [OF k(1) l k(2)] item(1) item(2) [OF k] k l
    by auto
  have other: "dlist h' k (L k)" if k: "k \<in> H" "k \<noteq> l" for k
  proof -
    have "dlist h' k (L k) = dlist h k (L k)"
      using apart [OF k] by (intro dlist_frame fld) blast
    with R(3) [OF k(1)] show ?thesis by simp
  qed
  have unlinked: "\<not> list_in_list n h'"
    if n: "n \<in> N" "\<forall>k\<in>H. n \<notin> set ((L(l := xs)) k)" for n
  proof (cases "n = item")
    case True
    with n(2) l free show ?thesis by auto
  next
    case False
    from n(2) l have "n \<notin> set xs" by auto
    with False xs have nl: "n \<notin> set (L l)" by blast
    have "\<forall>k\<in>H. n \<notin> set (L k)" using n(2) nl by (metis fun_upd_other)
    then have "\<not> list_in_list n h" by (rule R(6) [OF n(1)])
    moreover have "n \<noteq> l" using R(1) l n(1) by auto
    then have "n \<notin> set (l # item # L l)" using False nl by simp
    ultimately show ?thesis using fld [of n] by (simp add: list_in_list_def)
  qed
  have "set xs \<subseteq> insert item (set (L l))" unfolding xs [symmetric] by auto
  then have "set xs \<subseteq> N" using R(4) [OF l] item(1) by auto
  moreover have "set xs \<inter> set (L k) = {}" if "k \<in> H" "k \<noteq> l" for k
    using apart [OF that] xs by auto
  ultimately show ?thesis
    using R(1,2,4,5) d other unlinked l unfolding rings_def
    by (simp add: Int_commute)
qed

lemma rings_add_head:
  assumes r: "rings H N h L" and l: "l \<in> H" and n: "n \<in> N" "\<not> list_in_list n h"
  shows "rings H N (list_add_head l n h) (L(l := n # L l))"
proof -
  note R = rings_D [OF r]
  note d = R(3) [OF l]
  have fresh: "n \<notin> set (L k)" if "k \<in> H" for k using dlist_in_list [OF R(3) [OF that]] n(2) by blast
  have ne: "n \<noteq> l" "n \<noteq> NULL" using R(1,2) l n(1) by auto
  have "dlist (list_add_head l n h) l ([] @ n # L l)"
    using dlist_add_after [of h l "[]" "L l" n] d fresh [OF l] ne by (simp add: list_add_after_def)
  moreover have nx: "next (h l) \<in> set (l # L l)" using dlist_head(1) [OF d] by (cases "L l") auto
  moreover from nx have "n \<noteq> next (h l)" using fresh [OF l] ne by auto
  ultimately show ?thesis
    using fresh ne by (intro rings_update [OF r l n(1)]) (auto simp: list_add_head_fields)
qed

lemma rings_add_tail:
  assumes r: "rings H N h L" and l: "l \<in> H" and n: "n \<in> N" "\<not> list_in_list n h"
  shows "rings H N (list_add_tail l n h) (L(l := L l @ [n]))"
proof -
  note R = rings_D [OF r]
  note d = R(3) [OF l]
  have fresh: "n \<notin> set (L k)" if "k \<in> H" for k using dlist_in_list [OF R(3) [OF that]] n(2) by blast
  have ne: "n \<noteq> l" "n \<noteq> NULL" using R(1,2) l n(1) by auto
  have "dlist (list_add_tail l n h) l (L l @ n # [])"
    using dlist_add_before [of h l "L l" "[]" n] d fresh [OF l] ne by (simp add: list_add_before_def)
  moreover have pv: "prev (h l) \<in> set (l # L l)" unfolding dlist_head(2) [OF d] by (rule last_in_set) simp
  moreover from pv have "n \<noteq> prev (h l)" using fresh [OF l] ne by auto
  ultimately show ?thesis
    using fresh ne by (intro rings_update [OF r l n(1)]) (auto simp: list_add_tail_fields)
qed

lemma rings_delete:
  assumes r: "rings H N h L" and l: "l \<in> H" and n: "n \<in> set (L l)"
  shows "rings H N (list_delete n h) (L(l := remove1 n (L l)))"
proof -
  note R = rings_D [OF r]
  note d = R(3) [OF l]
  from n obtain xs ys where split: "L l = xs @ n # ys" by (auto simp: in_set_conv_decomp)
  have dis: "distinct (L l)" using d by (simp add: dlist_def)
  then have rem: "remove1 n (L l) = xs @ ys" unfolding split by (simp add: remove1_append)
  from d have d': "dlist h l (xs @ n # ys)" by (simp add: split)
  note nb = dlist_neighbours [OF d']
  note fld = list_delete_fields [where h = h and item = n, OF nb(3,4)]
  have "prev (h n) \<in> set (l # L l)" unfolding nb(1) split using last_in_set [of "l # xs"] by auto
  moreover have "next (h n) \<in> set (l # L l)" unfolding nb(2) split by (cases ys) auto
  moreover have "n \<notin> set (L k)" if "k \<in> H" "k \<noteq> l" for k using R(5) [OF l that(1)] that(2) n by auto
  moreover have "n \<in> N" using R(4) [OF l] n by auto
  ultimately show ?thesis
    using dlist_delete [OF d'] n split unfolding rem
    by (intro rings_update [OF r l]) (auto simp: fld)
qed

lemma list_remove_head_type_eq:
  assumes "dlist h l xs"
  shows "list_remove_head_type l h =
    (case xs of [] \<Rightarrow> (None, h) | n # _ \<Rightarrow> (Some n, list_delete n h))"
  using dlist_head(1) [OF assms] assms
  by (cases xs) (auto simp: list_remove_head_type_def list_remove_head_def ptr_opt_def dlist_def Let_def)

interpretation ptr: node_lists H N "rings H N" list_add_head list_add_tail list_delete
  list_remove_head_type list_in_list list_is_empty for H N
proof unfold_locales
  fix h :: heap and L l k n
  assume r: "rings H N h L"
  note R = rings_D [OF r]
  show "list_in_list n h \<longleftrightarrow> (\<exists>l\<in>H. n \<in> set (L l))" if "n \<in> N"
    by (metis R(3,6) dlist_in_list that)
  assume l: "l \<in> H"
  show "distinct (L l)" using R(3) [OF l] by (simp add: dlist_def)
  show "set (L l) \<subseteq> N" by (rule R(4) [OF l])
  show "set (L l) \<inter> set (L k) = {}" if "k \<in> H" "l \<noteq> k" using that by (rule R(5) [OF l])
  show "list_is_empty l h \<longleftrightarrow> L l = []"
    using dlist_head(1) [OF R(3) [OF l]] R(3) [OF l]
    by (cases "L l") (auto simp: list_is_empty_def dlist_def)
  show "list_remove_head_type l h = (case L l of [] \<Rightarrow> (None, h) | n # _ \<Rightarrow> (Some n, list_delete n h))"
    by (rule list_remove_head_type_eq [OF R(3) [OF l]])
  show "rings H N (list_add_head l n h) (L(l := n # L l))" if "n \<in> N" "\<not> list_in_list n h"
    using r l that by (rule rings_add_head)
  show "rings H N (list_add_tail l n h) (L(l := L l @ [n]))" if "n \<in> N" "\<not> list_in_list n h"
    using r l that by (rule rings_add_tail)
  show "rings H N (list_delete n h) (L(l := remove1 n (L l)))" if "n \<in> set (L l)"
    using r l that by (rule rings_delete)
qed

subsection \<open>Traversal\<close>

lemma list_for_every_from_chain:
  "chain h (xs @ [l]) \<Longrightarrow> l \<notin> set xs \<Longrightarrow> length xs < fuel \<Longrightarrow>
     list_for_every_from fuel l (hd (xs @ [l])) h = Some xs"
proof (induction xs arbitrary: fuel)
  case Nil
  then show ?case by (cases fuel) auto
next
  case (Cons a xs)
  then obtain f where "fuel = Suc f" by (cases fuel) auto
  with Cons show ?case by (simp add: chain_Cons)
qed

lemma list_for_every_dlist:
  assumes "dlist h l xs" and "length xs < fuel"
  shows "list_for_every fuel l h = Some xs"
proof -
  have "chain h (xs @ [l])" "l \<notin> set xs"
    using assms(1) by (simp_all add: dlist_def chain_Cons)
  then show ?thesis
    using assms(2) by (simp add: list_for_every_def dlist_head(1) [OF assms(1)] list_for_every_from_chain)
qed

lemma dlist_nth_next:
  assumes "dlist h l xs" "i < length xs"
  shows "next (h (xs ! i)) = (if Suc i < length xs then xs ! Suc i else l)"
proof -
  have "xs = take i xs @ xs ! i # drop (Suc i) xs" using assms(2) by (rule id_take_nth_drop)
  with assms(1) have "next (h (xs ! i)) = hd (drop (Suc i) xs @ [l])"
    using dlist_neighbours(2) by metis
  then show ?thesis by (cases "Suc i < length xs") (simp_all add: hd_append hd_drop_conv_nth)
qed

lemma dlist_nth_prev:
  assumes "dlist h l xs" "i < length xs"
  shows "prev (h (xs ! i)) = (if i = 0 then l else xs ! (i - 1))"
proof -
  have "xs = take i xs @ xs ! i # drop (Suc i) xs" using assms(2) by (rule id_take_nth_drop)
  with assms(1) have "prev (h (xs ! i)) = last (l # take i xs)"
    using dlist_neighbours(1) by metis
  then show ?thesis using assms(2) by (cases i) (auto simp: last_conv_nth min_def)
qed

lemma dlist_nth_ne_head: "dlist h l xs \<Longrightarrow> i < length xs \<Longrightarrow> xs ! i \<noteq> l"
  by (auto simp: dlist_def)

lemma dlist_next_wrap:
  assumes "dlist h l xs" "i < length xs"
  shows "list_next_wrap l (xs ! i) h = xs ! (Suc i mod length xs)"
proof (cases "Suc i < length xs")
  case True
  then show ?thesis
    by (simp add: list_next_wrap_def dlist_nth_next [OF assms] dlist_nth_ne_head [OF assms(1)])
next
  case False
  with assms(2) have "Suc i = length xs" "xs \<noteq> []" by auto
  then show ?thesis
    using dlist_nth_ne_head [OF assms(1), of 0]
    by (simp add: list_next_wrap_def dlist_nth_next [OF assms] dlist_head(1) [OF assms(1)]
        hd_append hd_conv_nth)
qed

lemma dlist_prev_wrap:
  assumes "dlist h l xs" "i < length xs"
  shows "list_prev_wrap l (xs ! i) h = xs ! ((i + length xs - 1) mod length xs)"
proof (cases i)
  case 0
  with assms(2) have "xs \<noteq> []" by auto
  with 0 show ?thesis
    using dlist_nth_ne_head [OF assms(1), of "length xs - 1"] dlist_nth_prev [OF assms]
    by (simp add: list_prev_wrap_def dlist_head(2) [OF assms(1)] last_conv_nth)
next
  case (Suc j)
  then have "(i + length xs - 1) mod length xs = j" using assms(2) by simp
  with Suc assms(2) show ?thesis
    using dlist_nth_ne_head [OF assms(1), of j] dlist_nth_prev [OF assms]
    by (simp add: list_prev_wrap_def)
qed

subsection \<open>Properties\<close>

text \<open>
  C14: list_add_after and list_add_before (hence list_add_head and list_add_tail, which
  are the same functions applied to the head) insert a node exactly at the gap they
  name, in a ring of any length including the empty one, and list_delete undoes the
  insertion and leaves the node out of every list.
\<close>

theorem list_insert_delete:
  assumes "dlist h l (xs @ ys)" and "item \<notin> set (l # xs @ ys)" and "item \<noteq> NULL"
  shows "dlist (list_add_after (last (l # xs)) item h) l (xs @ item # ys) \<and>
    dlist (list_add_before (hd (ys @ [l])) item h) l (xs @ item # ys) \<and>
    dlist (list_delete item (list_add_after (last (l # xs)) item h)) l (xs @ ys) \<and>
    \<not> list_in_list item (list_delete item (list_add_after (last (l # xs)) item h))"
proof -
  have ins: "dlist (list_add_after (last (l # xs)) item h) l (xs @ item # ys)"
    using assms by (rule dlist_add_after)
  with dlist_delete [OF ins] dlist_add_before [OF assms] show ?thesis by simp
qed

text \<open>A heap with the ring 1 \<rightarrow> 3 \<rightarrow> 5, built by the functions themselves.\<close>

definition sample_heap :: heap where
  "sample_heap = list_add_tail 1 5 (list_add_tail 1 3
     (list_initialize 1 (\<lambda>_. \<lparr>prev = NULL, next = NULL\<rparr>)))"

lemma sample_heap_dlist: "dlist sample_heap 1 [3, 5]"
  by (simp add: sample_heap_def dlist_def list_add_tail_def list_initialize_def Let_def)

theorem list_insert_delete_witness:
  "dlist (list_add_after 3 7 sample_heap) 1 [3, 7, 5]"
  using list_insert_delete [of sample_heap 1 "[3]" "[5]" 7] sample_heap_dlist by simp

text \<open>
  C15: a queue filled with list_add_tail and emptied with list_remove_head returns the
  nodes in the order of insertion, whatever other lists share the heap.
\<close>

theorem list_queue_fifo:
  assumes "rings H N h L" and "l \<in> H" and "L l = []"
    and "distinct ns" and "set ns \<subseteq> N" and "\<forall>n\<in>set ns. \<not> list_in_list n h"
  shows "fst (drain (list_remove_head_type l) (length ns) (fold (list_add_tail l) ns h)) = ns"
  using assms by (rule ptr.fifo)

theorem list_queue_fifo_witness:
  "fst (drain (list_remove_head_type 1) (length [4, 3::addr]) (fold (list_add_tail 1) [4, 3]
     (list_initialize 1 (\<lambda>_. \<lparr>prev = NULL, next = NULL\<rparr>)))) = [4, 3]"
proof -
  let ?h = "list_initialize 1 (\<lambda>_. \<lparr>prev = NULL, next = NULL\<rparr>)"
  have "rings {1} {3, 4} ?h (\<lambda>_. [])"
    by (simp add: rings_def dlist_def list_initialize_def list_in_list_def)
  then show ?thesis
    by (rule list_queue_fifo) (auto simp: list_initialize_def list_in_list_def)
qed

text \<open>
  C16: list_for_every ends on every well-formed ring and visits its nodes in order;
  list_next_wrap and list_prev_wrap are the circular successor and predecessor and
  never return NULL for a node of a ring.
\<close>

theorem list_traversal:
  assumes d: "dlist h l xs"
  shows "list_for_every (Suc (length xs)) l h = Some xs \<and>
    (\<forall>i<length xs. list_next_wrap l (xs ! i) h = xs ! (Suc i mod length xs) \<and>
       list_prev_wrap l (xs ! i) h = xs ! ((i + length xs - 1) mod length xs))"
  using list_for_every_dlist [OF d] dlist_next_wrap [OF d] dlist_prev_wrap [OF d] by simp

theorem list_traversal_witness:
  "list_for_every 3 1 sample_heap = Some [3, 5] \<and> list_next_wrap 1 5 sample_heap = 3"
proof -
  from list_traversal [OF sample_heap_dlist]
  have "list_for_every (Suc (length [3, 5::addr])) 1 sample_heap = Some [3, 5]"
    and "list_next_wrap 1 ([3, 5] ! 1) sample_heap = [3, 5] ! (Suc 1 mod length [3, 5::addr])"
    by auto
  then show ?thesis by (simp add: eval_nat_numeral)
qed

end
