(* ===== verification/Kernel_State.thy ===== *)
theory Kernel_State
  imports Intrusive_List
begin

text \<open>
  The state of the LK kernel (\<^verbatim>\<open>bootable/lk/kernel\<close>) and its lowest layer: the
  scheduler's queues as an instance of the list interface, and the critical-section
  counter.

  The model is of the default build: DEBUGLEVEL is 2, so the THREAD_CHECKS, MUTEX_CHECK
  and EVENT_CHECK assertions and the thread statistics are compiled in, and
  PLATFORM_HAS_DYNAMIC_TIMER is defined by no platform of the tree. A failed assertion
  or a call of panic() is \<^term>\<open>None\<close>.

  A thread that calls thread_resched continues after the call only when it is switched
  back to. What is left to do then is recorded in its \<open>frames\<close>, the return addresses
  on its stack; the value of a returning function is in \<open>ret\<close>.
\<close>

type_synonym tid = nat
type_synonym time = u32

datatype wq_addr = MutexWait nat | EventWait nat

text \<open>The heads of the lists a thread's queue_node can be linked in.\<close>

datatype qhead = RunQ nat | WaitQ wq_addr

datatype thread_state =
  THREAD_SUSPENDED | THREAD_READY | THREAD_RUNNING | THREAD_BLOCKED | THREAD_SLEEPING | THREAD_DEATH

text \<open>
  The points at which a thread continues after a call of thread_resched, innermost
  function first when several are on the stack.
\<close>

datatype frame =
    Initial_thread_func
  | After_resched
  | After_yield_in_resume
  | After_resched_in_exit
  | After_resched_in_unblock
  | After_block_in_wait time
  | After_wake_in_wq_destroy wq_addr
  | After_wq_destroy
  | After_wait_in_mutex_acquire nat
  | After_wait_in_mutex_acquire_timeout nat
  | After_wake_in_mutex_release
  | After_wait_in_event_wait
  | After_wake_one_in_event_signal nat
  | After_wake_all_in_event_signal
  | After_signal_in_dpc_queue
  | After_preempt_in_irq

record thread =
  magic :: int
  priority :: int
  state :: thread_state
  saved_critical_section_count :: int
  remaining_quantum :: int
  blocking_wait_queue :: "wq_addr option"
  wait_queue_block_ret :: int
  stack_size :: nat
  entry :: nat
  arg :: nat
  retcode :: int
  name :: string
  queue_node :: "qhead option"
  frames :: "frame list"
  ret :: int

record wait_queue =
  wq_magic :: int
  wq_count :: int

datatype timer_addr = SleepTimer tid | WaitTimer tid | StaticTimer nat

datatype timer_callback = Thread_sleep_handler | Wait_queue_timeout_handler | Threadload

record timer =
  tm_magic :: int
  tm_linked :: bool
  scheduled_time :: time
  periodic_time :: time
  callback :: "timer_callback option"
  tm_arg :: nat

record mutex =
  mx_magic :: int
  mx_count :: int
  holder :: "tid option"

record event =
  ev_magic :: int
  signalled :: bool
  ev_flags :: u32

text \<open>The only routine of the tree that is passed to dpc_queue.\<close>

datatype dpc_callback = Thread_cleanup_dpc

record dpc =
  dpc_cb :: dpc_callback
  dpc_arg :: nat

record thread_stats =
  idle_time :: u64
  last_idle_timestamp :: u64
  reschedules :: int
  context_switches :: int
  preempts :: int
  yields :: int
  timer_ints :: int
  timers_fired :: int

record kstate =
  thr :: "tid \<Rightarrow> thread"
  thread_list :: "tid list"
  current_thread :: tid
  idle_thread :: "tid option"
  critical_section_count :: int
  ints_enabled :: bool
  lists :: "qhead \<Rightarrow> tid list"
  run_queue_bitmap :: u32
  wait_queues :: "wq_addr \<Rightarrow> wait_queue"
  timers :: "timer_addr \<Rightarrow> timer"
  timer_queue :: "timer_addr list"
  ticks :: time
  mutexes :: "nat \<Rightarrow> mutex"
  events :: "nat \<Rightarrow> event"
  dpc_list :: "dpc list"
  stats :: thread_stats

subsection \<open>Constants\<close>

text \<open>The magic numbers are the multi-character constants of the headers.\<close>

definition THREAD_MAGIC :: int where "THREAD_MAGIC = 0x74687264"
definition WAIT_QUEUE_MAGIC :: int where "WAIT_QUEUE_MAGIC = 0x77616974"
definition TIMER_MAGIC :: int where "TIMER_MAGIC = 0x74696D72"
definition MUTEX_MAGIC :: int where "MUTEX_MAGIC = 0x6D757478"
definition EVENT_MAGIC :: int where "EVENT_MAGIC = 0x65766E74"

definition NO_ERROR :: int where "NO_ERROR = 0"
definition ERR_NOT_SUSPENDED :: int where "ERR_NOT_SUSPENDED = - 10"
definition ERR_OBJECT_DESTROYED :: int where "ERR_OBJECT_DESTROYED = - 11"
definition ERR_NOT_BLOCKED :: int where "ERR_NOT_BLOCKED = - 12"
definition ERR_TIMED_OUT :: int where "ERR_TIMED_OUT = - 13"

lemmas err_defs = NO_ERROR_def ERR_NOT_SUSPENDED_def ERR_OBJECT_DESTROYED_def
  ERR_NOT_BLOCKED_def ERR_TIMED_OUT_def

definition NUM_PRIORITIES :: nat where "NUM_PRIORITIES = 32"
definition LOWEST_PRIORITY :: int where "LOWEST_PRIORITY = 0"
definition HIGHEST_PRIORITY :: int where "HIGHEST_PRIORITY = int NUM_PRIORITIES - 1"
definition DPC_PRIORITY :: int where "DPC_PRIORITY = int NUM_PRIORITIES - 2"
definition IDLE_PRIORITY :: int where "IDLE_PRIORITY = LOWEST_PRIORITY"
definition DEFAULT_PRIORITY :: int where "DEFAULT_PRIORITY = int NUM_PRIORITIES div 2"

lemmas priority_defs = NUM_PRIORITIES_def LOWEST_PRIORITY_def HIGHEST_PRIORITY_def
  DPC_PRIORITY_def IDLE_PRIORITY_def DEFAULT_PRIORITY_def

definition INFINITE_TIME :: time where "INFINITE_TIME = - 1"

subsection \<open>Assignments through a thread pointer\<close>

definition upd_thr :: "tid \<Rightarrow> (thread \<Rightarrow> thread) \<Rightarrow> kstate \<Rightarrow> kstate" where
  "upd_thr t f s = s\<lparr>thr := (thr s)(t := f (thr s t))\<rparr>"

abbreviation cur :: "kstate \<Rightarrow> thread" where
  "cur s \<equiv> thr s (current_thread s)"

definition upd_cur :: "(thread \<Rightarrow> thread) \<Rightarrow> kstate \<Rightarrow> kstate" where
  "upd_cur f s = upd_thr (current_thread s) f s"

definition set_ret :: "int \<Rightarrow> kstate \<Rightarrow> kstate" where
  "set_ret r = upd_cur (\<lambda>t. t\<lparr>ret := r\<rparr>)"

definition push_frames :: "frame list \<Rightarrow> kstate \<Rightarrow> kstate" where
  "push_frames fs = upd_cur (\<lambda>t. t\<lparr>frames := fs @ frames t\<rparr>)"

abbreviation push_frame :: "frame \<Rightarrow> kstate \<Rightarrow> kstate" where
  "push_frame f \<equiv> push_frames [f]"

lemma thr_upd_thr [simp]: "thr (upd_thr t f s) = (thr s)(t := f (thr s t))"
  and upd_thr_other [simp]:
    "thread_list (upd_thr t f s) = thread_list s"
    "current_thread (upd_thr t f s) = current_thread s"
    "idle_thread (upd_thr t f s) = idle_thread s"
    "critical_section_count (upd_thr t f s) = critical_section_count s"
    "ints_enabled (upd_thr t f s) = ints_enabled s"
    "lists (upd_thr t f s) = lists s"
    "run_queue_bitmap (upd_thr t f s) = run_queue_bitmap s"
    "wait_queues (upd_thr t f s) = wait_queues s"
    "timers (upd_thr t f s) = timers s"
    "timer_queue (upd_thr t f s) = timer_queue s"
    "ticks (upd_thr t f s) = ticks s"
    "mutexes (upd_thr t f s) = mutexes s"
    "events (upd_thr t f s) = events s"
    "dpc_list (upd_thr t f s) = dpc_list s"
    "stats (upd_thr t f s) = stats s"
  by (simp_all add: upd_thr_def)

lemmas upd_cur_simps = upd_cur_def set_ret_def push_frames_def

subsection \<open>Critical sections\<close>

definition enter_critical_section :: "kstate \<Rightarrow> kstate" where
  "enter_critical_section s =
     (let s = s\<lparr>critical_section_count := critical_section_count s + 1\<rparr>
      in if critical_section_count s = 1 then s\<lparr>ints_enabled := False\<rparr> else s)"

definition exit_critical_section :: "kstate \<Rightarrow> kstate" where
  "exit_critical_section s =
     (let s = s\<lparr>critical_section_count := critical_section_count s - 1\<rparr>
      in if critical_section_count s = 0 then s\<lparr>ints_enabled := True\<rparr> else s)"

definition in_critical_section :: "kstate \<Rightarrow> bool" where
  "in_critical_section s \<longleftrightarrow> critical_section_count s > 0"

definition inc_critical_section :: "kstate \<Rightarrow> kstate" where
  "inc_critical_section s = s\<lparr>critical_section_count := critical_section_count s + 1\<rparr>"

definition dec_critical_section :: "kstate \<Rightarrow> kstate" where
  "dec_critical_section s = s\<lparr>critical_section_count := critical_section_count s - 1\<rparr>"

lemma enter_critical_section_simps [simp]:
  "critical_section_count (enter_critical_section s) = critical_section_count s + 1"
  "thr (enter_critical_section s) = thr s"
  "thread_list (enter_critical_section s) = thread_list s"
  "current_thread (enter_critical_section s) = current_thread s"
  "idle_thread (enter_critical_section s) = idle_thread s"
  "lists (enter_critical_section s) = lists s"
  "run_queue_bitmap (enter_critical_section s) = run_queue_bitmap s"
  "wait_queues (enter_critical_section s) = wait_queues s"
  "timers (enter_critical_section s) = timers s"
  "timer_queue (enter_critical_section s) = timer_queue s"
  "ticks (enter_critical_section s) = ticks s"
  "mutexes (enter_critical_section s) = mutexes s"
  "events (enter_critical_section s) = events s"
  "dpc_list (enter_critical_section s) = dpc_list s"
  "stats (enter_critical_section s) = stats s"
  by (simp_all add: enter_critical_section_def Let_def)

lemma exit_critical_section_simps [simp]:
  "critical_section_count (exit_critical_section s) = critical_section_count s - 1"
  "thr (exit_critical_section s) = thr s"
  "thread_list (exit_critical_section s) = thread_list s"
  "current_thread (exit_critical_section s) = current_thread s"
  "idle_thread (exit_critical_section s) = idle_thread s"
  "lists (exit_critical_section s) = lists s"
  "run_queue_bitmap (exit_critical_section s) = run_queue_bitmap s"
  "wait_queues (exit_critical_section s) = wait_queues s"
  "timers (exit_critical_section s) = timers s"
  "timer_queue (exit_critical_section s) = timer_queue s"
  "ticks (exit_critical_section s) = ticks s"
  "mutexes (exit_critical_section s) = mutexes s"
  "events (exit_critical_section s) = events s"
  "dpc_list (exit_critical_section s) = dpc_list s"
  "stats (exit_critical_section s) = stats s"
  by (simp_all add: exit_critical_section_def Let_def)

subsection \<open>The scheduler's lists\<close>

text \<open>
  The list.h operations on the heads \<open>run_queue[p]\<close> and \<open>wait->list\<close>, with the
  threads' queue_node as nodes. A list is the sequence of the threads linked in it;
  \<open>queue_node\<close> says in which list the node is linked, \<^term>\<open>None\<close> being the cleared
  node. Deleting a cleared node is an access through a null pointer: no caller does it.
\<close>

definition kq_add_head :: "qhead \<Rightarrow> tid \<Rightarrow> kstate \<Rightarrow> kstate" where
  "kq_add_head q t s = (upd_thr t (\<lambda>x. x\<lparr>queue_node := Some q\<rparr>) s)
     \<lparr>lists := (lists s)(q := t # lists s q)\<rparr>"

definition kq_add_tail :: "qhead \<Rightarrow> tid \<Rightarrow> kstate \<Rightarrow> kstate" where
  "kq_add_tail q t s = (upd_thr t (\<lambda>x. x\<lparr>queue_node := Some q\<rparr>) s)
     \<lparr>lists := (lists s)(q := lists s q @ [t])\<rparr>"

definition kq_delete :: "tid \<Rightarrow> kstate \<Rightarrow> kstate" where
  "kq_delete t s =
     (case queue_node (thr s t) of
        None \<Rightarrow> s
      | Some q \<Rightarrow> (upd_thr t (\<lambda>x. x\<lparr>queue_node := None\<rparr>) s)
          \<lparr>lists := (lists s)(q := remove1 t (lists s q))\<rparr>)"

definition kq_remove_head :: "qhead \<Rightarrow> kstate \<Rightarrow> tid option \<times> kstate" where
  "kq_remove_head q s =
     (case lists s q of [] \<Rightarrow> (None, s) | t # _ \<Rightarrow> (Some t, kq_delete t s))"

definition kq_in_list :: "tid \<Rightarrow> kstate \<Rightarrow> bool" where
  "kq_in_list t s \<longleftrightarrow> queue_node (thr s t) \<noteq> None"

definition kq_is_empty :: "qhead \<Rightarrow> kstate \<Rightarrow> bool" where
  "kq_is_empty q s \<longleftrightarrow> lists s q = []"

text \<open>The links and the sequences agree: no list holds a thread twice, and a thread is
  in exactly the list its node says.\<close>

definition kq_ok :: "kstate \<Rightarrow> bool" where
  "kq_ok s \<longleftrightarrow> (\<forall>q. distinct (lists s q)) \<and>
     (\<forall>q t. t \<in> set (lists s q) \<longleftrightarrow> queue_node (thr s t) = Some q)"

lemma kq_okD:
  assumes "kq_ok s"
  shows "distinct (lists s q)" and "t \<in> set (lists s q) \<longleftrightarrow> queue_node (thr s t) = Some q"
  using assms by (simp_all add: kq_ok_def)

lemma kq_ok_add_head: "kq_ok s \<Longrightarrow> queue_node (thr s t) = None \<Longrightarrow> kq_ok (kq_add_head q t s)"
  unfolding kq_ok_def kq_add_head_def by auto

lemma kq_ok_add_tail: "kq_ok s \<Longrightarrow> queue_node (thr s t) = None \<Longrightarrow> kq_ok (kq_add_tail q t s)"
  unfolding kq_ok_def kq_add_tail_def by auto

lemma kq_ok_delete: "kq_ok s \<Longrightarrow> kq_ok (kq_delete t s)"
  unfolding kq_ok_def kq_delete_def by (auto split: option.splits)

interpretation kq: node_lists UNIV UNIV "\<lambda>s L. kq_ok s \<and> lists s = L"
  kq_add_head kq_add_tail kq_delete kq_remove_head kq_in_list kq_is_empty
proof unfold_locales
  fix s L q q' t
  assume r: "kq_ok s \<and> lists s = L"
  then have ok: "kq_ok s" and L: "lists s = L" by simp_all
  note D = kq_okD [OF ok]
  show "distinct (L q)" using D(1) L by blast
  show "set (L q) \<subseteq> UNIV" by simp
  show "set (L q) \<inter> set (L q') = {}" if "q \<noteq> q'" using that D(2) L by auto
  show "kq_in_list t s \<longleftrightarrow> (\<exists>q\<in>UNIV. t \<in> set (L q))" using D(2) L by (auto simp: kq_in_list_def)
  show "kq_is_empty q s \<longleftrightarrow> L q = []" using L by (simp add: kq_is_empty_def)
  show "kq_remove_head q s = (case L q of [] \<Rightarrow> (None, s) | n # _ \<Rightarrow> (Some n, kq_delete n s))"
    using L by (simp add: kq_remove_head_def)
  show "kq_ok (kq_add_head q t s) \<and> lists (kq_add_head q t s) = L(q := t # L q)"
    if "\<not> kq_in_list t s"
    using that ok L by (auto simp: kq_in_list_def kq_add_head_def intro: kq_ok_add_head [unfolded kq_add_head_def])
  show "kq_ok (kq_add_tail q t s) \<and> lists (kq_add_tail q t s) = L(q := L q @ [t])"
    if "\<not> kq_in_list t s"
    using that ok L by (auto simp: kq_in_list_def kq_add_tail_def intro: kq_ok_add_tail [unfolded kq_add_tail_def])
  show "kq_ok (kq_delete t s) \<and> lists (kq_delete t s) = L(q := remove1 t (L q))"
    if "t \<in> set (L q)"
    using that ok D(2) L by (auto simp: kq_ok_delete) (auto simp: kq_delete_def)
qed

subsection \<open>Static storage before the first initialisation\<close>

text \<open>Zeroed, but for \<open>critical_section_count = 1\<close>; interrupts are off at reset.\<close>

definition zero_thread :: thread where
  "zero_thread = \<lparr>magic = 0, priority = 0, state = THREAD_SUSPENDED, saved_critical_section_count = 0,
     remaining_quantum = 0, blocking_wait_queue = None, wait_queue_block_ret = 0, stack_size = 0,
     entry = 0, arg = 0, retcode = 0, name = [], queue_node = None, frames = [], ret = 0\<rparr>"

definition zero_timer :: timer where
  "zero_timer = \<lparr>tm_magic = 0, tm_linked = False, scheduled_time = 0, periodic_time = 0,
     callback = None, tm_arg = 0\<rparr>"

definition zero_kstate :: kstate where
  "zero_kstate = \<lparr>thr = (\<lambda>_. zero_thread), thread_list = [], current_thread = 0, idle_thread = None,
     critical_section_count = 1, ints_enabled = False, lists = (\<lambda>_. []), run_queue_bitmap = 0,
     wait_queues = (\<lambda>_. \<lparr>wq_magic = 0, wq_count = 0\<rparr>), timers = (\<lambda>_. zero_timer), timer_queue = [],
     ticks = 0, mutexes = (\<lambda>_. \<lparr>mx_magic = 0, mx_count = 0, holder = None\<rparr>),
     events = (\<lambda>_. \<lparr>ev_magic = 0, signalled = False, ev_flags = 0\<rparr>), dpc_list = [],
     stats = \<lparr>idle_time = 0, last_idle_timestamp = 0, reschedules = 0, context_switches = 0,
       preempts = 0, yields = 0, timer_ints = 0, timers_fired = 0\<rparr>\<rparr>"

end
