(* ===== verification/Kernel_Timer.thy ===== *)
theory Kernel_Timer
  imports Kernel_State
begin

text \<open>
  The timer queue of \<^verbatim>\<open>bootable/lk/kernel/timer.c\<close>: initialising, arming and
  cancelling timers. The interrupt that fires them calls back into the scheduler and is
  in \<open>Kernel_Machine\<close>. Times are 32-bit tick counts compared modulo \<open>2 ^ 32\<close> by the
  TIME_ macros of \<^verbatim>\<open>include/sys/types.h\<close>.
\<close>

definition TIME_GTE :: "time \<Rightarrow> time \<Rightarrow> bool" where
  "TIME_GTE a b \<longleftrightarrow> sint (a - b) \<ge> 0"

definition TIME_GT :: "time \<Rightarrow> time \<Rightarrow> bool" where
  "TIME_GT a b \<longleftrightarrow> sint (a - b) > 0"

definition TIME_LT :: "time \<Rightarrow> time \<Rightarrow> bool" where
  "TIME_LT a b \<longleftrightarrow> sint (a - b) < 0"

definition upd_timer :: "timer_addr \<Rightarrow> (timer \<Rightarrow> timer) \<Rightarrow> kstate \<Rightarrow> kstate" where
  "upd_timer tm f s = s\<lparr>timers := (timers s)(tm := f (timers s tm))\<rparr>"

lemma upd_timer_simps [simp]:
  "timers (upd_timer tm f s) = (timers s)(tm := f (timers s tm))"
  "thr (upd_timer tm f s) = thr s"
  "thread_list (upd_timer tm f s) = thread_list s"
  "current_thread (upd_timer tm f s) = current_thread s"
  "idle_thread (upd_timer tm f s) = idle_thread s"
  "critical_section_count (upd_timer tm f s) = critical_section_count s"
  "ints_enabled (upd_timer tm f s) = ints_enabled s"
  "lists (upd_timer tm f s) = lists s"
  "run_queue_bitmap (upd_timer tm f s) = run_queue_bitmap s"
  "wait_queues (upd_timer tm f s) = wait_queues s"
  "timer_queue (upd_timer tm f s) = timer_queue s"
  "ticks (upd_timer tm f s) = ticks s"
  "mutexes (upd_timer tm f s) = mutexes s"
  "events (upd_timer tm f s) = events s"
  "dpc_list (upd_timer tm f s) = dpc_list s"
  "stats (upd_timer tm f s) = stats s"
  by (simp_all add: upd_timer_def)

subsection \<open>The operations of timer.c\<close>

definition timer_initialize :: "timer_addr \<Rightarrow> kstate \<Rightarrow> kstate" where
  "timer_initialize tm = upd_timer tm (\<lambda>_. \<lparr>tm_magic = TIMER_MAGIC, tm_linked = False,
     scheduled_time = 0, periodic_time = 0, callback = None, tm_arg = 0\<rparr>)"

text \<open>The loop of insert_timer_in_queue: before the first entry that is later.\<close>

fun insert_timer :: "('a \<Rightarrow> time) \<Rightarrow> 'a \<Rightarrow> 'a list \<Rightarrow> 'a list" where
  "insert_timer sched tm [] = [tm]"
| "insert_timer sched tm (e # es) =
     (if TIME_GT (sched e) (sched tm) then tm # e # es else e # insert_timer sched tm es)"

definition insert_timer_in_queue :: "timer_addr \<Rightarrow> kstate \<Rightarrow> kstate" where
  "insert_timer_in_queue tm s = (upd_timer tm (\<lambda>x. x\<lparr>tm_linked := True\<rparr>) s)
     \<lparr>timer_queue := insert_timer (\<lambda>e. scheduled_time (timers s e)) tm (timer_queue s)\<rparr>"

definition delete_timer :: "timer_addr \<Rightarrow> kstate \<Rightarrow> kstate" where
  "delete_timer tm s = (upd_timer tm (\<lambda>x. x\<lparr>tm_linked := False\<rparr>) s)
     \<lparr>timer_queue := remove1 tm (timer_queue s)\<rparr>"

definition timer_set ::
  "timer_addr \<Rightarrow> time \<Rightarrow> time \<Rightarrow> timer_callback \<Rightarrow> nat \<Rightarrow> kstate \<Rightarrow> kstate option" where
  "timer_set tm delay period cb a s = do {
     assert_opt (tm_magic (timers s tm) = TIMER_MAGIC);
     assert_opt (\<not> tm_linked (timers s tm));
     let now = ticks s;
     let s = upd_timer tm (\<lambda>x. x\<lparr>scheduled_time := now + delay, periodic_time := period,
               callback := Some cb, tm_arg := a\<rparr>) s;
     let s = enter_critical_section s;
     let s = insert_timer_in_queue tm s;
     Some (exit_critical_section s) }"

definition timer_set_oneshot ::
  "timer_addr \<Rightarrow> time \<Rightarrow> timer_callback \<Rightarrow> nat \<Rightarrow> kstate \<Rightarrow> kstate option" where
  "timer_set_oneshot tm delay cb a s =
     (let delay = (if delay = 0 then 1 else delay) in timer_set tm delay 0 cb a s)"

definition timer_set_periodic ::
  "timer_addr \<Rightarrow> time \<Rightarrow> timer_callback \<Rightarrow> nat \<Rightarrow> kstate \<Rightarrow> kstate option" where
  "timer_set_periodic tm period cb a s =
     (let period = (if period = 0 then 1 else period) in timer_set tm period period cb a s)"

definition timer_cancel :: "timer_addr \<Rightarrow> kstate \<Rightarrow> kstate option" where
  "timer_cancel tm s = do {
     assert_opt (tm_magic (timers s tm) = TIMER_MAGIC);
     let s = enter_critical_section s;
     let s = (if tm_linked (timers s tm) then delete_timer tm s else s);
     let s = upd_timer tm (\<lambda>x. x\<lparr>periodic_time := 0, callback := None, tm_arg := 0\<rparr>) s;
     Some (exit_critical_section s) }"

subsection \<open>Well-formed timer queues\<close>

definition timers_ok :: "kstate \<Rightarrow> bool" where
  "timers_ok s \<longleftrightarrow> distinct (timer_queue s) \<and>
     (\<forall>tm. tm \<in> set (timer_queue s) \<longleftrightarrow> tm_linked (timers s tm)) \<and>
     (\<forall>tm\<in>set (timer_queue s). tm_magic (timers s tm) = TIMER_MAGIC \<and> callback (timers s tm) \<noteq> None)"

lemma set_insert_timer [simp]: "set (insert_timer f tm es) = insert tm (set es)"
  by (induction es) auto

lemma distinct_insert_timer [simp]:
  "distinct (insert_timer f tm es) \<longleftrightarrow> tm \<notin> set es \<and> distinct es"
  by (induction es) auto

lemma timers_ok_insert:
  assumes "timers_ok s" "tm \<notin> set (timer_queue s)" "tm_magic (timers s tm) = TIMER_MAGIC"
    "callback (timers s tm) \<noteq> None"
  shows "timers_ok (insert_timer_in_queue tm s)"
  using assms by (auto simp: timers_ok_def insert_timer_in_queue_def)

lemma timers_ok_delete: "timers_ok s \<Longrightarrow> timers_ok (delete_timer tm s)"
  by (auto simp: timers_ok_def delete_timer_def)

lemma timers_ok_cong:
  "timers s' = timers s \<Longrightarrow> timer_queue s' = timer_queue s \<Longrightarrow> timers_ok s' = timers_ok s"
  by (simp add: timers_ok_def)

lemma timers_ok_initialize:
  "timers_ok s \<Longrightarrow> tm \<notin> set (timer_queue s) \<Longrightarrow> timers_ok (timer_initialize tm s)"
  by (auto simp: timers_ok_def timer_initialize_def)

lemma timer_set_ok:
  assumes "timers_ok s" "tm \<notin> set (timer_queue s)" "tm_magic (timers s tm) = TIMER_MAGIC"
  shows "\<exists>s'. timer_set tm delay period cb a s = Some s' \<and> timers_ok s'"
  using assms by (auto simp: timer_set_def timers_ok_def insert_timer_in_queue_def Let_def)

lemma timer_cancel_ok:
  assumes "timers_ok s" "tm_magic (timers s tm) = TIMER_MAGIC"
  shows "\<exists>s'. timer_cancel tm s = Some s' \<and> timers_ok s' \<and> tm \<notin> set (timer_queue s')"
  using assms by (auto simp: timer_cancel_def timers_ok_def delete_timer_def Let_def)

subsection \<open>Ordering across the wrap-around of the tick counter\<close>

text \<open>
  \<open>time_key b t\<close> is the signed distance of \<open>t\<close> from a reference time \<open>b\<close>. Within a
  quarter of the counter's range on either side of \<open>b\<close> the modular comparisons agree
  with the order of these distances, also when the counter wraps between the two times.
\<close>

definition time_key :: "time \<Rightarrow> time \<Rightarrow> int" where
  "time_key b t = sint (t - b)"

definition in_window :: "time \<Rightarrow> time \<Rightarrow> bool" where
  "in_window b t \<longleftrightarrow> - (2 ^ 30) \<le> time_key b t \<and> time_key b t < 2 ^ 30"

lemma sint_diff_window:
  assumes "in_window b x" "in_window b y"
  shows "sint (x - y) = time_key b x - time_key b y"
proof -
  have diff: "sint (u - v) = signed_take_bit 31 (sint u - sint v)" for u v :: time
    by (simp add: sint_word_ariths)
  have "x - y = (x - b) - (y - b)" by simp
  then have "sint (x - y) = signed_take_bit 31 (sint (x - b) - sint (y - b))"
    using diff [of "x - b" "y - b"] by simp
  also have "\<dots> = sint (x - b) - sint (y - b)"
    using assms by (intro signed_take_bit_int_eq_self) (auto simp: in_window_def time_key_def)
  finally show ?thesis by (simp add: time_key_def)
qed

lemma TIME_GT_window: "in_window b x \<Longrightarrow> in_window b y \<Longrightarrow> TIME_GT x y \<longleftrightarrow> time_key b x > time_key b y"
  and TIME_LT_window: "in_window b x \<Longrightarrow> in_window b y \<Longrightarrow> TIME_LT x y \<longleftrightarrow> time_key b x < time_key b y"
  by (simp_all add: TIME_GT_def TIME_LT_def sint_diff_window)

lemma insort_key_insert_timer:
  assumes "\<forall>e\<in>set (tm # es). in_window b (f e)" "sorted (map (\<lambda>e. time_key b (f e)) es)"
  shows "sorted (map (\<lambda>e. time_key b (f e)) (insert_timer f tm es))"
  using assms
proof (induction es)
  case (Cons e es)
  then show ?case by (auto simp: TIME_GT_window)
qed simp

text \<open>Equal deadlines fire in the order in which they were set: a new timer goes
  behind every entry that is not later than itself.\<close>

lemma insert_timer_split:
  "\<exists>xs ys. es = xs @ ys \<and> insert_timer f tm es = xs @ tm # ys \<and>
     (\<forall>x\<in>set xs. \<not> TIME_GT (f x) (f tm)) \<and> (ys \<noteq> [] \<longrightarrow> TIME_GT (f (hd ys)) (f tm))"
proof (induction es)
  case (Cons e es)
  then obtain xs ys where IH: "es = xs @ ys" "insert_timer f tm es = xs @ tm # ys"
    "\<forall>x\<in>set xs. \<not> TIME_GT (f x) (f tm)" "ys \<noteq> [] \<longrightarrow> TIME_GT (f (hd ys)) (f tm)" by blast
  show ?case
  proof (cases "TIME_GT (f e) (f tm)")
    case True
    then show ?thesis by (intro exI [of _ "[]"] exI [of _ "e # es"]) simp
  next
    case False
    with IH show ?thesis by (intro exI [of _ "e # xs"] exI [of _ ys]) simp
  qed
qed simp

subsection \<open>Properties\<close>

text \<open>
  C17: arming a timer keeps the timer queue sorted by deadline, also across the
  wrap-around of the 32-bit tick counter, as long as the deadlines lie within 2^30 ticks
  of a common reference time. The armed timer is queued once, behind the timers with
  the same deadline, and the other timers keep their places.
\<close>

theorem timer_set_sorted:
  assumes ok: "timers_ok s" and new: "tm \<notin> set (timer_queue s)"
    and m: "tm_magic (timers s tm) = TIMER_MAGIC"
    and win: "\<forall>e\<in>set (timer_queue s). in_window b (scheduled_time (timers s e))"
      "in_window b (ticks s + delay)"
    and srt: "sorted (map (\<lambda>e. time_key b (scheduled_time (timers s e))) (timer_queue s))"
  shows "\<exists>s'. timer_set tm delay period cb a s = Some s' \<and>
    sorted (map (\<lambda>e. time_key b (scheduled_time (timers s' e))) (timer_queue s')) \<and>
    (\<exists>xs ys. timer_queue s = xs @ ys \<and> timer_queue s' = xs @ tm # ys \<and>
       (\<forall>e\<in>set xs. time_key b (scheduled_time (timers s' e)) \<le> time_key b (ticks s + delay)))"
proof -
  let ?f = "\<lambda>e. if e = tm then ticks s + delay else scheduled_time (timers s e)"
  let ?q = "insert_timer ?f tm (timer_queue s)"
  from ok new m obtain s' where s': "timer_set tm delay period cb a s = Some s'"
    and q: "timer_queue s' = ?q" and f: "\<And>e. scheduled_time (timers s' e) = ?f e"
    by (auto simp: timer_set_def timers_ok_def insert_timer_in_queue_def Let_def
        if_distrib [of scheduled_time] cong: if_cong)
  have same: "?f e = scheduled_time (timers s e)" if "e \<in> set (timer_queue s)" for e
    using that new by auto
  have w: "\<forall>e\<in>set (tm # timer_queue s). in_window b (?f e)" using win same by auto
  have eq: "map (\<lambda>e. time_key b (?f e)) (timer_queue s) =
      map (\<lambda>e. time_key b (scheduled_time (timers s e))) (timer_queue s)"
    using same by auto
  have sorted: "sorted (map (\<lambda>e. time_key b (?f e)) ?q)"
    by (rule insort_key_insert_timer [OF w]) (simp only: eq srt)
  obtain xs ys where xy: "timer_queue s = xs @ ys" "?q = xs @ tm # ys"
    and nle: "\<forall>x\<in>set xs. \<not> TIME_GT (?f x) (?f tm)"
    using insert_timer_split [of "timer_queue s" ?f tm] by blast
  have le: "\<forall>x\<in>set xs. time_key b (?f x) \<le> time_key b (ticks s + delay)"
  proof
    fix x assume x: "x \<in> set xs"
    then have "x \<in> set (tm # timer_queue s)" using xy(1) by simp
    then have "in_window b (?f x)" using w by blast
    moreover have "in_window b (?f tm)" using w by simp
    ultimately have "TIME_GT (?f x) (?f tm) \<longleftrightarrow> time_key b (?f tm) < time_key b (?f x)"
      by (rule TIME_GT_window)
    moreover have "\<not> TIME_GT (?f x) (?f tm)" using nle x by blast
    ultimately have "\<not> time_key b (?f tm) < time_key b (?f x)" by blast
    then show "time_key b (?f x) \<le> time_key b (ticks s + delay)" by simp
  qed
  show ?thesis
  proof (intro exI conjI)
    show "timer_set tm delay period cb a s = Some s'" by (rule s')
    show "sorted (map (\<lambda>e. time_key b (scheduled_time (timers s' e))) (timer_queue s'))"
      using sorted by (simp only: f q)
    show "timer_queue s = xs @ ys" "timer_queue s' = xs @ tm # ys" using xy q by simp_all
    show "\<forall>e\<in>set xs. time_key b (scheduled_time (timers s' e)) \<le> time_key b (ticks s + delay)"
      using le by (simp only: f)
  qed
qed

text \<open>A state whose timer queue straddles the wrap-around of the counter.\<close>

definition wrap_kstate :: kstate where
  "wrap_kstate = zero_kstate\<lparr>ticks := - 10, timer_queue := [SleepTimer 1, SleepTimer 2],
     timers := (\<lambda>_. zero_timer)
       (SleepTimer 1 := zero_timer\<lparr>tm_magic := TIMER_MAGIC, tm_linked := True, scheduled_time := - 3,
          callback := Some Thread_sleep_handler\<rparr>,
        SleepTimer 2 := zero_timer\<lparr>tm_magic := TIMER_MAGIC, tm_linked := True, scheduled_time := 15,
          callback := Some Thread_sleep_handler\<rparr>,
        SleepTimer 3 := zero_timer\<lparr>tm_magic := TIMER_MAGIC\<rparr>)\<rparr>"

lemma wrap_kstate_ok:
  "timers_ok wrap_kstate"
  "\<forall>e\<in>set (timer_queue wrap_kstate). in_window 0 (scheduled_time (timers wrap_kstate e))"
  "in_window 0 (ticks wrap_kstate + 20)"
  "sorted (map (\<lambda>e. time_key 0 (scheduled_time (timers wrap_kstate e))) (timer_queue wrap_kstate))"
  by (auto simp: timers_ok_def wrap_kstate_def zero_kstate_def zero_timer_def in_window_def time_key_def)

theorem timer_set_sorted_witness:
  "\<exists>s'. timer_set (SleepTimer 3) 20 0 Thread_sleep_handler 3 wrap_kstate = Some s' \<and>
    sorted (map (\<lambda>e. time_key 0 (scheduled_time (timers s' e))) (timer_queue s'))"
proof -
  have new: "SleepTimer 3 \<notin> set (timer_queue wrap_kstate)"
    and m: "tm_magic (timers wrap_kstate (SleepTimer 3)) = TIMER_MAGIC"
    by (simp_all add: wrap_kstate_def)
  show ?thesis
    using timer_set_sorted [OF wrap_kstate_ok(1) new m wrap_kstate_ok(2,3,4),
        of 0 Thread_sleep_handler 3] by blast
qed

end
