(* ===== verification/Kernel_Thread.thy ===== *)
theory Kernel_Thread
  imports Kernel_Timer
begin

text \<open>
  Threads and the scheduler of \<^verbatim>\<open>bootable/lk/kernel/thread.c\<close>: the run queues with
  their bitmap, creating, resuming, yielding, preempting, blocking and sleeping, and
  thread_resched, which picks the next thread. The invariant \<open>sched_ok\<close> ties the
  thread states to the queues the threads are linked in.
\<close>

subsection \<open>Run queue manipulation\<close>

text \<open>The last assertion is the bound of the array \<open>run_queue[NUM_PRIORITIES]\<close>.\<close>

definition insert_in_run_queue_head :: "tid \<Rightarrow> kstate \<Rightarrow> kstate option" where
  "insert_in_run_queue_head t s = do {
     assert_opt (magic (thr s t) = THREAD_MAGIC);
     assert_opt (state (thr s t) = THREAD_READY);
     assert_opt (\<not> kq_in_list t s);
     assert_opt (in_critical_section s);
     assert_opt (0 \<le> priority (thr s t) \<and> priority (thr s t) < int NUM_PRIORITIES);
     let p = nat (priority (thr s t));
     let s = kq_add_head (RunQ p) t s;
     Some (s\<lparr>run_queue_bitmap := set_bit32 p (run_queue_bitmap s)\<rparr>) }"

definition insert_in_run_queue_tail :: "tid \<Rightarrow> kstate \<Rightarrow> kstate option" where
  "insert_in_run_queue_tail t s = do {
     assert_opt (magic (thr s t) = THREAD_MAGIC);
     assert_opt (state (thr s t) = THREAD_READY);
     assert_opt (\<not> kq_in_list t s);
     assert_opt (in_critical_section s);
     assert_opt (0 \<le> priority (thr s t) \<and> priority (thr s t) < int NUM_PRIORITIES);
     let p = nat (priority (thr s t));
     let s = kq_add_tail (RunQ p) t s;
     Some (s\<lparr>run_queue_bitmap := set_bit32 p (run_queue_bitmap s)\<rparr>) }"

subsection \<open>Rescheduling\<close>

definition current_time_hires :: "kstate \<Rightarrow> u64" where
  "current_time_hires s = ucast (ticks s) * 1000"

definition upd_stats :: "(thread_stats \<Rightarrow> thread_stats) \<Rightarrow> kstate \<Rightarrow> kstate" where
  "upd_stats f s = s\<lparr>stats := f (stats s)\<rparr>"

text \<open>The accounting of context switches and idle time.\<close>

definition account_switch :: "tid \<Rightarrow> tid \<Rightarrow> kstate \<Rightarrow> kstate" where
  "account_switch oldthread newthread s =
     (let s = upd_stats (\<lambda>x. x\<lparr>context_switches := context_switches x + 1\<rparr>) s;
          s = (if Some oldthread = idle_thread s
               then upd_stats (\<lambda>x. x\<lparr>idle_time := idle_time x +
                      (current_time_hires s - last_idle_timestamp x)\<rparr>) s
               else s)
      in if Some newthread = idle_thread s
         then upd_stats (\<lambda>x. x\<lparr>last_idle_timestamp := current_time_hires s\<rparr>) s
         else s)"

text \<open>The highest set bit of the bitmap.\<close>

definition next_queue :: "kstate \<Rightarrow> nat" where
  "next_queue s = nat HIGHEST_PRIORITY - clz32 (run_queue_bitmap s) - (32 - NUM_PRIORITIES)"

definition thread_resched :: "kstate \<Rightarrow> kstate option" where
  "thread_resched s = do {
     assert_opt (in_critical_section s);
     let s = upd_stats (\<lambda>x. x\<lparr>reschedules := reschedules x + 1\<rparr>) s;
     let oldthread = current_thread s;
     assert_opt (run_queue_bitmap s \<noteq> 0);
     let nq = next_queue s;
     (case kq_remove_head (RunQ nq) s of
        (None, s) \<Rightarrow> None
      | (Some newthread, s) \<Rightarrow> do {
          let s = (if kq_is_empty (RunQ nq) s
                   then s\<lparr>run_queue_bitmap := clear_bit32 nq (run_queue_bitmap s)\<rparr> else s);
          let s = upd_thr newthread (\<lambda>x. x\<lparr>state := THREAD_RUNNING\<rparr>) s;
          if newthread = oldthread then Some s
          else do {
            let s = (if remaining_quantum (thr s newthread) \<le> 0
                     then upd_thr newthread (\<lambda>x. x\<lparr>remaining_quantum := 5\<rparr>) s else s);
            let s = account_switch oldthread newthread s;
            assert_opt (critical_section_count s > 0);
            assert_opt (saved_critical_section_count (thr s newthread) > 0);
            let s = upd_thr oldthread
                      (\<lambda>x. x\<lparr>saved_critical_section_count := critical_section_count s\<rparr>) s;
            let s = s\<lparr>current_thread := newthread\<rparr>;
            Some (s\<lparr>critical_section_count := saved_critical_section_count (thr s newthread)\<rparr>)
          }
        }) }"

subsection \<open>Giving up the processor\<close>

definition thread_yield :: "kstate \<Rightarrow> kstate option" where
  "thread_yield s = do {
     assert_opt (magic (cur s) = THREAD_MAGIC);
     assert_opt (state (cur s) = THREAD_RUNNING);
     let s = enter_critical_section s;
     let s = upd_stats (\<lambda>x. x\<lparr>yields := yields x + 1\<rparr>) s;
     let s = upd_cur (\<lambda>x. x\<lparr>state := THREAD_READY, remaining_quantum := 0\<rparr>) s;
     s \<leftarrow> insert_in_run_queue_tail (current_thread s) s;
     thread_resched (push_frame After_resched s) }"

definition thread_preempt :: "kstate \<Rightarrow> kstate option" where
  "thread_preempt s = do {
     assert_opt (magic (cur s) = THREAD_MAGIC);
     assert_opt (state (cur s) = THREAD_RUNNING);
     let s = enter_critical_section s;
     let s = (if Some (current_thread s) \<noteq> idle_thread s
              then upd_stats (\<lambda>x. x\<lparr>preempts := preempts x + 1\<rparr>) s else s);
     let s = upd_cur (\<lambda>x. x\<lparr>state := THREAD_READY\<rparr>) s;
     s \<leftarrow> (if remaining_quantum (cur s) > 0 then insert_in_run_queue_head (current_thread s) s
          else insert_in_run_queue_tail (current_thread s) s);
     thread_resched (push_frame After_resched s) }"

definition thread_block :: "kstate \<Rightarrow> kstate option" where
  "thread_block s = do {
     assert_opt (magic (cur s) = THREAD_MAGIC);
     assert_opt (state (cur s) = THREAD_BLOCKED);
     let s = enter_critical_section s;
     thread_resched (push_frame After_resched s) }"

definition thread_sleep :: "time \<Rightarrow> kstate \<Rightarrow> kstate option" where
  "thread_sleep delay s = do {
     assert_opt (magic (cur s) = THREAD_MAGIC);
     assert_opt (state (cur s) = THREAD_RUNNING);
     let tm = SleepTimer (current_thread s);
     let s = timer_initialize tm s;
     let s = enter_critical_section s;
     s \<leftarrow> timer_set_oneshot tm delay Thread_sleep_handler (current_thread s) s;
     let s = upd_cur (\<lambda>x. x\<lparr>state := THREAD_SLEEPING\<rparr>) s;
     thread_resched (push_frame After_resched s) }"

datatype handler_return = INT_NO_RESCHEDULE | INT_RESCHEDULE

definition thread_timer_tick :: "kstate \<Rightarrow> handler_return \<times> kstate" where
  "thread_timer_tick s =
     (if Some (current_thread s) = idle_thread s then (INT_NO_RESCHEDULE, s)
      else let s = upd_cur (\<lambda>x. x\<lparr>remaining_quantum := remaining_quantum x - 1\<rparr>) s
           in if remaining_quantum (cur s) \<le> 0 then (INT_RESCHEDULE, s) else (INT_NO_RESCHEDULE, s))"

definition thread_sleep_handler :: "tid \<Rightarrow> kstate \<Rightarrow> (handler_return \<times> kstate) option" where
  "thread_sleep_handler t s = do {
     assert_opt (magic (thr s t) = THREAD_MAGIC);
     assert_opt (state (thr s t) = THREAD_SLEEPING);
     let s = upd_thr t (\<lambda>x. x\<lparr>state := THREAD_READY\<rparr>) s;
     s \<leftarrow> insert_in_run_queue_head t s;
     Some (INT_RESCHEDULE, s) }"

subsection \<open>Creating and resuming\<close>

definition init_thread_struct :: "tid \<Rightarrow> string \<Rightarrow> kstate \<Rightarrow> kstate" where
  "init_thread_struct t nm = upd_thr t (\<lambda>_. zero_thread\<lparr>magic := THREAD_MAGIC, name := take 31 nm\<rparr>)"

text \<open>
  The two malloc calls are arguments: \<open>mem\<close> is the address of the thread structure
  or \<^term>\<open>None\<close> for NULL, \<open>stk\<close> whether the stack was allocated. There are no
  thread-local slots to inherit (MAX_TLS_ENTRY is 0). A freed structure is \<^term>\<open>zero_thread\<close>. arch_thread_initialize makes the
  new thread start in initial_thread_func.
\<close>

definition thread_create ::
  "tid option \<Rightarrow> bool \<Rightarrow> string \<Rightarrow> nat \<Rightarrow> nat \<Rightarrow> int \<Rightarrow> nat \<Rightarrow> kstate \<Rightarrow> tid option \<times> kstate" where
  "thread_create mem stk nm ent a prio ssize s =
     (case mem of
        None \<Rightarrow> (None, s)
      | Some t \<Rightarrow>
          let s = init_thread_struct t nm s;
              s = upd_thr t (\<lambda>x. x\<lparr>entry := ent, arg := a, priority := prio,
                    saved_critical_section_count := 1, state := THREAD_SUSPENDED,
                    blocking_wait_queue := None, wait_queue_block_ret := NO_ERROR\<rparr>) s
          in if \<not> stk then (None, upd_thr t (\<lambda>_. zero_thread) s)
             else let s = upd_thr t (\<lambda>x. x\<lparr>stack_size := ssize\<rparr>) s;
                      s = upd_thr t (\<lambda>x. x\<lparr>frames := [Initial_thread_func]\<rparr>) s;
                      s = enter_critical_section s;
                      s = s\<lparr>thread_list := t # thread_list s\<rparr>;
                      s = exit_critical_section s
                  in (Some t, s))"

definition thread_resume :: "tid \<Rightarrow> kstate \<Rightarrow> kstate option" where
  "thread_resume t s = do {
     assert_opt (magic (thr s t) = THREAD_MAGIC);
     assert_opt (state (thr s t) \<noteq> THREAD_DEATH);
     if state (thr s t) = THREAD_READY \<or> state (thr s t) = THREAD_RUNNING
     then Some (set_ret ERR_NOT_SUSPENDED s)
     else do {
       let s = enter_critical_section s;
       let s = upd_thr t (\<lambda>x. x\<lparr>state := THREAD_READY\<rparr>) s;
       s \<leftarrow> insert_in_run_queue_head t s;
       thread_yield (push_frame After_yield_in_resume s) } }"

definition thread_cleanup_dpc :: "tid \<Rightarrow> kstate \<Rightarrow> kstate option" where
  "thread_cleanup_dpc t s = do {
     assert_opt (state (thr s t) = THREAD_DEATH);
     assert_opt (blocking_wait_queue (thr s t) = None);
     assert_opt (\<not> kq_in_list t s);
     let s = enter_critical_section s;
     let s = s\<lparr>thread_list := remove1 t (thread_list s)\<rparr>;
     let s = exit_critical_section s;
     Some (upd_thr t (\<lambda>_. zero_thread) s) }"

text \<open>The bootstrap thread is statically allocated; thread 0 stands for it.\<close>

definition bootstrap_thread :: tid where "bootstrap_thread = 0"

definition thread_init_early :: "kstate \<Rightarrow> kstate" where
  "thread_init_early s =
     (let s = s\<lparr>lists := (\<lambda>q. case q of RunQ p \<Rightarrow> (if p < NUM_PRIORITIES then [] else lists s q)
                                     | WaitQ w \<Rightarrow> lists s q)\<rparr>;
          s = s\<lparr>thread_list := []\<rparr>;
          t = bootstrap_thread;
          s = init_thread_struct t ''bootstrap'' s;
          s = upd_thr t (\<lambda>x. x\<lparr>priority := HIGHEST_PRIORITY, state := THREAD_RUNNING,
                saved_critical_section_count := 1\<rparr>) s;
          s = s\<lparr>thread_list := t # thread_list s\<rparr>
      in s\<lparr>current_thread := t\<rparr>)"

definition thread_set_name :: "string \<Rightarrow> kstate \<Rightarrow> kstate" where
  "thread_set_name nm = upd_cur (\<lambda>x. x\<lparr>name := take 31 nm\<rparr>)"

definition thread_set_priority :: "int \<Rightarrow> kstate \<Rightarrow> kstate" where
  "thread_set_priority p =
     (let p = (if p < LOWEST_PRIORITY then LOWEST_PRIORITY else p);
          p = (if p > HIGHEST_PRIORITY then HIGHEST_PRIORITY else p)
      in upd_cur (\<lambda>x. x\<lparr>priority := p\<rparr>))"

text \<open>The idle loop itself, which only waits for interrupts, is the running thread
  doing nothing.\<close>

definition thread_become_idle :: "kstate \<Rightarrow> kstate" where
  "thread_become_idle s =
     (let s = thread_set_name ''idle'' s;
          s = thread_set_priority IDLE_PRIORITY s
      in s\<lparr>idle_thread := Some (current_thread s)\<rparr>)"

subsection \<open>The scheduler's invariant\<close>

text \<open>The list a thread's node is linked in, as its state and its fields determine it.\<close>

definition expected_node :: "thread \<Rightarrow> qhead option" where
  "expected_node x = (case state x of
      THREAD_READY \<Rightarrow> Some (RunQ (nat (priority x)))
    | THREAD_BLOCKED \<Rightarrow> map_option WaitQ (blocking_wait_queue x)
    | _ \<Rightarrow> None)"

text \<open>What the scheduler relies on of a thread it may switch to.\<close>

definition live_ok :: "thread \<Rightarrow> bool" where
  "live_ok x \<longleftrightarrow> 0 \<le> priority x \<and> priority x < int NUM_PRIORITIES \<and> magic x = THREAD_MAGIC \<and>
     saved_critical_section_count x > 0"

definition thread_ok :: "thread \<Rightarrow> bool" where
  "thread_ok x \<longleftrightarrow> queue_node x = expected_node x \<and>
     (state x = THREAD_BLOCKED \<longleftrightarrow> blocking_wait_queue x \<noteq> None) \<and>
     (state x \<notin> {THREAD_SUSPENDED, THREAD_DEATH} \<longrightarrow> live_ok x)"

text \<open>A thread that has just been made READY and is not yet inserted.\<close>

definition ready_unqueued :: "thread \<Rightarrow> bool" where
  "ready_unqueued x \<longleftrightarrow> state x = THREAD_READY \<and> queue_node x = None \<and> blocking_wait_queue x = None \<and> live_ok x"

definition bitmap_ok :: "kstate \<Rightarrow> bool" where
  "bitmap_ok s \<longleftrightarrow> (\<forall>p<32. bit (run_queue_bitmap s) p \<longleftrightarrow> lists s (RunQ p) \<noteq> [])"

definition counts_ok :: "kstate \<Rightarrow> bool" where
  "counts_ok s \<longleftrightarrow> (\<forall>w. wq_count (wait_queues s w) = int (length (lists s (WaitQ w))))"

text \<open>The queues are right but for threads whose fields are being changed.\<close>

definition queues_ok_ex :: "tid set \<Rightarrow> kstate \<Rightarrow> bool" where
  "queues_ok_ex T s \<longleftrightarrow> kq_ok s \<and> (\<forall>u. u \<notin> T \<longrightarrow> thread_ok (thr s u)) \<and> bitmap_ok s \<and> counts_ok s"

abbreviation queues_ok_but :: "tid \<Rightarrow> kstate \<Rightarrow> bool" where
  "queues_ok_but t \<equiv> queues_ok_ex {t}"

definition queues_ok :: "kstate \<Rightarrow> bool" where
  "queues_ok s \<longleftrightarrow> kq_ok s \<and> (\<forall>u. thread_ok (thr s u)) \<and> bitmap_ok s \<and> counts_ok s"

text \<open>
  The state in which a thread runs: exactly the current thread is RUNNING, and the
  bootstrap thread, which becomes the idle thread and never blocks, can run.
\<close>

definition sched_ok :: "kstate \<Rightarrow> bool" where
  "sched_ok s \<longleftrightarrow> queues_ok s \<and> (\<forall>u. state (thr s u) = THREAD_RUNNING \<longleftrightarrow> u = current_thread s) \<and>
     (current_thread s \<noteq> bootstrap_thread \<longrightarrow> state (thr s bootstrap_thread) = THREAD_READY)"

text \<open>The state in which thread_resched is called: no thread is RUNNING any more.\<close>

definition switch_ok :: "kstate \<Rightarrow> bool" where
  "switch_ok s \<longleftrightarrow> queues_ok s \<and> (\<forall>u. state (thr s u) \<noteq> THREAD_RUNNING) \<and>
     state (thr s bootstrap_thread) = THREAD_READY \<and> critical_section_count s > 0"

lemma expected_node_upd [simp]:
  "expected_node (x\<lparr>magic := m\<rparr>) = expected_node x"
  "expected_node (x\<lparr>saved_critical_section_count := n\<rparr>) = expected_node x"
  "expected_node (x\<lparr>remaining_quantum := n\<rparr>) = expected_node x"
  "expected_node (x\<lparr>wait_queue_block_ret := n\<rparr>) = expected_node x"
  "expected_node (x\<lparr>stack_size := k\<rparr>) = expected_node x"
  "expected_node (x\<lparr>retcode := n\<rparr>) = expected_node x"
  "expected_node (x\<lparr>name := nm\<rparr>) = expected_node x"
  "expected_node (x\<lparr>queue_node := q\<rparr>) = expected_node x"
  "expected_node (x\<lparr>frames := fs\<rparr>) = expected_node x"
  "expected_node (x\<lparr>ret := n\<rparr>) = expected_node x"
  by (simp_all add: expected_node_def cong: thread_state.case_cong)

lemma live_ok_upd [simp]:
  "live_ok (x\<lparr>state := st\<rparr>) = live_ok x"
  "live_ok (x\<lparr>remaining_quantum := n\<rparr>) = live_ok x"
  "live_ok (x\<lparr>blocking_wait_queue := w\<rparr>) = live_ok x"
  "live_ok (x\<lparr>wait_queue_block_ret := n\<rparr>) = live_ok x"
  "live_ok (x\<lparr>stack_size := k\<rparr>) = live_ok x"
  "live_ok (x\<lparr>retcode := n\<rparr>) = live_ok x"
  "live_ok (x\<lparr>name := nm\<rparr>) = live_ok x"
  "live_ok (x\<lparr>queue_node := q\<rparr>) = live_ok x"
  "live_ok (x\<lparr>frames := fs\<rparr>) = live_ok x"
  "live_ok (x\<lparr>ret := n\<rparr>) = live_ok x"
  by (simp_all add: live_ok_def)

lemma live_ok_saved: "live_ok x \<Longrightarrow> n > 0 \<Longrightarrow> live_ok (x\<lparr>saved_critical_section_count := n\<rparr>)"
  by (simp add: live_ok_def)

lemma thread_ok_upd [simp]:
  "thread_ok (x\<lparr>remaining_quantum := n\<rparr>) = thread_ok x"
  "thread_ok (x\<lparr>wait_queue_block_ret := n\<rparr>) = thread_ok x"
  "thread_ok (x\<lparr>stack_size := k\<rparr>) = thread_ok x"
  "thread_ok (x\<lparr>retcode := n\<rparr>) = thread_ok x"
  "thread_ok (x\<lparr>name := nm\<rparr>) = thread_ok x"
  "thread_ok (x\<lparr>frames := fs\<rparr>) = thread_ok x"
  "thread_ok (x\<lparr>ret := n\<rparr>) = thread_ok x"
  by (simp_all add: thread_ok_def)

lemma thread_ok_saved: "thread_ok x \<Longrightarrow> n > 0 \<Longrightarrow> thread_ok (x\<lparr>saved_critical_section_count := n\<rparr>)"
  by (simp add: thread_ok_def live_ok_saved)

lemma thread_ok_saved_same [simp]:
  "saved_critical_section_count x = n \<Longrightarrow> x\<lparr>saved_critical_section_count := n\<rparr> = x"
  by (cases x) simp

lemma queues_ok_but_iff: "queues_ok s \<longleftrightarrow> queues_ok_but t s \<and> thread_ok (thr s t)"
  by (auto simp: queues_ok_def queues_ok_ex_def)

lemma queues_ok_ex_upd:
  "queues_ok_ex T s \<Longrightarrow> t \<in> T \<Longrightarrow> queue_node (f (thr s t)) = queue_node (thr s t) \<Longrightarrow>
   queues_ok_ex T (upd_thr t f s)"
  by (simp add: queues_ok_ex_def kq_ok_def bitmap_ok_def counts_ok_def)

lemma queues_ok_ex_mono: "queues_ok_ex T s \<Longrightarrow> T \<subseteq> U \<Longrightarrow> queues_ok_ex U s"
  by (auto simp: queues_ok_ex_def)

lemma queues_ok_ex_empty: "queues_ok_ex {} s \<longleftrightarrow> queues_ok s"
  by (simp add: queues_ok_ex_def queues_ok_def)

text \<open>Only these fields matter to the queues.\<close>

lemma queues_ok_cong:
  "queues_ok s \<Longrightarrow> thr s' = thr s \<Longrightarrow> lists s' = lists s \<Longrightarrow>
   run_queue_bitmap s' = run_queue_bitmap s \<Longrightarrow> wait_queues s' = wait_queues s \<Longrightarrow> queues_ok s'"
  by (simp add: queues_ok_def kq_ok_def bitmap_ok_def counts_ok_def)

subsection \<open>Inserting in a run queue\<close>

text \<open>The effect of the two insertions when no assertion fails.\<close>

definition run_insert :: "bool \<Rightarrow> tid \<Rightarrow> kstate \<Rightarrow> kstate" where
  "run_insert h t s = (let p = nat (priority (thr s t)) in
     (if h then kq_add_head (RunQ p) t s else kq_add_tail (RunQ p) t s)
       \<lparr>run_queue_bitmap := set_bit32 p (run_queue_bitmap s)\<rparr>)"

lemma run_insert_simps [simp]:
  "thread_list (run_insert h t s) = thread_list s"
  "current_thread (run_insert h t s) = current_thread s"
  "idle_thread (run_insert h t s) = idle_thread s"
  "critical_section_count (run_insert h t s) = critical_section_count s"
  "ints_enabled (run_insert h t s) = ints_enabled s"
  "wait_queues (run_insert h t s) = wait_queues s"
  "timers (run_insert h t s) = timers s"
  "timer_queue (run_insert h t s) = timer_queue s"
  "ticks (run_insert h t s) = ticks s"
  "mutexes (run_insert h t s) = mutexes s"
  "events (run_insert h t s) = events s"
  "dpc_list (run_insert h t s) = dpc_list s"
  "stats (run_insert h t s) = stats s"
  "thr (run_insert h t s) = (thr s)(t := (thr s t)\<lparr>queue_node := Some (RunQ (nat (priority (thr s t))))\<rparr>)"
  "lists (run_insert h t s) = (lists s)(RunQ (nat (priority (thr s t))) :=
     (if h then t # lists s (RunQ (nat (priority (thr s t))))
      else lists s (RunQ (nat (priority (thr s t)))) @ [t]))"
  "run_queue_bitmap (run_insert h t s) = set_bit32 (nat (priority (thr s t))) (run_queue_bitmap s)"
  by (simp_all add: run_insert_def Let_def kq_add_head_def kq_add_tail_def)

lemma insert_in_run_queue_ready:
  assumes "ready_unqueued (thr s t)" and "critical_section_count s > 0"
  shows "insert_in_run_queue_head t s = Some (run_insert True t s)"
    and "insert_in_run_queue_tail t s = Some (run_insert False t s)"
  using assms
  by (simp_all add: insert_in_run_queue_head_def insert_in_run_queue_tail_def ready_unqueued_def live_ok_def
      kq_in_list_def in_critical_section_def run_insert_def kq_add_head_def kq_add_tail_def Let_def)

lemma queues_ok_ex_run_insert:
  assumes "queues_ok_ex (insert t T) s" and "ready_unqueued (thr s t)"
  shows "queues_ok_ex (T - {t}) (run_insert h t s)"
proof -
  let ?p = "nat (priority (thr s t))"
  have p: "?p < 32" and q: "queue_node (thr s t) = None"
    using assms(2) by (auto simp: ready_unqueued_def live_ok_def NUM_PRIORITIES_def)
  have "kq_ok (kq_add_head (RunQ ?p) t s)" and "kq_ok (kq_add_tail (RunQ ?p) t s)"
    using assms(1) q by (simp_all add: queues_ok_ex_def kq_ok_add_head kq_ok_add_tail)
  then have "kq_ok (run_insert h t s)"
    by (simp add: run_insert_def Let_def kq_ok_def)
  moreover have "bitmap_ok (run_insert h t s)"
    using assms(1) p by (simp add: queues_ok_ex_def bitmap_ok_def)
  moreover have "counts_ok (run_insert h t s)"
    using assms(1) by (simp add: queues_ok_ex_def counts_ok_def)
  moreover have "thread_ok (thr (run_insert h t s) u)" if "u \<notin> T - {t}" for u
    using assms that by (auto simp: queues_ok_ex_def thread_ok_def ready_unqueued_def expected_node_def)
  ultimately show ?thesis by (simp add: queues_ok_ex_def)
qed

lemma queues_ok_run_insert:
  "queues_ok_but t s \<Longrightarrow> ready_unqueued (thr s t) \<Longrightarrow> queues_ok (run_insert h t s)"
  using queues_ok_ex_run_insert [of t "{}" s h] by (simp add: queues_ok_ex_empty)

subsection \<open>What thread_resched picks\<close>

definition next_thread :: "kstate \<Rightarrow> tid" where
  "next_thread s = hd (lists s (RunQ (next_queue s)))"

lemma bitmap_nonzero: "bitmap_ok s \<Longrightarrow> p < 32 \<Longrightarrow> lists s (RunQ p) \<noteq> [] \<Longrightarrow> run_queue_bitmap s \<noteq> 0"
  by (metis bitmap_ok_def bit_0_eq bot_apply bot_bool_def)

lemma next_queue_highest:
  assumes "bitmap_ok s" and "p < 32" and "lists s (RunQ p) \<noteq> []"
  shows "next_queue s < 32" and "lists s (RunQ (next_queue s)) \<noteq> []" and "p \<le> next_queue s"
proof -
  have nz: "run_queue_bitmap s \<noteq> 0" using bitmap_nonzero assms .
  have eq: "next_queue s = 31 - clz32 (run_queue_bitmap s)"
    by (simp add: next_queue_def HIGHEST_PRIORITY_def NUM_PRIORITIES_def)
  show lt: "next_queue s < 32" by (simp add: eq)
  show "lists s (RunQ (next_queue s)) \<noteq> []"
    using assms(1) lt clz32_msb(1) [OF nz] by (simp add: bitmap_ok_def eq)
  have "bit (run_queue_bitmap s) p" using assms by (simp add: bitmap_ok_def)
  then show "p \<le> next_queue s"
    using clz32_msb(2) [OF nz] assms(2) by (metis eq linorder_not_le)
qed

text \<open>Taking the next thread off its run queue and marking it RUNNING.\<close>

definition take_next :: "kstate \<Rightarrow> kstate" where
  "take_next s = (let p = next_queue s; t = next_thread s; r = tl (lists s (RunQ p)) in
     (upd_thr t (\<lambda>x. x\<lparr>queue_node := None, state := THREAD_RUNNING\<rparr>) s)
       \<lparr>lists := (lists s)(RunQ p := r),
        run_queue_bitmap := (if r = [] then clear_bit32 p (run_queue_bitmap s) else run_queue_bitmap s)\<rparr>)"

lemma take_next_simps [simp]:
  "thread_list (take_next s) = thread_list s"
  "current_thread (take_next s) = current_thread s"
  "idle_thread (take_next s) = idle_thread s"
  "critical_section_count (take_next s) = critical_section_count s"
  "ints_enabled (take_next s) = ints_enabled s"
  "wait_queues (take_next s) = wait_queues s"
  "timers (take_next s) = timers s"
  "timer_queue (take_next s) = timer_queue s"
  "ticks (take_next s) = ticks s"
  "mutexes (take_next s) = mutexes s"
  "events (take_next s) = events s"
  "dpc_list (take_next s) = dpc_list s"
  "stats (take_next s) = stats s"
  "thr (take_next s) = (thr s)(next_thread s :=
     (thr s (next_thread s))\<lparr>queue_node := None, state := THREAD_RUNNING\<rparr>)"
  "lists (take_next s) = (lists s)(RunQ (next_queue s) := tl (lists s (RunQ (next_queue s))))"
  by (simp_all add: take_next_def Let_def)

lemma queues_ok_thread: "queues_ok s \<Longrightarrow> thread_ok (thr s t)"
  by (simp add: queues_ok_def)

lemma next_thread_ready:
  assumes "queues_ok s" and "p < 32" and "lists s (RunQ p) \<noteq> []"
  shows "next_thread s \<in> set (lists s (RunQ (next_queue s)))"
    and "queue_node (thr s (next_thread s)) = Some (RunQ (next_queue s))"
    and "state (thr s (next_thread s)) = THREAD_READY"
    and "nat (priority (thr s (next_thread s))) = next_queue s"
proof -
  have b: "bitmap_ok s" and k: "kq_ok s" using assms(1) by (simp_all add: queues_ok_def)
  show m: "next_thread s \<in> set (lists s (RunQ (next_queue s)))"
    using next_queue_highest(2) [OF b assms(2,3)] by (simp add: next_thread_def)
  then show q: "queue_node (thr s (next_thread s)) = Some (RunQ (next_queue s))"
    using kq_okD(2) [OF k] by blast
  have "expected_node (thr s (next_thread s)) = Some (RunQ (next_queue s))"
    using queues_ok_thread [OF assms(1), of "next_thread s"] q by (simp add: thread_ok_def)
  then show "state (thr s (next_thread s)) = THREAD_READY"
    and "nat (priority (thr s (next_thread s))) = next_queue s"
    by (auto simp: expected_node_def split: thread_state.splits)
qed

lemma queues_ok_take_next:
  assumes "queues_ok s" and "p < 32" and "lists s (RunQ p) \<noteq> []"
  shows "queues_ok (take_next s)"
proof -
  note R = next_thread_ready [OF assms]
  have b: "bitmap_ok s" and k: "kq_ok s" and c: "counts_ok s" using assms(1) by (simp_all add: queues_ok_def)
  let ?p = "next_queue s" and ?t = "next_thread s"
  note H = next_queue_highest [OF b assms(2,3)]
  obtain r where r: "lists s (RunQ ?p) = ?t # r"
    using H(2) by (metis list.collapse next_thread_def)
  have "kq_ok (take_next s)"
    using kq_ok_delete [OF k, of ?t] R(2) r by (simp add: kq_ok_def kq_delete_def)
  moreover have "bitmap_ok (take_next s)"
    using b r H(1) by (auto simp: bitmap_ok_def take_next_def Let_def)
  moreover have "counts_ok (take_next s)" using c by (simp add: counts_ok_def)
  moreover have "thread_ok (thr (take_next s) u)" for u
    using queues_ok_thread [OF assms(1), of u] R(3)
    by (auto simp: thread_ok_def expected_node_def)
  ultimately show ?thesis by (simp add: queues_ok_def)
qed

lemma upd_stats_simps [simp]:
  "thr (upd_stats f s) = thr s"
  "thread_list (upd_stats f s) = thread_list s"
  "current_thread (upd_stats f s) = current_thread s"
  "idle_thread (upd_stats f s) = idle_thread s"
  "critical_section_count (upd_stats f s) = critical_section_count s"
  "ints_enabled (upd_stats f s) = ints_enabled s"
  "lists (upd_stats f s) = lists s"
  "run_queue_bitmap (upd_stats f s) = run_queue_bitmap s"
  "wait_queues (upd_stats f s) = wait_queues s"
  "timers (upd_stats f s) = timers s"
  "timer_queue (upd_stats f s) = timer_queue s"
  "ticks (upd_stats f s) = ticks s"
  "mutexes (upd_stats f s) = mutexes s"
  "events (upd_stats f s) = events s"
  "dpc_list (upd_stats f s) = dpc_list s"
  by (simp_all add: upd_stats_def)

lemma account_switch_simps [simp]:
  "thr (account_switch old new s) = thr s"
  "thread_list (account_switch old new s) = thread_list s"
  "current_thread (account_switch old new s) = current_thread s"
  "idle_thread (account_switch old new s) = idle_thread s"
  "critical_section_count (account_switch old new s) = critical_section_count s"
  "ints_enabled (account_switch old new s) = ints_enabled s"
  "lists (account_switch old new s) = lists s"
  "run_queue_bitmap (account_switch old new s) = run_queue_bitmap s"
  "wait_queues (account_switch old new s) = wait_queues s"
  "timers (account_switch old new s) = timers s"
  "timer_queue (account_switch old new s) = timer_queue s"
  "ticks (account_switch old new s) = ticks s"
  "mutexes (account_switch old new s) = mutexes s"
  "events (account_switch old new s) = events s"
  "dpc_list (account_switch old new s) = dpc_list s"
  by (simp_all add: account_switch_def Let_def)

lemma next_upd_stats [simp]:
  "next_queue (upd_stats f s) = next_queue s" "next_thread (upd_stats f s) = next_thread s"
  by (simp_all add: next_queue_def next_thread_def)

text \<open>What a switch leaves alone: everything but the scheduler's own fields.\<close>

definition same_thread :: "thread \<Rightarrow> thread \<Rightarrow> bool" where
  "same_thread x y \<longleftrightarrow> y = x\<lparr>state := state y, queue_node := queue_node y,
     saved_critical_section_count := saved_critical_section_count y,
     remaining_quantum := remaining_quantum y\<rparr>"

definition same_objects :: "kstate \<Rightarrow> kstate \<Rightarrow> bool" where
  "same_objects s s' \<longleftrightarrow> thread_list s' = thread_list s \<and> idle_thread s' = idle_thread s \<and>
     ints_enabled s' = ints_enabled s \<and> wait_queues s' = wait_queues s \<and> timers s' = timers s \<and>
     timer_queue s' = timer_queue s \<and> ticks s' = ticks s \<and> mutexes s' = mutexes s \<and>
     events s' = events s \<and> dpc_list s' = dpc_list s \<and>
     (\<forall>w. lists s' (WaitQ w) = lists s (WaitQ w))"

definition switched :: "kstate \<Rightarrow> kstate \<Rightarrow> bool" where
  "switched s s' \<longleftrightarrow> same_objects s s' \<and> (\<forall>t. same_thread (thr s t) (thr s' t)) \<and>
     (\<forall>t. t \<noteq> next_thread s \<longrightarrow> state (thr s' t) = state (thr s t))"

text \<open>
  When no thread is RUNNING, thread_resched succeeds and the processor goes to the head
  of the highest non-empty run queue.
\<close>

definition switch_to :: "kstate \<Rightarrow> kstate" where
  "switch_to s = (let s = upd_stats (\<lambda>x. x\<lparr>reschedules := reschedules x + 1\<rparr>) s;
       old = current_thread s; new = next_thread s; s = take_next s
     in if new = old then s
        else let s = (if remaining_quantum (thr s new) \<le> 0
                      then upd_thr new (\<lambda>x. x\<lparr>remaining_quantum := 5\<rparr>) s else s);
                 s = account_switch old new s;
                 s = upd_thr old (\<lambda>x. x\<lparr>saved_critical_section_count := critical_section_count s\<rparr>) s
             in s\<lparr>current_thread := new, critical_section_count := saved_critical_section_count (thr s new)\<rparr>)"

lemma switch_ok_run_queue:
  assumes "switch_ok s"
  obtains p where "p < 32" "lists s (RunQ p) \<noteq> []"
proof -
  let ?x = "thr s bootstrap_thread"
  have q: "queues_ok s" and st: "state ?x = THREAD_READY" using assms by (simp_all add: switch_ok_def)
  then have n: "queue_node ?x = Some (RunQ (nat (priority ?x)))" and "nat (priority ?x) < 32"
    using queues_ok_thread [OF q, of bootstrap_thread]
    by (auto simp: thread_ok_def live_ok_def expected_node_def NUM_PRIORITIES_def)
  moreover have "bootstrap_thread \<in> set (lists s (RunQ (nat (priority ?x))))"
    using q n by (simp add: queues_ok_def kq_okD(2))
  ultimately show ?thesis using that by (metis empty_iff list.set(1))
qed

lemma remove_next:
  assumes "queues_ok s" and "p < 32" and "lists s (RunQ p) \<noteq> []"
  shows "kq_remove_head (RunQ (next_queue s)) s =
    (Some (next_thread s), (upd_thr (next_thread s) (\<lambda>x. x\<lparr>queue_node := None\<rparr>) s)
      \<lparr>lists := (lists s)(RunQ (next_queue s) := tl (lists s (RunQ (next_queue s))))\<rparr>)"
proof -
  have b: "bitmap_ok s" using assms(1) by (simp add: queues_ok_def)
  obtain r where "lists s (RunQ (next_queue s)) = next_thread s # r"
    using next_queue_highest(2) [OF b assms(2,3)] by (metis list.collapse next_thread_def)
  then show ?thesis
    using next_thread_ready(2) [OF assms] by (simp add: kq_remove_head_def kq_delete_def)
qed

lemma thread_resched_eq:
  assumes "switch_ok s"
  shows "thread_resched s = Some (switch_to s)"
proof -
  let ?s = "upd_stats (\<lambda>x. x\<lparr>reschedules := reschedules x + 1\<rparr>) s"
  obtain p where p: "p < 32" "lists s (RunQ p) \<noteq> []" using switch_ok_run_queue [OF assms] .
  have q: "queues_ok s" and c: "critical_section_count s > 0" using assms by (simp_all add: switch_ok_def)
  then have q': "queues_ok ?s" by (simp add: queues_ok_cong [of s])
  have nz: "run_queue_bitmap s \<noteq> 0" using bitmap_nonzero [OF _ p] q by (simp add: queues_ok_def)
  have sv: "saved_critical_section_count (thr s (next_thread s)) > 0"
    using queues_ok_thread [OF q, of "next_thread s"] next_thread_ready(3) [OF q p]
    by (simp add: thread_ok_def live_ok_def)
  note rm = remove_next [OF q', of p, simplified, OF p]
  obtain u where u: "kq_remove_head (RunQ (next_queue s)) ?s = (Some (next_thread s), u)"
    using rm by simp
  then have uq: "remaining_quantum (thr u (next_thread s)) = remaining_quantum (thr s (next_thread s))"
    using rm by auto
  have tn: "upd_thr (next_thread s) (\<lambda>x. x\<lparr>state := THREAD_RUNNING\<rparr>)
      (if kq_is_empty (RunQ (next_queue s)) u
       then u\<lparr>run_queue_bitmap := clear_bit32 (next_queue s) (run_queue_bitmap u)\<rparr> else u) = take_next ?s"
    using u rm by (auto simp: take_next_def Let_def kq_is_empty_def upd_thr_def)
  show ?thesis
  proof (cases "next_thread s = current_thread s")
    case True
    then have e: "current_thread s = next_thread s" by simp
    show ?thesis
      using nz c e by (simp add: thread_resched_def in_critical_section_def u tn switch_to_def Let_def
          split del: if_split cong: if_cong)
  next
    case False
    then show ?thesis
      using nz c sv by (simp add: thread_resched_def in_critical_section_def u uq tn switch_to_def Let_def
          split del: if_split cong: if_cong) (simp add: uq)
  qed
qed

lemma switch_to_fields:
  "current_thread (switch_to s) = next_thread s"
  "run_queue_bitmap (switch_to s) = run_queue_bitmap (take_next s)"
  "lists (switch_to s) = lists (take_next s)"
  "same_objects s (switch_to s)"
  by (auto simp: switch_to_def Let_def same_objects_def take_next_def)

lemma switch_to_thr:
  assumes "switch_ok s"
  shows "thr (switch_to s) t = (thr (take_next s) t)
    \<lparr>remaining_quantum := remaining_quantum (thr (switch_to s) t),
     saved_critical_section_count := saved_critical_section_count (thr (switch_to s) t)\<rparr>"
  by (simp add: switch_to_def Let_def)

lemma switch_to_same: "same_thread (thr s t) (thr (switch_to s) t)"
  by (simp add: same_thread_def switch_to_def Let_def)

lemma switch_to_saved:
  assumes "switch_ok s"
  shows "saved_critical_section_count (thr (switch_to s) t) =
      (if t = current_thread s \<and> t \<noteq> next_thread s then critical_section_count s
       else saved_critical_section_count (thr s t))"
    and "critical_section_count (switch_to s) =
      (if next_thread s = current_thread s then critical_section_count s
       else saved_critical_section_count (thr s (next_thread s)))"
  by (simp_all add: switch_to_def Let_def)

lemma switch_to_ok:
  assumes "switch_ok s"
  shows "sched_ok (switch_to s)" and "switched s (switch_to s)" and "critical_section_count (switch_to s) > 0"
proof -
  obtain p where p: "p < 32" "lists s (RunQ p) \<noteq> []" using switch_ok_run_queue [OF assms] .
  have q: "queues_ok s" and c: "critical_section_count s > 0" using assms by (simp_all add: switch_ok_def)
  note R = next_thread_ready [OF q p]
  note T = switch_to_thr [OF assms] and S = switch_to_saved [OF assms]
  have nf: "saved_critical_section_count (thr s (next_thread s)) > 0"
    using queues_ok_thread [OF q, of "next_thread s"] R(3) by (simp add: thread_ok_def live_ok_def)
  have tq: "queues_ok (take_next s)" using queues_ok_take_next [OF q p] .
  have "thread_ok (thr (switch_to s) t)" for t
  proof (cases "t = current_thread s \<and> t \<noteq> next_thread s")
    case True
    then show ?thesis
      using queues_ok_thread [OF tq, of t] S(1) [of t] c by (subst T) (simp add: thread_ok_saved)
  next
    case False
    then show ?thesis
      using queues_ok_thread [OF tq, of t] S(1) [of t] by (subst T) (auto split: if_splits)
  qed
  moreover have "queue_node (thr (switch_to s) t) = queue_node (thr (take_next s) t)" for t
    by (subst T) simp
  ultimately have qs: "queues_ok (switch_to s)"
    using tq switch_to_fields [of s]
    by (simp add: queues_ok_def kq_ok_def bitmap_ok_def counts_ok_def same_objects_def)
  have f: "state (thr (switch_to s) t) = state (thr (take_next s) t)" for t
    by (subst T) simp
  show "sched_ok (switch_to s)"
    using qs assms unfolding sched_ok_def switch_ok_def by (simp add: f switch_to_fields(1))
  show "switched s (switch_to s)"
    using switch_to_fields(4) [of s] by (simp add: switched_def f switch_to_same)
  show "critical_section_count (switch_to s) > 0"
    using S(2) c nf by simp
qed

lemma thread_resched_ok:
  assumes "switch_ok s"
  obtains s' where "thread_resched s = Some s'" "sched_ok s'" "switched s s'"
    "critical_section_count s' > 0" "current_thread s' = next_thread s"
  using that thread_resched_eq switch_to_ok switch_to_fields(1) assms by metis

subsection \<open>Becoming READY and giving up the processor\<close>

text \<open>Changes of a thread that keep what the invariants say of it.\<close>

definition keeps_queue :: "(thread \<Rightarrow> thread) \<Rightarrow> thread \<Rightarrow> bool" where
  "keeps_queue f x \<longleftrightarrow> queue_node (f x) = queue_node x \<and> state (f x) = state x \<and> priority (f x) = priority x \<and>
     magic (f x) = magic x \<and> blocking_wait_queue (f x) = blocking_wait_queue x \<and>
     saved_critical_section_count (f x) = saved_critical_section_count x"

lemma keeps_queue_simps [simp]:
  "keeps_queue (\<lambda>x. x\<lparr>ret := n\<rparr>) x"
  "keeps_queue (\<lambda>x. x\<lparr>frames := fs x\<rparr>) x"
  "keeps_queue (\<lambda>x. x\<lparr>remaining_quantum := k x\<rparr>) x"
  "keeps_queue (\<lambda>x. x\<lparr>wait_queue_block_ret := n\<rparr>) x"
  "keeps_queue (\<lambda>x. x\<lparr>retcode := n\<rparr>) x"
  "keeps_queue (\<lambda>x. x\<lparr>name := nm\<rparr>) x"
  by (simp_all add: keeps_queue_def)

lemma queues_ok_keep: "queues_ok s \<Longrightarrow> keeps_queue f (thr s t) \<Longrightarrow> queues_ok (upd_thr t f s)"
  by (simp add: queues_ok_def keeps_queue_def kq_ok_def bitmap_ok_def counts_ok_def thread_ok_def
      live_ok_def expected_node_def cong: thread_state.case_cong)

lemma keeps_queue_upd:
  assumes "keeps_queue f (thr s t)"
  shows "state (thr (upd_thr t f s) u) = state (thr s u)"
    and "magic (thr (upd_thr t f s) u) = magic (thr s u)"
    and "priority (thr (upd_thr t f s) u) = priority (thr s u)"
    and "saved_critical_section_count (thr (upd_thr t f s) u) = saved_critical_section_count (thr s u)"
  using assms by (simp_all add: keeps_queue_def)

lemma sched_ok_keep: "sched_ok s \<Longrightarrow> keeps_queue f (thr s t) \<Longrightarrow> sched_ok (upd_thr t f s)"
  using queues_ok_keep [of s f t] keeps_queue_upd [of f s t] by (simp add: sched_ok_def del: thr_upd_thr)

lemma switch_ok_keep: "switch_ok s \<Longrightarrow> keeps_queue f (thr s t) \<Longrightarrow> switch_ok (upd_thr t f s)"
  using queues_ok_keep [of s f t] keeps_queue_upd [of f s t] by (simp add: switch_ok_def del: thr_upd_thr)

lemma push_frames_simps [simp]:
  "thread_list (push_frames fs s) = thread_list s"
  "current_thread (push_frames fs s) = current_thread s"
  "idle_thread (push_frames fs s) = idle_thread s"
  "critical_section_count (push_frames fs s) = critical_section_count s"
  "ints_enabled (push_frames fs s) = ints_enabled s"
  "lists (push_frames fs s) = lists s"
  "run_queue_bitmap (push_frames fs s) = run_queue_bitmap s"
  "wait_queues (push_frames fs s) = wait_queues s"
  "timers (push_frames fs s) = timers s"
  "timer_queue (push_frames fs s) = timer_queue s"
  "ticks (push_frames fs s) = ticks s"
  "mutexes (push_frames fs s) = mutexes s"
  "events (push_frames fs s) = events s"
  "dpc_list (push_frames fs s) = dpc_list s"
  "next_queue (push_frames fs s) = next_queue s"
  "next_thread (push_frames fs s) = next_thread s"
  by (simp_all add: push_frames_def upd_cur_def next_queue_def next_thread_def)

lemma ok_push_frames [simp]:
  "sched_ok s \<Longrightarrow> sched_ok (push_frames fs s)" "switch_ok s \<Longrightarrow> switch_ok (push_frames fs s)"
  by (simp_all add: push_frames_def upd_cur_def sched_ok_keep switch_ok_keep)

lemma ok_set_ret [simp]: "sched_ok s \<Longrightarrow> sched_ok (set_ret r s)"
  by (simp add: set_ret_def upd_cur_def sched_ok_keep)

lemma sched_ok_cong:
  "sched_ok s \<Longrightarrow> thr s' = thr s \<Longrightarrow> lists s' = lists s \<Longrightarrow> run_queue_bitmap s' = run_queue_bitmap s \<Longrightarrow>
   wait_queues s' = wait_queues s \<Longrightarrow> current_thread s' = current_thread s \<Longrightarrow> sched_ok s'"
  by (simp add: sched_ok_def) (blast intro: queues_ok_cong)

text \<open>A thread other than the current one becomes READY.\<close>

lemma sched_ok_make_ready:
  assumes "sched_ok s" and "t \<noteq> current_thread s" and "queue_node (thr s t) = None"
    and "ready_unqueued ((thr s t)\<lparr>state := THREAD_READY\<rparr>)"
  shows "sched_ok (run_insert h t (upd_thr t (\<lambda>x. x\<lparr>state := THREAD_READY\<rparr>) s))"
proof -
  let ?s = "upd_thr t (\<lambda>x. x\<lparr>state := THREAD_READY\<rparr>) s"
  have "queues_ok_but t s" using assms(1) queues_ok_but_iff by (auto simp: sched_ok_def)
  then have "queues_ok (run_insert h t ?s)"
    using assms(4) by (intro queues_ok_run_insert queues_ok_ex_upd) simp_all
  then show ?thesis using assms(1,2) by (auto simp: sched_ok_def)
qed

text \<open>The current thread stops running.\<close>

lemma switch_ok_requeue:
  assumes "sched_ok s" and "critical_section_count s > 0"
  shows "switch_ok (run_insert h (current_thread s)
    (upd_cur (\<lambda>x. x\<lparr>state := THREAD_READY, remaining_quantum := k x\<rparr>) s))"
proof -
  let ?c = "current_thread s" and ?f = "\<lambda>x. x\<lparr>state := THREAD_READY, remaining_quantum := k x\<rparr>"
  have t: "thread_ok (cur s)" and b: "queues_ok_but ?c s"
    using assms(1) queues_ok_but_iff [of s ?c] by (auto simp: sched_ok_def)
  have "state (cur s) = THREAD_RUNNING" using assms(1) by (simp add: sched_ok_def)
  then have n: "queue_node (cur s) = None" "blocking_wait_queue (cur s) = None"
    using t by (auto simp: thread_ok_def expected_node_def)
  then have "ready_unqueued (?f (cur s))"
    using t \<open>state (cur s) = THREAD_RUNNING\<close> by (simp add: ready_unqueued_def thread_ok_def)
  then have "queues_ok (run_insert h ?c (upd_thr ?c ?f s))"
    using b by (intro queues_ok_run_insert queues_ok_ex_upd) simp_all
  then show ?thesis
    using assms by (auto simp: switch_ok_def sched_ok_def upd_cur_def)
qed

lemma switch_ok_stop:
  assumes "sched_ok s" and "critical_section_count s > 0" and "current_thread s \<noteq> bootstrap_thread"
    and "st \<in> {THREAD_SLEEPING, THREAD_DEATH, THREAD_SUSPENDED}"
  shows "switch_ok (upd_cur (\<lambda>x. x\<lparr>state := st\<rparr>) s)"
proof -
  let ?c = "current_thread s"
  have t: "thread_ok (cur s)" and b: "queues_ok_but ?c s" and "state (cur s) = THREAD_RUNNING"
    using assms(1) queues_ok_but_iff [of s ?c] by (auto simp: sched_ok_def)
  then have "thread_ok ((cur s)\<lparr>state := st\<rparr>)"
    using assms(4) by (auto simp: thread_ok_def expected_node_def)
  moreover have "queues_ok_but ?c (upd_thr ?c (\<lambda>x. x\<lparr>state := st\<rparr>) s)"
    using b by (rule queues_ok_ex_upd) simp_all
  ultimately have "queues_ok (upd_thr ?c (\<lambda>x. x\<lparr>state := st\<rparr>) s)"
    using queues_ok_but_iff by fastforce
  then show ?thesis using assms by (auto simp: switch_ok_def sched_ok_def upd_cur_def)
qed

subsection \<open>The operations keep the invariant\<close>

lemma upd_cur_fields [simp]:
  "thr (upd_cur f s) = (thr s)(current_thread s := f (cur s))"
  "current_thread (upd_cur f s) = current_thread s"
  "critical_section_count (upd_cur f s) = critical_section_count s"
  "idle_thread (upd_cur f s) = idle_thread s"
  "thread_list (upd_cur f s) = thread_list s"
  "ints_enabled (upd_cur f s) = ints_enabled s"
  "dpc_list (upd_cur f s) = dpc_list s"
  "lists (upd_cur f s) = lists s"
  "run_queue_bitmap (upd_cur f s) = run_queue_bitmap s"
  "wait_queues (upd_cur f s) = wait_queues s"
  "timers (upd_cur f s) = timers s"
  "timer_queue (upd_cur f s) = timer_queue s"
  "ticks (upd_cur f s) = ticks s"
  "mutexes (upd_cur f s) = mutexes s"
  "events (upd_cur f s) = events s"
  by (simp_all add: upd_cur_def)

lemma sched_okD:
  assumes "sched_ok s"
  shows "state (cur s) = THREAD_RUNNING" "magic (cur s) = THREAD_MAGIC" "queue_node (cur s) = None"
    "blocking_wait_queue (cur s) = None" "saved_critical_section_count (cur s) > 0"
    "0 \<le> priority (cur s)" "priority (cur s) < int NUM_PRIORITIES" "queues_ok s" "kq_ok s" "bitmap_ok s"
proof -
  show r: "state (cur s) = THREAD_RUNNING" and q: "queues_ok s"
    using assms by (simp_all add: sched_ok_def)
  then show "magic (cur s) = THREAD_MAGIC" "saved_critical_section_count (cur s) > 0"
    "0 \<le> priority (cur s)" "priority (cur s) < int NUM_PRIORITIES"
    "queue_node (cur s) = None" "blocking_wait_queue (cur s) = None"
    using queues_ok_thread [OF q, of "current_thread s"]
    by (auto simp: thread_ok_def live_ok_def expected_node_def)
  show "kq_ok s" "bitmap_ok s" using q by (simp_all add: queues_ok_def)
qed

lemma sched_ok_enter [simp]: "sched_ok s \<Longrightarrow> sched_ok (enter_critical_section s)"
  and sched_ok_exit [simp]: "sched_ok s \<Longrightarrow> sched_ok (exit_critical_section s)"
  and sched_ok_upd_stats [simp]: "sched_ok s \<Longrightarrow> sched_ok (upd_stats f s)"
  by (simp_all add: sched_ok_cong [of s])

text \<open>The state in which thread_yield and thread_preempt call thread_resched.\<close>

definition requeued :: "bool \<Rightarrow> (thread \<Rightarrow> int) \<Rightarrow> kstate \<Rightarrow> kstate" where
  "requeued h k s = run_insert h (current_thread s)
     (upd_cur (\<lambda>x. x\<lparr>state := THREAD_READY, remaining_quantum := k x\<rparr>) s)"

lemma requeued_ready:
  "sched_ok s \<Longrightarrow> ready_unqueued ((cur s)\<lparr>state := THREAD_READY, remaining_quantum := n\<rparr>)"
  using sched_okD by (simp add: ready_unqueued_def live_ok_def)

lemma thread_yield_eq:
  assumes "sched_ok s" and "critical_section_count s \<ge> 0"
  shows "thread_yield s = Some (switch_to (push_frame After_resched (requeued False (\<lambda>_. 0)
    (upd_stats (\<lambda>x. x\<lparr>yields := yields x + 1\<rparr>) (enter_critical_section s)))))"
proof -
  let ?e = "upd_stats (\<lambda>x. x\<lparr>yields := yields x + 1\<rparr>) (enter_critical_section s)"
  let ?u = "upd_cur (\<lambda>x. x\<lparr>state := THREAD_READY, remaining_quantum := 0\<rparr>) ?e"
  have "switch_ok (requeued False (\<lambda>_. 0) ?e)"
    unfolding requeued_def using assms by (intro switch_ok_requeue) simp_all
  then have r: "thread_resched (push_frame After_resched (requeued False (\<lambda>_. 0) ?e)) =
    Some (switch_to (push_frame After_resched (requeued False (\<lambda>_. 0) ?e)))"
    by (intro thread_resched_eq) simp
  have "insert_in_run_queue_tail (current_thread ?e) ?u = Some (requeued False (\<lambda>_. 0) ?e)"
    unfolding requeued_def using assms requeued_ready by (intro insert_in_run_queue_ready) simp_all
  then show ?thesis
    using r sched_okD(1,2) [OF assms(1)] unfolding thread_yield_def Let_def by (simp add: Let_def)
qed

lemma thread_preempt_eq:
  assumes "sched_ok s" and "critical_section_count s \<ge> 0"
  obtains f where "thread_preempt s = Some (switch_to (push_frame After_resched
    (requeued (remaining_quantum (cur s) > 0) remaining_quantum (upd_stats f (enter_critical_section s)))))"
proof -
  let ?h = "remaining_quantum (cur s) > 0"
  define f where "f = (if Some (current_thread s) \<noteq> idle_thread s
    then \<lambda>x. x\<lparr>preempts := preempts x + 1\<rparr> else (\<lambda>x. x :: thread_stats))"
  let ?e = "upd_stats f (enter_critical_section s)"
  let ?u = "upd_cur (\<lambda>x. x\<lparr>state := THREAD_READY\<rparr>) ?e"
  have e: "(if Some (current_thread s) \<noteq> idle_thread s
      then upd_stats (\<lambda>x. x\<lparr>preempts := preempts x + 1\<rparr>) (enter_critical_section s)
      else enter_critical_section s) = ?e"
    by (simp add: f_def upd_stats_def)
  have k: "(\<lambda>x :: thread. x\<lparr>state := THREAD_READY\<rparr>) =
    (\<lambda>x. x\<lparr>state := THREAD_READY, remaining_quantum := remaining_quantum x\<rparr>)" by (rule ext) simp
  have "switch_ok (requeued ?h remaining_quantum ?e)"
    unfolding requeued_def using assms by (intro switch_ok_requeue) simp_all
  then have r: "thread_resched (push_frame After_resched (requeued ?h remaining_quantum ?e)) =
    Some (switch_to (push_frame After_resched (requeued ?h remaining_quantum ?e)))"
    by (intro thread_resched_eq) simp
  have rd: "ready_unqueued (thr ?u (current_thread s))"
    using requeued_ready [OF assms(1), of "remaining_quantum (cur s)"] by simp
  have "(if ?h then insert_in_run_queue_head (current_thread s) ?u
      else insert_in_run_queue_tail (current_thread s) ?u) = Some (requeued ?h remaining_quantum ?e)"
    unfolding requeued_def k [symmetric] using insert_in_run_queue_ready [OF rd] assms(2) by simp
  then have "thread_preempt s = Some (switch_to (push_frame After_resched
      (requeued ?h remaining_quantum ?e)))"
    using r sched_okD(1,2) [OF assms(1)] unfolding thread_preempt_def
    by (simp add: Let_def e [simplified] split del: if_split cong: if_cong)
  then show ?thesis by (rule that)
qed

lemma switch_ok_requeued:
  "sched_ok s \<Longrightarrow> critical_section_count s > 0 \<Longrightarrow> switch_ok (push_frames fs (requeued h k s))"
  by (simp add: requeued_def switch_ok_requeue)

lemma requeued_queues:
  "lists (requeued h k s) = (lists s)(RunQ (nat (priority (cur s))) :=
    (if h then current_thread s # lists s (RunQ (nat (priority (cur s))))
     else lists s (RunQ (nat (priority (cur s)))) @ [current_thread s]))"
  by (simp add: requeued_def)

text \<open>The next thread when no run queue above \<open>p\<close> holds a thread.\<close>

lemma next_queue_top:
  assumes "bitmap_ok s" and "p < 32" and "lists s (RunQ p) \<noteq> []"
    and "\<forall>q. p < q \<and> q < 32 \<longrightarrow> lists s (RunQ q) = []"
  shows "next_queue s = p"
  using next_queue_highest [OF assms(1-3)] assms(4) le_neq_implies_less by blast

lemma requeued_next:
  assumes "sched_ok s" and "critical_section_count s > 0" and "p = nat (priority (cur s))"
    and "\<forall>q. p < q \<and> q < 32 \<longrightarrow> lists s (RunQ q) = []"
  shows "next_queue (requeued h k s) = p"
    and "next_thread (requeued h k s) =
      (if h then current_thread s else hd (lists s (RunQ p) @ [current_thread s]))"
proof -
  have sw: "switch_ok (requeued h k s)"
    unfolding requeued_def using assms(1,2) by (rule switch_ok_requeue)
  have p: "p < 32" using sched_okD(6,7) [OF assms(1)] assms(3) by (auto simp: NUM_PRIORITIES_def)
  note L = requeued_queues [of h k s, folded assms(3)]
  show nq: "next_queue (requeued h k s) = p"
    using sw p assms(4) by (intro next_queue_top) (auto simp: switch_ok_def queues_ok_def L)
  show "next_thread (requeued h k s) =
      (if h then current_thread s else hd (lists s (RunQ p) @ [current_thread s]))"
    by (simp add: next_thread_def nq L)
qed

lemma take_next_lists:
  assumes "queues_ok s" and "p < 32" and "lists s (RunQ p) \<noteq> []"
  shows "lists s (RunQ (next_queue s)) = next_thread s # lists (take_next s) (RunQ (next_queue s))"
  using next_queue_highest(2) [OF _ assms(2,3)] assms(1) by (simp add: queues_ok_def next_thread_def)

lemma thread_sleep_ok:
  assumes "sched_ok s" and "critical_section_count s \<ge> 0" and "timers_ok s"
    and "SleepTimer (current_thread s) \<notin> set (timer_queue s)" and "current_thread s \<noteq> bootstrap_thread"
  obtains s1 s' where "timer_set_oneshot (SleepTimer (current_thread s)) delay Thread_sleep_handler
      (current_thread s) (enter_critical_section (timer_initialize (SleepTimer (current_thread s)) s)) = Some s1"
    and "thread_sleep delay s = Some s'" "sched_ok s'" "critical_section_count s' > 0" "timers_ok s'"
    and "switched (push_frame After_resched (upd_cur (\<lambda>x. x\<lparr>state := THREAD_SLEEPING\<rparr>) s1)) s'"
proof -
  let ?c = "current_thread s" and ?tm = "SleepTimer (current_thread s)"
  let ?i = "enter_critical_section (timer_initialize ?tm s)"
  have i: "timers_ok ?i" "?tm \<notin> set (timer_queue ?i)" "tm_magic (timers ?i ?tm) = TIMER_MAGIC"
    using timers_ok_initialize [OF assms(3,4)] timers_ok_cong [of ?i "timer_initialize ?tm s"] assms(4)
    by (simp_all add: timer_initialize_def)
  obtain s1 where s1: "timer_set_oneshot ?tm delay Thread_sleep_handler ?c ?i = Some s1" "timers_ok s1"
    using timer_set_ok [OF i] by (metis timer_set_oneshot_def)
  have c1: "sched_ok s1" "current_thread s1 = ?c" "critical_section_count s1 > 0"
  proof -
    have "sched_ok ?i" using assms(1) by (simp add: sched_ok_cong [of s] timer_initialize_def)
    moreover have "thr s1 = thr ?i \<and> lists s1 = lists ?i \<and> run_queue_bitmap s1 = run_queue_bitmap ?i \<and>
      wait_queues s1 = wait_queues ?i \<and> current_thread s1 = current_thread ?i \<and>
      critical_section_count s1 = critical_section_count ?i"
      using s1(1) i by (auto simp: timer_set_oneshot_def timer_set_def insert_timer_in_queue_def Let_def)
    ultimately show "sched_ok s1" "current_thread s1 = ?c" "critical_section_count s1 > 0"
      using assms(2) by (auto simp: timer_initialize_def intro: sched_ok_cong [of ?i])
  qed
  let ?z = "push_frame After_resched (upd_cur (\<lambda>x. x\<lparr>state := THREAD_SLEEPING\<rparr>) s1)"
  have "switch_ok ?z" using c1 assms(5) by (intro ok_push_frames switch_ok_stop) simp_all
  then obtain s' where s': "thread_resched ?z = Some s'" "sched_ok s'" "switched ?z s'"
    "critical_section_count s' > 0" by (rule thread_resched_ok)
  have "timers_ok s'"
    using s1(2) s'(3) timers_ok_cong [of s' s1] by (simp add: switched_def same_objects_def)
  moreover have "thread_sleep delay s = Some s'"
    using s'(1) s1(1) sched_okD(1,2) [OF assms(1)] by (simp add: thread_sleep_def Let_def timer_initialize_def)
  ultimately show ?thesis using that s1(1) s' by blast
qed

lemma thread_resume_ok:
  assumes "sched_ok s" and "critical_section_count s \<ge> 0"
    and "ready_unqueued ((thr s t)\<lparr>state := THREAD_READY\<rparr>)"
    and "state (thr s t) \<notin> {THREAD_READY, THREAD_RUNNING, THREAD_DEATH}"
  obtains s' where "thread_resume t s = Some s'" "sched_ok s'" "critical_section_count s' > 0"
    "switched (push_frame After_resched (requeued False (\<lambda>_. 0) (upd_stats (\<lambda>x. x\<lparr>yields := yields x + 1\<rparr>)
       (enter_critical_section (push_frame After_yield_in_resume (run_insert True t
         (upd_thr t (\<lambda>x. x\<lparr>state := THREAD_READY\<rparr>) (enter_critical_section s)))))))) s'"
proof -
  have ne: "t \<noteq> current_thread s" using assms(1,4) sched_okD(1) by auto
  let ?u = "upd_thr t (\<lambda>x. x\<lparr>state := THREAD_READY\<rparr>) (enter_critical_section s)"
  have q: "queue_node (thr s t) = None" and m: "magic (thr s t) = THREAD_MAGIC"
    using assms(3) by (simp_all add: ready_unqueued_def live_ok_def)
  have i: "insert_in_run_queue_head t ?u = Some (run_insert True t ?u)"
    using assms(2,3) by (intro insert_in_run_queue_ready) simp_all
  have ok: "sched_ok (push_frame After_yield_in_resume (run_insert True t ?u))"
    using assms(1,3) ne q by (intro ok_push_frames sched_ok_make_ready) simp_all
  let ?y = "upd_stats (\<lambda>x. x\<lparr>yields := yields x + 1\<rparr>)
    (enter_critical_section (push_frame After_yield_in_resume (run_insert True t ?u)))"
  let ?z = "push_frame After_resched (requeued False (\<lambda>_. 0) ?y)"
  have "thread_resume t s = Some (switch_to ?z)"
    using thread_yield_eq [OF ok] assms(2,4) m i by (simp add: thread_resume_def Let_def)
  moreover have "switch_ok ?z" using ok assms(2) by (intro switch_ok_requeued) simp_all
  ultimately show ?thesis using that switch_to_ok [of ?z] by blast
qed

lemma thread_init_early_ok: "sched_ok (thread_init_early zero_kstate)"
  by (simp add: thread_init_early_def zero_kstate_def Let_def init_thread_struct_def sched_ok_def
      queues_ok_def kq_ok_def bitmap_ok_def counts_ok_def thread_ok_def live_ok_def expected_node_def zero_thread_def
      bootstrap_thread_def priority_defs upd_thr_def split: qhead.splits)

definition created_thread :: "bool \<Rightarrow> string \<Rightarrow> nat \<Rightarrow> nat \<Rightarrow> int \<Rightarrow> nat \<Rightarrow> thread" where
  "created_thread stk nm ent a prio ssize = (if stk
     then zero_thread\<lparr>magic := THREAD_MAGIC, name := take 31 nm, entry := ent, arg := a,
       priority := prio, saved_critical_section_count := 1, state := THREAD_SUSPENDED,
       blocking_wait_queue := None, wait_queue_block_ret := NO_ERROR,
       stack_size := ssize, frames := [Initial_thread_func]\<rparr>
     else zero_thread)"

lemma thread_create_thr:
  "thr (snd (thread_create (Some t) stk nm ent a prio ssize s)) =
     (thr s)(t := created_thread stk nm ent a prio ssize)"
  by (cases stk) (simp_all add: thread_create_def Let_def init_thread_struct_def created_thread_def)

lemma thread_create_rest:
  "lists (snd (thread_create (Some t) stk nm ent a prio ssize s)) = lists s"
  "run_queue_bitmap (snd (thread_create (Some t) stk nm ent a prio ssize s)) = run_queue_bitmap s"
  "wait_queues (snd (thread_create (Some t) stk nm ent a prio ssize s)) = wait_queues s"
  "current_thread (snd (thread_create (Some t) stk nm ent a prio ssize s)) = current_thread s"
  by (cases stk; simp add: thread_create_def Let_def init_thread_struct_def)+

lemma thread_create_ok:
  assumes "sched_ok s" and "t \<noteq> current_thread s" and "t \<noteq> bootstrap_thread"
    and "queue_node (thr s t) = None"
  shows "sched_ok (snd (thread_create (Some t) stk nm ent a prio ssize s))"
proof -
  let ?x = "created_thread stk nm ent a prio ssize"
  have ok: "thread_ok ?x" "queue_node ?x = None" "state ?x \<noteq> THREAD_RUNNING"
    by (simp_all add: created_thread_def thread_ok_def expected_node_def zero_thread_def)
  have "queues_ok_but t (upd_thr t (\<lambda>_. ?x) s)"
    using assms(1,4) ok queues_ok_but_iff [of s t] by (intro queues_ok_ex_upd) (simp_all add: sched_ok_def)
  then have "queues_ok (upd_thr t (\<lambda>_. ?x) s)"
    using queues_ok_but_iff [of "upd_thr t (\<lambda>_. ?x) s" t] ok by simp
  then have "sched_ok (upd_thr t (\<lambda>_. ?x) s)"
    using assms(1-3) ok(3) by (simp add: sched_ok_def)
  then show ?thesis
    by (rule sched_ok_cong) (simp_all add: thread_create_thr thread_create_rest)
qed

lemma thread_set_priority_ok: "sched_ok s \<Longrightarrow> sched_ok (thread_set_priority p s)"
proof -
  assume ok: "sched_ok s"
  define f :: "thread \<Rightarrow> thread" where "f = (\<lambda>x. x\<lparr>priority := max LOWEST_PRIORITY (min p HIGHEST_PRIORITY)\<rparr>)"
  let ?c = "current_thread s"
  have eq: "thread_set_priority p s = upd_thr ?c f s"
    by (simp add: thread_set_priority_def f_def Let_def upd_cur_def priority_defs max_def min_def)
  have "queues_ok_but ?c (upd_thr ?c f s)"
    using ok queues_ok_but_iff [of s ?c] by (intro queues_ok_ex_upd) (auto simp: sched_ok_def f_def)
  moreover have "thread_ok (f (cur s))"
    using queues_ok_thread [of s ?c] sched_okD [OF ok]
    by (simp add: f_def thread_ok_def live_ok_def expected_node_def priority_defs)
  ultimately have "queues_ok (upd_thr ?c f s)" using queues_ok_but_iff [of _ ?c] by simp
  then show "sched_ok (thread_set_priority p s)"
    using ok by (auto simp: eq sched_ok_def f_def priority_defs)
qed

lemma thread_set_name_ok: "sched_ok s \<Longrightarrow> sched_ok (thread_set_name nm s)"
  by (simp add: thread_set_name_def upd_cur_def sched_ok_keep)

lemma thread_become_idle_ok: "sched_ok s \<Longrightarrow> sched_ok (thread_become_idle s)"
  unfolding thread_become_idle_def Let_def
  by (rule sched_ok_cong [OF thread_set_priority_ok [OF thread_set_name_ok]]) simp_all

lemma thread_timer_tick_ok: "sched_ok s \<Longrightarrow> sched_ok (snd (thread_timer_tick s))"
  by (simp add: thread_timer_tick_def Let_def upd_cur_def sched_ok_keep)

lemma thread_sleep_handler_ok:
  assumes "sched_ok s" and "critical_section_count s > 0" and "state (thr s t) = THREAD_SLEEPING"
  shows "thread_sleep_handler t s =
      Some (INT_RESCHEDULE, run_insert True t (upd_thr t (\<lambda>x. x\<lparr>state := THREAD_READY\<rparr>) s))"
    and "sched_ok (run_insert True t (upd_thr t (\<lambda>x. x\<lparr>state := THREAD_READY\<rparr>) s))"
proof -
  have "thread_ok (thr s t)" using assms(1) by (simp add: sched_ok_def queues_ok_def)
  then have q: "queue_node (thr s t) = None" and r: "ready_unqueued ((thr s t)\<lparr>state := THREAD_READY\<rparr>)"
    and m: "magic (thr s t) = THREAD_MAGIC"
    using assms by (simp_all add: thread_ok_def live_ok_def expected_node_def ready_unqueued_def)
  show "thread_sleep_handler t s =
      Some (INT_RESCHEDULE, run_insert True t (upd_thr t (\<lambda>x. x\<lparr>state := THREAD_READY\<rparr>) s))"
    using insert_in_run_queue_ready(1) [of "upd_thr t (\<lambda>x. x\<lparr>state := THREAD_READY\<rparr>) s" t] r m assms
    by (simp add: thread_sleep_handler_def Let_def)
  have "t \<noteq> current_thread s" using sched_okD(1) [OF assms(1)] assms(3) by auto
  then show "sched_ok (run_insert True t (upd_thr t (\<lambda>x. x\<lparr>state := THREAD_READY\<rparr>) s))"
    using assms(1) q r by (intro sched_ok_make_ready)
qed

subsection \<open>Properties\<close>

text \<open>
  C19: thread_resched is strictly priority-driven and FIFO within a priority. Called with
  the queues in order, in a critical section and with no thread marked RUNNING, it fails
  no assertion, takes the head of the highest non-empty run queue, leaves every other
  queue alone, makes that thread the only RUNNING one with a positive quantum unless it
  was already the current thread, and restores the critical-section depth at which that
  thread was switched out.
\<close>

theorem thread_resched_highest_priority:
  assumes "switch_ok s"
  shows "\<exists>s' p. thread_resched s = Some s' \<and> sched_ok s' \<and> p < NUM_PRIORITIES \<and>
     lists s (RunQ p) = current_thread s' # lists s' (RunQ p) \<and>
     (\<forall>q. p < q \<and> q < NUM_PRIORITIES \<longrightarrow> lists s (RunQ q) = []) \<and>
     (\<forall>h. h \<noteq> RunQ p \<longrightarrow> lists s' h = lists s h) \<and>
     (current_thread s' \<noteq> current_thread s \<longrightarrow> remaining_quantum (cur s') > 0 \<and>
        critical_section_count s' = saved_critical_section_count (cur s'))"
proof -
  obtain p where p: "p < 32" "lists s (RunQ p) \<noteq> []" using switch_ok_run_queue [OF assms] .
  have q: "queues_ok s" and b: "bitmap_ok s" using assms by (simp_all add: switch_ok_def queues_ok_def)
  note H = next_queue_highest [OF b p]
  have top: "lists s (RunQ r) = []" if "next_queue s < r" "r < 32" for r
    using next_queue_highest(3) [OF b that(2)] that(1) by force
  have quantum: "remaining_quantum (cur (switch_to s)) > 0 \<and>
      critical_section_count (switch_to s) = saved_critical_section_count (cur (switch_to s))"
    if "next_thread s \<noteq> current_thread s"
    using that by (simp add: switch_to_fields(1)) (simp add: switch_to_def Let_def)
  show ?thesis
    using thread_resched_eq [OF assms] switch_to_ok(1) [OF assms] H(1) top quantum
      take_next_lists [OF q p] switch_to_fields(1,3) [of s]
    by (intro exI [of _ "switch_to s"] exI [of _ "next_queue s"]) (simp add: NUM_PRIORITIES_def)
qed

text \<open>
  Two threads of DEFAULT_PRIORITY above the bootstrap thread, which is READY at
  IDLE_PRIORITY: thread 1 is running, thread 2 is READY.
\<close>

definition live_thread :: "int \<Rightarrow> thread_state \<Rightarrow> qhead option \<Rightarrow> thread" where
  "live_thread p st q = zero_thread\<lparr>magic := THREAD_MAGIC, priority := p, state := st,
     saved_critical_section_count := 1, queue_node := q\<rparr>"

definition two_threads :: kstate where
  "two_threads = zero_kstate\<lparr>
     thr := (\<lambda>_. zero_thread)
       (0 := live_thread 0 THREAD_READY (Some (RunQ 0)),
        1 := live_thread 16 THREAD_RUNNING None,
        2 := live_thread 16 THREAD_READY (Some (RunQ 16))),
     thread_list := [2, 1, 0], current_thread := 1, idle_thread := Some 0,
     critical_section_count := 0, ints_enabled := True,
     lists := (\<lambda>_. [])(RunQ 0 := [0], RunQ 16 := [2]), run_queue_bitmap := set_bit32 16 (set_bit32 0 0)\<rparr>"

lemma two_threads_ok: "sched_ok two_threads"
proof -
  have "kq_ok two_threads"
    by (auto simp: kq_ok_def two_threads_def live_thread_def zero_thread_def split: if_splits)
  moreover have "bitmap_ok two_threads"
    by (auto simp: bitmap_ok_def two_threads_def)
  moreover have "counts_ok two_threads"
    by (simp add: counts_ok_def two_threads_def zero_kstate_def)
  moreover have "thread_ok (thr two_threads u)" for u
    by (simp add: thread_ok_def live_ok_def two_threads_def live_thread_def zero_thread_def expected_node_def priority_defs)
  ultimately show ?thesis
    by (simp add: sched_ok_def queues_ok_def)
      (auto simp: two_threads_def live_thread_def zero_thread_def bootstrap_thread_def priority_defs)
qed

theorem thread_resched_highest_priority_witness:
  "\<exists>s'. thread_resched (requeued False (\<lambda>_. 0) (enter_critical_section two_threads)) = Some s' \<and>
     sched_ok s' \<and> current_thread s' \<noteq> 1"
proof -
  let ?e = "enter_critical_section two_threads" and ?s = "requeued False (\<lambda>_. 0) (enter_critical_section two_threads)"
  have e: "sched_ok ?e" "critical_section_count ?e > 0"
    using two_threads_ok by (simp_all add: two_threads_def)
  then have sw: "switch_ok ?s" unfolding requeued_def by (rule switch_ok_requeue)
  obtain s' p where s': "thread_resched ?s = Some s'" "sched_ok s'" "p < NUM_PRIORITIES"
      "lists ?s (RunQ p) = current_thread s' # lists s' (RunQ p)"
    using thread_resched_highest_priority [OF sw] by blast
  moreover have "hd (lists ?s (RunQ p)) \<noteq> 1" if "lists ?s (RunQ p) \<noteq> []"
    using that unfolding requeued_queues by (auto simp: two_threads_def live_thread_def split: if_splits)
  ultimately have "current_thread s' \<noteq> 1" by simp
  with s'(1,2) show ?thesis by blast
qed

text \<open>
  C20: yielding is round-robin. A thread that yields while no thread of a higher priority
  is READY goes to the tail of its run queue and the head of that queue runs next, so the
  queue rotates by one; no assertion fails and the invariant is kept.
\<close>

theorem thread_yield_round_robin:
  assumes ok: "sched_ok s" and cs: "critical_section_count s \<ge> 0" and p: "p = nat (priority (cur s))"
    and top: "\<forall>q. p < q \<and> q < 32 \<longrightarrow> lists s (RunQ q) = []"
  shows "\<exists>s'. thread_yield s = Some s' \<and> sched_ok s' \<and>
     current_thread s' # lists s' (RunQ p) = lists s (RunQ p) @ [current_thread s] \<and>
     (\<forall>q. q \<noteq> RunQ p \<longrightarrow> lists s' q = lists s q)"
proof -
  let ?e = "upd_stats (\<lambda>x. x\<lparr>yields := yields x + 1\<rparr>) (enter_critical_section s)"
  let ?z = "push_frame After_resched (requeued False (\<lambda>_. 0) ?e)"
  have e: "sched_ok ?e" "critical_section_count ?e > 0" "p = nat (priority (cur ?e))"
    "\<forall>q. p < q \<and> q < 32 \<longrightarrow> lists ?e (RunQ q) = []" using ok cs p top by simp_all
  have sw: "switch_ok ?z" using e(1,2) by (rule switch_ok_requeued)
  note N = requeued_next [OF e, of False "\<lambda>_. 0"]
  have L: "lists ?z = (lists s)(RunQ p := lists s (RunQ p) @ [current_thread s])"
    using requeued_queues [of False "\<lambda>_. 0" ?e] p by simp
  show ?thesis
    using thread_yield_eq [OF ok cs] switch_to_ok(1) [OF sw] switch_to_fields(1,3) [of ?z] N L
    by (intro exI [of _ "switch_to ?z"]) simp
qed

theorem thread_yield_round_robin_witness:
  "\<exists>s'. thread_yield two_threads = Some s' \<and> current_thread s' = 2 \<and> lists s' (RunQ 16) = [1]"
proof -
  have cs: "critical_section_count two_threads \<ge> 0" and p: "16 = nat (priority (cur two_threads))"
    and top: "\<forall>q. 16 < q \<and> q < 32 \<longrightarrow> lists two_threads (RunQ q) = []"
    by (simp_all add: two_threads_def live_thread_def)
  obtain s' where s': "thread_yield two_threads = Some s'"
    "current_thread s' # lists s' (RunQ 16) = lists two_threads (RunQ 16) @ [current_thread two_threads]"
    using thread_yield_round_robin [OF two_threads_ok cs p top] by blast
  moreover have "lists two_threads (RunQ 16) @ [current_thread two_threads] = [2, 1]"
    by (simp add: two_threads_def)
  ultimately show ?thesis by (intro exI [of _ s']) simp
qed



end
