(* ===== verification/Kernel_Wait.thy ===== *)
theory Kernel_Wait
  imports Kernel_Thread
begin

text \<open>
  Wait queues, the second half of \<^verbatim>\<open>bootable/lk/kernel/thread.c\<close>: blocking with an
  optional timeout, waking one or all waiters, destroying a queue and pulling one thread
  out of the queue it is blocked on.

  The waking operations may call thread_resched. They take the caller's return addresses
  \<open>ks\<close> and return, besides the state, \<^term>\<open>Some r\<close> when they returned \<open>r\<close> to the
  caller, or \<^term>\<open>None\<close> when they switched, in which case the caller goes on from its
  frames \<open>ks\<close> once it runs again. wait_queue_block always returns through the frames.
\<close>

definition upd_wq :: "wq_addr \<Rightarrow> (wait_queue \<Rightarrow> wait_queue) \<Rightarrow> kstate \<Rightarrow> kstate" where
  "upd_wq w f s = s\<lparr>wait_queues := (wait_queues s)(w := f (wait_queues s w))\<rparr>"

lemma upd_wq_simps [simp]:
  "wait_queues (upd_wq w f s) = (wait_queues s)(w := f (wait_queues s w))"
  "thr (upd_wq w f s) = thr s"
  "thread_list (upd_wq w f s) = thread_list s"
  "current_thread (upd_wq w f s) = current_thread s"
  "idle_thread (upd_wq w f s) = idle_thread s"
  "critical_section_count (upd_wq w f s) = critical_section_count s"
  "ints_enabled (upd_wq w f s) = ints_enabled s"
  "lists (upd_wq w f s) = lists s"
  "run_queue_bitmap (upd_wq w f s) = run_queue_bitmap s"
  "timers (upd_wq w f s) = timers s"
  "timer_queue (upd_wq w f s) = timer_queue s"
  "ticks (upd_wq w f s) = ticks s"
  "mutexes (upd_wq w f s) = mutexes s"
  "events (upd_wq w f s) = events s"
  "dpc_list (upd_wq w f s) = dpc_list s"
  "stats (upd_wq w f s) = stats s"
  by (simp_all add: upd_wq_def)

subsection \<open>The operations\<close>

definition wait_queue_init :: "wq_addr \<Rightarrow> kstate \<Rightarrow> kstate" where
  "wait_queue_init w s = (upd_wq w (\<lambda>_. \<lparr>wq_magic = WAIT_QUEUE_MAGIC, wq_count = 0\<rparr>) s)
     \<lparr>lists := (lists s)(WaitQ w := [])\<rparr>"

definition wait_queue_block :: "wq_addr \<Rightarrow> time \<Rightarrow> kstate \<Rightarrow> kstate option" where
  "wait_queue_block w timeout s = do {
     assert_opt (wq_magic (wait_queues s w) = WAIT_QUEUE_MAGIC);
     assert_opt (state (cur s) = THREAD_RUNNING);
     assert_opt (in_critical_section s);
     if timeout = 0 then Some (set_ret ERR_TIMED_OUT s)
     else do {
       let s = kq_add_tail (WaitQ w) (current_thread s) s;
       let s = upd_wq w (\<lambda>q. q\<lparr>wq_count := wq_count q + 1\<rparr>) s;
       let s = upd_cur (\<lambda>x. x\<lparr>state := THREAD_BLOCKED, blocking_wait_queue := Some w,
                 wait_queue_block_ret := NO_ERROR\<rparr>) s;
       s \<leftarrow> (if timeout \<noteq> INFINITE_TIME
            then timer_set_oneshot (WaitTimer (current_thread s)) timeout Wait_queue_timeout_handler
                   (current_thread s) (timer_initialize (WaitTimer (current_thread s)) s)
            else Some s);
       thread_block (push_frame (After_block_in_wait timeout) s) } }"

text \<open>The rest of wait_queue_block, once the thread runs again.\<close>

definition wait_queue_block_end :: "time \<Rightarrow> kstate \<Rightarrow> kstate option" where
  "wait_queue_block_end timeout s = do {
     s \<leftarrow> (if timeout \<noteq> INFINITE_TIME then timer_cancel (WaitTimer (current_thread s)) s else Some s);
     Some (set_ret (wait_queue_block_ret (cur s)) s) }"

text \<open>A thread popped off a wait queue is READY again and gets its return value.\<close>

definition pop_waiter :: "wq_addr \<Rightarrow> tid \<Rightarrow> int \<Rightarrow> kstate \<Rightarrow> kstate option" where
  "pop_waiter w t err s = do {
     let s = upd_wq w (\<lambda>q. q\<lparr>wq_count := wq_count q - 1\<rparr>) s;
     assert_opt (state (thr s t) = THREAD_BLOCKED);
     Some (upd_thr t (\<lambda>x. x\<lparr>state := THREAD_READY, wait_queue_block_ret := err,
             blocking_wait_queue := None\<rparr>) s) }"

definition wait_queue_wake_one ::
  "wq_addr \<Rightarrow> bool \<Rightarrow> int \<Rightarrow> frame list \<Rightarrow> kstate \<Rightarrow> (int option \<times> kstate) option" where
  "wait_queue_wake_one w reschedule err ks s = do {
     assert_opt (wq_magic (wait_queues s w) = WAIT_QUEUE_MAGIC);
     assert_opt (in_critical_section s);
     (case kq_remove_head (WaitQ w) s of
        (None, s) \<Rightarrow> Some (Some 0, s)
      | (Some t, s) \<Rightarrow> do {
          s \<leftarrow> pop_waiter w t err s;
          s \<leftarrow> (if reschedule
               then insert_in_run_queue_head (current_thread s)
                      (upd_cur (\<lambda>x. x\<lparr>state := THREAD_READY\<rparr>) s)
               else Some s);
          s \<leftarrow> insert_in_run_queue_head t s;
          if reschedule then do { s \<leftarrow> thread_resched (push_frames ks s); Some (None, s) }
          else Some (Some 1, s) }) }"

text \<open>The loop of wait_queue_wake_all; the fuel bounds the number of iterations.\<close>

fun wake_all_loop :: "nat \<Rightarrow> wq_addr \<Rightarrow> int \<Rightarrow> int \<Rightarrow> kstate \<Rightarrow> (int \<times> kstate) option" where
  "wake_all_loop 0 w err n s = None"
| "wake_all_loop (Suc fuel) w err n s =
     (case kq_remove_head (WaitQ w) s of
        (None, s) \<Rightarrow> Some (n, s)
      | (Some t, s) \<Rightarrow> do {
          s \<leftarrow> pop_waiter w t err s;
          s \<leftarrow> insert_in_run_queue_head t s;
          wake_all_loop fuel w err (n + 1) s })"

definition wait_queue_wake_all ::
  "wq_addr \<Rightarrow> bool \<Rightarrow> int \<Rightarrow> frame list \<Rightarrow> kstate \<Rightarrow> (int option \<times> kstate) option" where
  "wait_queue_wake_all w reschedule err ks s = do {
     assert_opt (wq_magic (wait_queues s w) = WAIT_QUEUE_MAGIC);
     assert_opt (in_critical_section s);
     s \<leftarrow> (if reschedule \<and> wq_count (wait_queues s w) > 0
          then insert_in_run_queue_head (current_thread s)
                 (upd_cur (\<lambda>x. x\<lparr>state := THREAD_READY\<rparr>) s)
          else Some s);
     (n, s) \<leftarrow> wake_all_loop (Suc (length (lists s (WaitQ w)))) w err 0 s;
     assert_opt (wq_count (wait_queues s w) = 0);
     if reschedule \<and> n > 0 then do { s \<leftarrow> thread_resched (push_frames ks s); Some (None, s) }
     else Some (Some n, s) }"

definition wait_queue_destroy_end :: "wq_addr \<Rightarrow> kstate \<Rightarrow> kstate" where
  "wait_queue_destroy_end w = upd_wq w (\<lambda>q. q\<lparr>wq_magic := 0\<rparr>)"

text \<open>Returns whether it switched; the caller's frame is \<open>k\<close>.\<close>

definition wait_queue_destroy :: "wq_addr \<Rightarrow> bool \<Rightarrow> frame \<Rightarrow> kstate \<Rightarrow> (bool \<times> kstate) option" where
  "wait_queue_destroy w reschedule k s = do {
     assert_opt (wq_magic (wait_queues s w) = WAIT_QUEUE_MAGIC);
     assert_opt (in_critical_section s);
     (r, s') \<leftarrow> wait_queue_wake_all w reschedule ERR_OBJECT_DESTROYED
                [After_wake_in_wq_destroy w, k] s;
     (case r of None \<Rightarrow> Some (True, s') | Some _ \<Rightarrow> Some (False, wait_queue_destroy_end w s')) }"

definition thread_unblock_from_wait_queue ::
  "tid \<Rightarrow> bool \<Rightarrow> int \<Rightarrow> kstate \<Rightarrow> (int option \<times> kstate) option" where
  "thread_unblock_from_wait_queue t reschedule err s = do {
     let s = enter_critical_section s;
     assert_opt (magic (thr s t) = THREAD_MAGIC);
     if state (thr s t) \<noteq> THREAD_BLOCKED then Some (Some ERR_NOT_BLOCKED, s)
     else (case blocking_wait_queue (thr s t) of
         None \<Rightarrow> None
       | Some w \<Rightarrow> do {
           assert_opt (wq_magic (wait_queues s w) = WAIT_QUEUE_MAGIC);
           assert_opt (kq_in_list t s);
           let s = kq_delete t s;
           let s = upd_wq w (\<lambda>q. q\<lparr>wq_count := wq_count q - 1\<rparr>) s;
           let s = upd_thr t (\<lambda>x. x\<lparr>blocking_wait_queue := None, state := THREAD_READY,
                     wait_queue_block_ret := err\<rparr>) s;
           s \<leftarrow> insert_in_run_queue_head t s;
           if reschedule
           then do { s \<leftarrow> thread_resched (push_frame After_resched_in_unblock s); Some (None, s) }
           else Some (Some NO_ERROR, exit_critical_section s) }) }"

definition wait_queue_timeout_handler :: "tid \<Rightarrow> kstate \<Rightarrow> (handler_return \<times> kstate) option" where
  "wait_queue_timeout_handler t s = do {
     assert_opt (magic (thr s t) = THREAD_MAGIC);
     (r, s) \<leftarrow> thread_unblock_from_wait_queue t False ERR_TIMED_OUT s;
     (case r of
        None \<Rightarrow> None
      | Some r \<Rightarrow> Some (if r \<ge> NO_ERROR then INT_RESCHEDULE else INT_NO_RESCHEDULE, s)) }"

subsection \<open>Taking a thread off a wait queue\<close>

definition detach :: "wq_addr \<Rightarrow> int \<Rightarrow> tid \<Rightarrow> kstate \<Rightarrow> kstate" where
  "detach w err t s =
     (upd_wq w (\<lambda>q. q\<lparr>wq_count := wq_count q - 1\<rparr>)
       (upd_thr t (\<lambda>x. x\<lparr>queue_node := None, state := THREAD_READY, wait_queue_block_ret := err,
          blocking_wait_queue := None\<rparr>) s))
       \<lparr>lists := (lists s)(WaitQ w := remove1 t (lists s (WaitQ w)))\<rparr>"

definition wake :: "wq_addr \<Rightarrow> int \<Rightarrow> tid \<Rightarrow> kstate \<Rightarrow> kstate" where
  "wake w err t s = run_insert True t (detach w err t s)"

lemma detach_simps [simp]:
  "thr (detach w err t s) = (thr s)(t := (thr s t)\<lparr>queue_node := None, state := THREAD_READY,
     wait_queue_block_ret := err, blocking_wait_queue := None\<rparr>)"
  "lists (detach w err t s) = (lists s)(WaitQ w := remove1 t (lists s (WaitQ w)))"
  "wait_queues (detach w err t s) = (wait_queues s)(w := (wait_queues s w)\<lparr>wq_count := wq_count (wait_queues s w) - 1\<rparr>)"
  "thread_list (detach w err t s) = thread_list s"
  "current_thread (detach w err t s) = current_thread s"
  "idle_thread (detach w err t s) = idle_thread s"
  "critical_section_count (detach w err t s) = critical_section_count s"
  "ints_enabled (detach w err t s) = ints_enabled s"
  "run_queue_bitmap (detach w err t s) = run_queue_bitmap s"
  "timers (detach w err t s) = timers s"
  "timer_queue (detach w err t s) = timer_queue s"
  "ticks (detach w err t s) = ticks s"
  "mutexes (detach w err t s) = mutexes s"
  "events (detach w err t s) = events s"
  "dpc_list (detach w err t s) = dpc_list s"
  "stats (detach w err t s) = stats s"
  by (simp_all add: detach_def)

lemma waiter:
  assumes "queues_ok s" and "t \<in> set (lists s (WaitQ w))"
  shows "queue_node (thr s t) = Some (WaitQ w)" "state (thr s t) = THREAD_BLOCKED"
    "blocking_wait_queue (thr s t) = Some w" "live_ok (thr s t)"
proof -
  show q: "queue_node (thr s t) = Some (WaitQ w)"
    using assms kq_okD(2) by (auto simp: queues_ok_def)
  then have e: "expected_node (thr s t) = Some (WaitQ w)"
    using queues_ok_thread [OF assms(1), of t] by (simp add: thread_ok_def)
  then show b: "state (thr s t) = THREAD_BLOCKED" "blocking_wait_queue (thr s t) = Some w"
    by (auto simp: expected_node_def split: thread_state.splits)
  then show "live_ok (thr s t)"
    using queues_ok_thread [OF assms(1), of t] by (simp add: thread_ok_def)
qed

lemma blocked_waiter:
  assumes "queues_ok s" and "state (thr s t) = THREAD_BLOCKED"
  obtains w where "blocking_wait_queue (thr s t) = Some w" "t \<in> set (lists s (WaitQ w))"
    "queue_node (thr s t) = Some (WaitQ w)"
proof -
  obtain w where w: "blocking_wait_queue (thr s t) = Some w" and q: "queue_node (thr s t) = Some (WaitQ w)"
    using queues_ok_thread [OF assms(1), of t] assms(2) by (auto simp: thread_ok_def expected_node_def)
  moreover have "t \<in> set (lists s (WaitQ w))" using assms(1) q kq_okD(2) by (auto simp: queues_ok_def)
  ultimately show ?thesis using that by blast
qed

lemma detach_ok:
  assumes "queues_ok s" and "t \<in> set (lists s (WaitQ w))"
  shows "queues_ok_but t (detach w err t s)" and "ready_unqueued (thr (detach w err t s) t)"
proof -
  note W = waiter [OF assms]
  have k: "kq_ok s" and b: "bitmap_ok s" and c: "counts_ok s" using assms(1) by (simp_all add: queues_ok_def)
  have "kq_ok (detach w err t s)"
    using kq_ok_delete [OF k, of t] W(1) by (simp add: kq_ok_def kq_delete_def)
  moreover obtain n where "length (lists s (WaitQ w)) = Suc n"
    using assms(2) by (cases "lists s (WaitQ w)") auto
  then have "counts_ok (detach w err t s)"
    using c assms(2) by (simp add: counts_ok_def length_remove1)
  moreover have "bitmap_ok (detach w err t s)" using b by (simp add: bitmap_ok_def)
  ultimately show "queues_ok_but t (detach w err t s)"
    using assms(1) by (simp add: queues_ok_ex_def queues_ok_def)
  show "ready_unqueued (thr (detach w err t s) t)" using W(4) by (simp add: ready_unqueued_def)
qed

lemma wake_ok: "queues_ok s \<Longrightarrow> t \<in> set (lists s (WaitQ w)) \<Longrightarrow> queues_ok (wake w err t s)"
  unfolding wake_def by (intro queues_ok_run_insert detach_ok)

lemma pop_head:
  assumes "queues_ok s" and "lists s (WaitQ w) = t # r"
  obtains u where "kq_remove_head (WaitQ w) s = (Some t, u)" "pop_waiter w t err u = Some (detach w err t s)"
proof -
  note W = waiter [OF assms(1), of t w, unfolded assms(2), simplified]
  show ?thesis
    using that W assms(2)
    by (simp add: kq_remove_head_def kq_delete_def pop_waiter_def detach_def upd_thr_def upd_wq_def Let_def)
qed

subsection \<open>Waking every waiter\<close>

lemma wake_lists:
  "lists (wake w err t s) (WaitQ v) = (if v = w then remove1 t (lists s (WaitQ w)) else lists s (WaitQ v))"
  "lists (wake w err t s) (RunQ p) =
     (if p = nat (priority (thr s t)) then t # lists s (RunQ p) else lists s (RunQ p))"
  by (simp_all add: wake_def)

lemma wake_thr:
  "thr (wake w err t s) = (thr s)(t := (thr s t)\<lparr>state := THREAD_READY, wait_queue_block_ret := err,
     blocking_wait_queue := None, queue_node := Some (RunQ (nat (priority (thr s t))))\<rparr>)"
  by (simp add: wake_def)

lemma wake_rest [simp]:
  "thread_list (wake w err t s) = thread_list s"
  "current_thread (wake w err t s) = current_thread s"
  "idle_thread (wake w err t s) = idle_thread s"
  "critical_section_count (wake w err t s) = critical_section_count s"
  "ints_enabled (wake w err t s) = ints_enabled s"
  "wait_queues (wake w err t s) = (wait_queues s)(w := (wait_queues s w)\<lparr>wq_count := wq_count (wait_queues s w) - 1\<rparr>)"
  "timers (wake w err t s) = timers s"
  "timer_queue (wake w err t s) = timer_queue s"
  "ticks (wake w err t s) = ticks s"
  "mutexes (wake w err t s) = mutexes s"
  "events (wake w err t s) = events s"
  "dpc_list (wake w err t s) = dpc_list s"
  "stats (wake w err t s) = stats s"
  by (simp_all add: wake_def)

lemma wake_all_loop_ok:
  assumes "queues_ok s" and "critical_section_count s > 0" and "length (lists s (WaitQ w)) < fuel"
  shows "wake_all_loop fuel w err n s =
      Some (n + int (length (lists s (WaitQ w))), fold (wake w err) (lists s (WaitQ w)) s) \<and>
    queues_ok (fold (wake w err) (lists s (WaitQ w)) s)"
  using assms
proof (induction fuel arbitrary: n s)
  case (Suc fuel)
  show ?case
  proof (cases "lists s (WaitQ w)")
    case Nil
    then show ?thesis using Suc.prems(1) by (simp add: kq_remove_head_def)
  next
    case (Cons t r)
    then have t: "t \<in> set (lists s (WaitQ w))" by simp
    obtain u where u: "kq_remove_head (WaitQ w) s = (Some t, u)" "pop_waiter w t err u = Some (detach w err t s)"
      using pop_head [OF Suc.prems(1) Cons] .
    have i: "insert_in_run_queue_head t (detach w err t s) = Some (wake w err t s)"
      unfolding wake_def using detach_ok(2) [OF Suc.prems(1) t] Suc.prems(2)
      by (intro insert_in_run_queue_ready) simp_all
    have l: "lists (wake w err t s) (WaitQ w) = r" using Cons by (simp add: wake_lists)
    note IH = Suc.IH [of "wake w err t s" "n + 1", unfolded l]
    then show ?thesis using wake_ok [OF Suc.prems(1) t] Suc.prems(2,3) Cons u i by (simp add: add.assoc)
  qed
qed simp

text \<open>The whole list is moved, in reverse order, to the heads of the run queues.\<close>

lemma fold_wake:
  assumes "distinct ws"
  shows "lists (fold (wake w err) ws s) (RunQ p) =
      rev (filter (\<lambda>t. nat (priority (thr s t)) = p) ws) @ lists s (RunQ p)"
    and "thr (fold (wake w err) ws s) = (\<lambda>t. if t \<in> set ws
      then (thr s t)\<lparr>state := THREAD_READY, wait_queue_block_ret := err, blocking_wait_queue := None,
        queue_node := Some (RunQ (nat (priority (thr s t))))\<rparr> else thr s t)"
    and "v \<noteq> w \<Longrightarrow> lists (fold (wake w err) ws s) (WaitQ v) = lists s (WaitQ v)"
  using assms
proof (induction ws arbitrary: s)
  case (Cons t ts)
  { case 1
    have "filter (\<lambda>u. nat (priority (thr (wake w err t s) u)) = p) ts =
        filter (\<lambda>u. nat (priority (thr s u)) = p) ts"
      by (intro filter_cong) (simp_all add: wake_thr)
    then show ?case using Cons.IH(1) [of "wake w err t s"] 1 by (simp add: wake_lists)
  next
    case 2
    then show ?case using Cons.IH(2) [of "wake w err t s"] by (auto simp: wake_thr fun_eq_iff)
  next
    case 3
    then show ?case using Cons.IH(3) [of "wake w err t s"] by (simp add: wake_lists)
  }
qed simp_all

lemma fold_wake_rest [simp]:
  "thread_list (fold (wake w err) ws s) = thread_list s"
  "current_thread (fold (wake w err) ws s) = current_thread s"
  "idle_thread (fold (wake w err) ws s) = idle_thread s"
  "critical_section_count (fold (wake w err) ws s) = critical_section_count s"
  "ints_enabled (fold (wake w err) ws s) = ints_enabled s"
  "timers (fold (wake w err) ws s) = timers s"
  "timer_queue (fold (wake w err) ws s) = timer_queue s"
  "ticks (fold (wake w err) ws s) = ticks s"
  "mutexes (fold (wake w err) ws s) = mutexes s"
  "events (fold (wake w err) ws s) = events s"
  "dpc_list (fold (wake w err) ws s) = dpc_list s"
  "stats (fold (wake w err) ws s) = stats s"
  by (induction ws arbitrary: s) simp_all

lemma fold_wake_wq:
  "wq_magic (wait_queues (fold (wake w err) ws s) v) = wq_magic (wait_queues s v)"
  "wq_count (wait_queues (fold (wake w err) ws s) v) =
     wq_count (wait_queues s v) - (if v = w then int (length ws) else 0)"
  "lists (fold (wake w err) ws s) (WaitQ w) = fold remove1 ws (lists s (WaitQ w))"
  by (induction ws arbitrary: s) (simp_all add: wake_lists)

lemma fold_remove1_self [simp]: "fold remove1 xs xs = []"
  by (induction xs) simp_all

lemma sched_ok_fold_wake:
  assumes "sched_ok s" and "queues_ok (fold (wake w err) (lists s (WaitQ w)) s)"
  shows "sched_ok (fold (wake w err) (lists s (WaitQ w)) s)"
proof -
  have q: "queues_ok s" and d: "distinct (lists s (WaitQ w))"
    using assms(1) kq_okD(1) by (auto simp: sched_ok_def queues_ok_def)
  have "current_thread s \<notin> set (lists s (WaitQ w))"
    using waiter(2) [OF q, of "current_thread s" w] sched_okD(1) [OF assms(1)] by auto
  then show ?thesis
    using assms by (auto simp: sched_ok_def fold_wake(2) [OF d])
qed

subsection \<open>The operations keep the invariant\<close>

lemma sched_ok_wake:
  assumes "sched_ok s" and "t \<in> set (lists s (WaitQ w))"
  shows "sched_ok (wake w err t s)"
proof -
  have q: "queues_ok s" using assms(1) by (simp add: sched_ok_def)
  have "current_thread s \<noteq> t" using waiter(2) [OF q assms(2)] sched_okD(1) [OF assms(1)] by auto
  then show ?thesis
    using assms wake_ok [OF q assms(2)] by (auto simp: sched_ok_def wake_thr)
qed

text \<open>The state in which a waking operation with rescheduling calls thread_resched.\<close>

definition wake_over :: "wq_addr \<Rightarrow> int \<Rightarrow> tid \<Rightarrow> kstate \<Rightarrow> kstate" where
  "wake_over w err t s = run_insert True t (run_insert True (current_thread s)
     (upd_cur (\<lambda>x. x\<lparr>state := THREAD_READY\<rparr>) (detach w err t s)))"

lemma wake_over_ok:
  assumes ok: "sched_ok s" and cs: "critical_section_count s > 0" and t: "t \<in> set (lists s (WaitQ w))"
  shows "switch_ok (wake_over w err t s)"
    and "insert_in_run_queue_head (current_thread s) (upd_cur (\<lambda>x. x\<lparr>state := THREAD_READY\<rparr>) (detach w err t s)) =
      Some (run_insert True (current_thread s) (upd_cur (\<lambda>x. x\<lparr>state := THREAD_READY\<rparr>) (detach w err t s)))"
    and "insert_in_run_queue_head t (run_insert True (current_thread s)
      (upd_cur (\<lambda>x. x\<lparr>state := THREAD_READY\<rparr>) (detach w err t s))) = Some (wake_over w err t s)"
proof -
  let ?c = "current_thread s"
  let ?u = "upd_cur (\<lambda>x. x\<lparr>state := THREAD_READY\<rparr>) (detach w err t s)"
  let ?v = "run_insert True ?c ?u"
  have q: "queues_ok s" using ok by (simp add: sched_ok_def)
  have ne: "?c \<noteq> t" using waiter(2) [OF q t] sched_okD(1) [OF ok] by auto
  note D = detach_ok [OF q t, of err]
  have uc: "ready_unqueued (thr ?u ?c)" and ut: "ready_unqueued (thr ?u t)"
    using requeued_ready [OF ok, of "remaining_quantum (cur s)"] D(2) ne by simp_all
  have "queues_ok_ex {?c, t} ?u"
    using queues_ok_ex_mono [OF D(1), of "{?c, t}"] ne
    by (simp add: upd_cur_def) (intro queues_ok_ex_upd, simp_all)
  then have "queues_ok_ex ({t} - {?c}) ?v" using uc by (intro queues_ok_ex_run_insert)
  then have v: "queues_ok_but t ?v" using ne by (metis Diff_empty Diff_insert0 singletonD)
  have vt: "ready_unqueued (thr ?v t)" using ut ne by simp
  show "insert_in_run_queue_head ?c ?u = Some ?v"
    using uc cs by (intro insert_in_run_queue_ready) simp_all
  show "insert_in_run_queue_head t ?v = Some (wake_over w err t s)"
    unfolding wake_over_def using vt cs by (intro insert_in_run_queue_ready) simp_all
  have "queues_ok (wake_over w err t s)" unfolding wake_over_def using v vt by (rule queues_ok_run_insert)
  then show "switch_ok (wake_over w err t s)"
    using ok cs by (auto simp: switch_ok_def sched_ok_def wake_over_def)
qed

lemma wait_queue_wake_one_none:
  assumes "wq_magic (wait_queues s w) = WAIT_QUEUE_MAGIC" and "critical_section_count s > 0"
    and "lists s (WaitQ w) = []"
  shows "wait_queue_wake_one w reschedule err ks s = Some (Some 0, s)"
  using assms by (simp add: wait_queue_wake_one_def in_critical_section_def kq_remove_head_def)

lemma wait_queue_wake_one_stay:
  assumes "wq_magic (wait_queues s w) = WAIT_QUEUE_MAGIC" and "critical_section_count s > 0"
    and "queues_ok s" and "lists s (WaitQ w) = t # r"
  shows "wait_queue_wake_one w False err ks s = Some (Some 1, wake w err t s)"
proof -
  have t: "t \<in> set (lists s (WaitQ w))" using assms(4) by simp
  obtain u where u: "kq_remove_head (WaitQ w) s = (Some t, u)" "pop_waiter w t err u = Some (detach w err t s)"
    using pop_head [OF assms(3,4)] .
  have "insert_in_run_queue_head t (detach w err t s) = Some (wake w err t s)"
    unfolding wake_def using detach_ok(2) [OF assms(3) t] assms(2)
    by (intro insert_in_run_queue_ready) simp_all
  then show ?thesis using u assms(1,2) by (simp add: wait_queue_wake_one_def in_critical_section_def)
qed

lemma wait_queue_wake_one_switch:
  assumes "wq_magic (wait_queues s w) = WAIT_QUEUE_MAGIC" and "critical_section_count s > 0"
    and "sched_ok s" and "lists s (WaitQ w) = t # r"
  shows "wait_queue_wake_one w True err ks s = Some (None, switch_to (push_frames ks (wake_over w err t s)))"
proof -
  have t: "t \<in> set (lists s (WaitQ w))" using assms(4) by simp
  have q: "queues_ok s" using assms(3) by (simp add: sched_ok_def)
  obtain u where u: "kq_remove_head (WaitQ w) s = (Some t, u)" "pop_waiter w t err u = Some (detach w err t s)"
    using pop_head [OF q assms(4)] .
  note W = wake_over_ok [OF assms(3,2) t, of err]
  show ?thesis
    using u W assms(1,2) thread_resched_eq [of "push_frames ks (wake_over w err t s)"]
    by (simp add: wait_queue_wake_one_def in_critical_section_def)
qed

lemma wait_queue_wake_all_stay:
  assumes "wq_magic (wait_queues s w) = WAIT_QUEUE_MAGIC" and "critical_section_count s > 0"
    and "queues_ok s" and "\<not> reschedule \<or> lists s (WaitQ w) = []"
  shows "wait_queue_wake_all w reschedule err ks s =
    Some (Some (int (length (lists s (WaitQ w)))), fold (wake w err) (lists s (WaitQ w)) s)"
proof -
  have c: "wq_count (wait_queues s w) = int (length (lists s (WaitQ w)))"
    using assms(3) by (simp add: queues_ok_def counts_ok_def)
  show ?thesis
    using assms c wake_all_loop_ok [OF assms(3,2), of w "Suc (length (lists s (WaitQ w)))" err 0]
    by (auto simp: wait_queue_wake_all_def in_critical_section_def fold_wake_wq kq_remove_head_def)
qed

lemma switch_ok_fold_wake:
  assumes "switch_ok s" and "queues_ok (fold (wake w err) (lists s (WaitQ w)) s)"
  shows "switch_ok (fold (wake w err) (lists s (WaitQ w)) s)"
proof -
  have "distinct (lists s (WaitQ w))"
    using assms(1) kq_okD(1) by (auto simp: switch_ok_def queues_ok_def)
  then show ?thesis using assms by (auto simp: switch_ok_def fold_wake(2))
qed

lemma requeue_same:
  "run_insert h (current_thread s) (upd_cur (\<lambda>x. x\<lparr>state := THREAD_READY\<rparr>) s) =
     requeued h remaining_quantum s"
proof -
  have "(\<lambda>x :: thread. x\<lparr>state := THREAD_READY\<rparr>) =
    (\<lambda>x. x\<lparr>state := THREAD_READY, remaining_quantum := remaining_quantum x\<rparr>)" by (rule ext) simp
  then show ?thesis by (simp add: requeued_def)
qed

lemma wait_queue_wake_all_switch:
  fixes err :: int
  assumes "wq_magic (wait_queues s w) = WAIT_QUEUE_MAGIC" and "critical_section_count s > 0"
    and "sched_ok s" and "lists s (WaitQ w) \<noteq> []"
  defines "z \<equiv> fold (wake w err) (lists s (WaitQ w)) (requeued True remaining_quantum s)"
  shows "wait_queue_wake_all w True err ks s = Some (None, switch_to (push_frames ks z))"
    and "switch_ok z"
proof -
  let ?r = "requeued True remaining_quantum s" and ?ws = "lists s (WaitQ w)"
  have c: "wq_count (wait_queues s w) = int (length ?ws)"
    using assms(3) by (simp add: sched_ok_def queues_ok_def counts_ok_def)
  have i: "insert_in_run_queue_head (current_thread s) (upd_cur (\<lambda>x. x\<lparr>state := THREAD_READY\<rparr>) s) = Some ?r"
    unfolding requeue_same [symmetric]
    using requeued_ready [OF assms(3), of "remaining_quantum (cur s)"] assms(2)
    by (intro insert_in_run_queue_ready) simp_all
  have r: "switch_ok ?r" unfolding requeued_def using assms(3,2) by (rule switch_ok_requeue)
  have l: "lists ?r (WaitQ w) = ?ws" by (simp add: requeued_queues)
  have f: "wait_queues ?r = wait_queues s" "critical_section_count ?r = critical_section_count s"
    by (simp_all add: requeued_def)
  note W = wake_all_loop_ok [of ?r w "Suc (length ?ws)" err 0, unfolded l f]
  have q: "queues_ok ?r" using r by (simp add: switch_ok_def)
  show z: "switch_ok z"
    unfolding z_def using switch_ok_fold_wake [OF r, of w err, unfolded l] W q assms(2) by simp
  have n: "length ?ws > 0" using assms(4) by simp
  show "wait_queue_wake_all w True err ks s = Some (None, switch_to (push_frames ks z))"
    using W q assms(1,2) c i n thread_resched_eq [of "push_frames ks z"] z
    by (simp add: wait_queue_wake_all_def in_critical_section_def l f fold_wake_wq z_def
        del: wake_all_loop.simps)
qed

text \<open>Blocking.\<close>

definition enqueue_waiter :: "wq_addr \<Rightarrow> kstate \<Rightarrow> kstate" where
  "enqueue_waiter w s = upd_cur (\<lambda>x. x\<lparr>state := THREAD_BLOCKED, blocking_wait_queue := Some w,
       wait_queue_block_ret := NO_ERROR\<rparr>)
     (upd_wq w (\<lambda>q. q\<lparr>wq_count := wq_count q + 1\<rparr>) (kq_add_tail (WaitQ w) (current_thread s) s))"

lemma current_thread_kq_add_tail [simp]: "current_thread (kq_add_tail q t s) = current_thread s"
  by (simp add: kq_add_tail_def)

lemma enqueue_waiter_simps [simp]:
  "thr (enqueue_waiter w s) = (thr s)(current_thread s := (cur s)\<lparr>queue_node := Some (WaitQ w),
     state := THREAD_BLOCKED, blocking_wait_queue := Some w, wait_queue_block_ret := NO_ERROR\<rparr>)"
  "lists (enqueue_waiter w s) = (lists s)(WaitQ w := lists s (WaitQ w) @ [current_thread s])"
  "wait_queues (enqueue_waiter w s) = (wait_queues s)(w := (wait_queues s w)\<lparr>wq_count := wq_count (wait_queues s w) + 1\<rparr>)"
  "thread_list (enqueue_waiter w s) = thread_list s"
  "current_thread (enqueue_waiter w s) = current_thread s"
  "idle_thread (enqueue_waiter w s) = idle_thread s"
  "critical_section_count (enqueue_waiter w s) = critical_section_count s"
  "ints_enabled (enqueue_waiter w s) = ints_enabled s"
  "run_queue_bitmap (enqueue_waiter w s) = run_queue_bitmap s"
  "timers (enqueue_waiter w s) = timers s"
  "timer_queue (enqueue_waiter w s) = timer_queue s"
  "ticks (enqueue_waiter w s) = ticks s"
  "mutexes (enqueue_waiter w s) = mutexes s"
  "events (enqueue_waiter w s) = events s"
  "dpc_list (enqueue_waiter w s) = dpc_list s"
  by (simp_all add: enqueue_waiter_def kq_add_tail_def upd_cur_def)

lemma enqueue_waiter_ok:
  assumes "sched_ok s" and "critical_section_count s > 0" and "current_thread s \<noteq> bootstrap_thread"
  shows "switch_ok (enqueue_waiter w s)"
proof -
  let ?c = "current_thread s"
  note D = sched_okD [OF assms(1)]
  have k: "kq_ok (kq_add_tail (WaitQ w) ?c s)" using D(9,3) by (rule kq_ok_add_tail)
  then have "kq_ok (enqueue_waiter w s)" by (simp add: kq_ok_def kq_add_tail_def)
  moreover have "bitmap_ok (enqueue_waiter w s)" using D(10) by (simp add: bitmap_ok_def)
  moreover have "counts_ok (enqueue_waiter w s)" using D(8) by (simp add: queues_ok_def counts_ok_def)
  moreover have "thread_ok (thr (enqueue_waiter w s) u)" for u
    using queues_ok_thread [OF D(8), of u] D(1) by (auto simp: thread_ok_def expected_node_def)
  ultimately show ?thesis
    using assms by (auto simp: switch_ok_def queues_ok_def sched_ok_def)
qed

text \<open>The timer of a timed wait is armed before the thread blocks.\<close>

lemma arm_timer:
  assumes "timers_ok s" and "tm \<notin> set (timer_queue s)"
  obtains s' where "timer_set_oneshot tm delay cb a (timer_initialize tm s) = Some s'" "timers_ok s'"
    "set (timer_queue s') = insert tm (set (timer_queue s))"
    "callback (timers s' tm) = Some cb" "tm_arg (timers s' tm) = a" "periodic_time (timers s' tm) = 0"
    "\<And>x. x \<noteq> tm \<Longrightarrow> timers s' x = timers s x"
    "thr s' = thr s" "lists s' = lists s" "run_queue_bitmap s' = run_queue_bitmap s"
    "wait_queues s' = wait_queues s" "current_thread s' = current_thread s"
    "critical_section_count s' = critical_section_count s" "mutexes s' = mutexes s" "events s' = events s"
    "idle_thread s' = idle_thread s" "ticks s' = ticks s" "thread_list s' = thread_list s" "dpc_list s' = dpc_list s"
proof -
  let ?d = "if delay = 0 then 1 else delay"
  let ?i = "timer_initialize tm s"
  have i: "timers_ok ?i" "tm \<notin> set (timer_queue ?i)" "tm_magic (timers ?i tm) = TIMER_MAGIC"
    using timers_ok_initialize [OF assms] assms(2) by (simp_all add: timer_initialize_def)
  then obtain s' where s': "timer_set tm ?d 0 cb a ?i = Some s'" "timers_ok s'"
    using timer_set_ok by blast
  moreover have "\<not> tm_linked (timers ?i tm)" by (simp add: timer_initialize_def)
  ultimately show ?thesis
    using that [of s'] i by (auto simp: timer_set_oneshot_def timer_set_def insert_timer_in_queue_def
        timer_initialize_def Let_def)
qed

lemma wait_queue_block_ok:
  assumes ok: "sched_ok s" and cs: "critical_section_count s > 0"
    and mg: "wq_magic (wait_queues s w) = WAIT_QUEUE_MAGIC"
    and ne: "current_thread s \<noteq> bootstrap_thread" and t0: "timeout \<noteq> 0"
    and tm: "timers_ok s" "WaitTimer (current_thread s) \<notin> set (timer_queue s)"
  obtains z where "switch_ok z"
    "wait_queue_block w timeout s = Some (switch_to (push_frames [After_resched, After_block_in_wait timeout] z))"
    "timers_ok z" "thr z = thr (enqueue_waiter w s)" "lists z = lists (enqueue_waiter w s)"
    "wait_queues z = wait_queues (enqueue_waiter w s)" "current_thread z = current_thread s"
    "mutexes z = mutexes s" "events z = events s" "critical_section_count z = critical_section_count s + 1"
    "idle_thread z = idle_thread s" "ticks z = ticks s" "thread_list z = thread_list s" "dpc_list z = dpc_list s"
    "set (timer_queue z) = (if timeout = INFINITE_TIME then {} else {WaitTimer (current_thread s)}) \<union> set (timer_queue s)"
    "\<And>x. x \<noteq> WaitTimer (current_thread s) \<Longrightarrow> timers z x = timers s x"
    "timeout \<noteq> INFINITE_TIME \<Longrightarrow> callback (timers z (WaitTimer (current_thread s))) = Some Wait_queue_timeout_handler \<and>
       tm_arg (timers z (WaitTimer (current_thread s))) = current_thread s \<and>
       periodic_time (timers z (WaitTimer (current_thread s))) = 0"
proof -
  let ?c = "current_thread s" and ?e = "enqueue_waiter w s"
  obtain y where y: "(if timeout \<noteq> INFINITE_TIME
      then timer_set_oneshot (WaitTimer ?c) timeout Wait_queue_timeout_handler ?c (timer_initialize (WaitTimer ?c) ?e)
      else Some ?e) = Some y" "timers_ok y"
    "thr y = thr ?e" "lists y = lists ?e" "run_queue_bitmap y = run_queue_bitmap ?e"
    "wait_queues y = wait_queues ?e" "current_thread y = ?c" "critical_section_count y = critical_section_count s"
    "mutexes y = mutexes s" "events y = events s"
    "idle_thread y = idle_thread s" "ticks y = ticks s" "thread_list y = thread_list s" "dpc_list y = dpc_list s"
    "set (timer_queue y) = (if timeout = INFINITE_TIME then {} else {WaitTimer ?c}) \<union> set (timer_queue s)"
    "\<And>x. x \<noteq> WaitTimer ?c \<Longrightarrow> timers y x = timers s x"
    "timeout \<noteq> INFINITE_TIME \<Longrightarrow> callback (timers y (WaitTimer ?c)) = Some Wait_queue_timeout_handler \<and>
       tm_arg (timers y (WaitTimer ?c)) = ?c \<and> periodic_time (timers y (WaitTimer ?c)) = 0"
  proof (cases "timeout = INFINITE_TIME")
    case True
    then show ?thesis using that [of ?e] tm timers_ok_cong [of ?e s] by simp
  next
    case False
    have e: "timers_ok ?e" "WaitTimer ?c \<notin> set (timer_queue ?e)" using tm timers_ok_cong [of ?e s] by simp_all
    show ?thesis
      by (rule arm_timer [OF e, of timeout Wait_queue_timeout_handler ?c]) (rule that; use False in simp)
  qed
  let ?z = "enter_critical_section y"
  have sy: "switch_ok y"
    using enqueue_waiter_ok [OF ok cs ne, of w] y(3-8)
    by (simp add: switch_ok_def queues_ok_def kq_ok_def bitmap_ok_def counts_ok_def)
  then have sz: "switch_ok ?z"
    by (simp add: switch_ok_def queues_ok_def kq_ok_def bitmap_ok_def counts_ok_def)
  have m: "magic (thr y ?c) = THREAD_MAGIC" "state (thr y ?c) = THREAD_BLOCKED"
    using sched_okD(2) [OF ok] y(3) by simp_all
  have f: "push_frame After_resched (enter_critical_section (push_frame (After_block_in_wait timeout) y)) =
      push_frames [After_resched, After_block_in_wait timeout] ?z"
    by (simp add: push_frames_def upd_cur_def upd_thr_def enter_critical_section_def Let_def)
  have "thread_block (push_frame (After_block_in_wait timeout) y) =
      Some (switch_to (push_frames [After_resched, After_block_in_wait timeout] ?z))"
    using m y(7) thread_resched_eq [OF ok_push_frames(2) [OF sz], of "[After_resched, After_block_in_wait timeout]"] f
    by (simp add: thread_block_def push_frames_def Let_def)
  then have "wait_queue_block w timeout s =
      Some (switch_to (push_frames [After_resched, After_block_in_wait timeout] ?z))"
    using y(1) mg cs t0 sched_okD(1) [OF ok]
    by (simp add: wait_queue_block_def in_critical_section_def Let_def enqueue_waiter_def [symmetric]
        split del: if_split cong: if_cong)
  then show ?thesis
    using that [OF sz] y timers_ok_cong [of ?z y] by simp
qed

text \<open>Without a timeout no timer is involved.\<close>

lemma wait_queue_block_forever:
  assumes ok: "sched_ok s" and cs: "critical_section_count s > 0"
    and mg: "wq_magic (wait_queues s w) = WAIT_QUEUE_MAGIC" and ne: "current_thread s \<noteq> bootstrap_thread"
  defines "z \<equiv> enter_critical_section (enqueue_waiter w s)"
  shows "switch_ok z"
    and "wait_queue_block w INFINITE_TIME s =
      Some (switch_to (push_frames [After_resched, After_block_in_wait INFINITE_TIME] z))"
proof -
  let ?y = "enqueue_waiter w s"
  show sz: "switch_ok z"
    using enqueue_waiter_ok [OF ok cs ne, of w] unfolding z_def
    by (simp add: switch_ok_def queues_ok_def kq_ok_def bitmap_ok_def counts_ok_def)
  have f: "push_frame After_resched (enter_critical_section (push_frame (After_block_in_wait INFINITE_TIME) ?y)) =
      push_frames [After_resched, After_block_in_wait INFINITE_TIME] z"
    unfolding z_def by (simp add: push_frames_def upd_cur_def upd_thr_def enter_critical_section_def Let_def)
  have "thread_block (push_frame (After_block_in_wait INFINITE_TIME) ?y) =
      Some (switch_to (push_frames [After_resched, After_block_in_wait INFINITE_TIME] z))"
    using sched_okD(2) [OF ok] thread_resched_eq [OF ok_push_frames(2) [OF sz], of "[After_resched, After_block_in_wait INFINITE_TIME]"] f
    by (simp add: thread_block_def push_frames_def Let_def)
  moreover have "INFINITE_TIME \<noteq> 0" by (simp add: INFINITE_TIME_def)
  ultimately show "wait_queue_block w INFINITE_TIME s =
      Some (switch_to (push_frames [After_resched, After_block_in_wait INFINITE_TIME] z))"
    using mg cs sched_okD(1) [OF ok]
    by (simp add: wait_queue_block_def in_critical_section_def Let_def enqueue_waiter_def [symmetric])
qed

text \<open>Pulling a thread out of its wait queue.\<close>

lemma thread_unblock_blocked:
  assumes "sched_ok s" and "critical_section_count s \<ge> 0" and "state (thr s t) = THREAD_BLOCKED"
    and "blocking_wait_queue (thr s t) = Some w" and "wq_magic (wait_queues s w) = WAIT_QUEUE_MAGIC"
  shows "thread_unblock_from_wait_queue t False err s =
      Some (Some NO_ERROR, exit_critical_section (wake w err t (enter_critical_section s)))"
    and "sched_ok (wake w err t (enter_critical_section s))"
proof -
  let ?s = "enter_critical_section s"
  have q: "queues_ok ?s" using sched_ok_enter [OF assms(1)] by (simp add: sched_ok_def)
  obtain t: "t \<in> set (lists ?s (WaitQ w))" and n: "queue_node (thr s t) = Some (WaitQ w)"
    using blocked_waiter [OF q, of t] assms(3,4) by auto
  have m: "magic (thr s t) = THREAD_MAGIC" using waiter(4) [OF q t] by (simp add: live_ok_def)
  have d: "upd_thr t (\<lambda>x. x\<lparr>blocking_wait_queue := None, state := THREAD_READY, wait_queue_block_ret := err\<rparr>)
      (upd_wq w (\<lambda>q. q\<lparr>wq_count := wq_count q - 1\<rparr>) (kq_delete t ?s)) = detach w err t ?s"
  proof (rule kstate.equality)
    show "thr (upd_thr t (\<lambda>x. x\<lparr>blocking_wait_queue := None, state := THREAD_READY,
        wait_queue_block_ret := err\<rparr>) (upd_wq w (\<lambda>q. q\<lparr>wq_count := wq_count q - 1\<rparr>) (kq_delete t ?s))) =
        thr (detach w err t ?s)"
      using n by (simp add: kq_delete_def fun_eq_iff)
  qed (use n in \<open>simp_all add: kq_delete_def\<close>)
  have "insert_in_run_queue_head t (detach w err t ?s) = Some (wake w err t ?s)"
    unfolding wake_def using detach_ok(2) [OF q t] assms(2) by (intro insert_in_run_queue_ready) simp_all
  then show "thread_unblock_from_wait_queue t False err s =
      Some (Some NO_ERROR, exit_critical_section (wake w err t ?s))"
    using assms m n d by (simp add: thread_unblock_from_wait_queue_def Let_def kq_in_list_def)
  show "sched_ok (wake w err t ?s)"
    using sched_ok_enter [OF assms(1)] t by (rule sched_ok_wake)
qed

lemma thread_unblock_not_blocked:
  assumes "state (thr s t) \<noteq> THREAD_BLOCKED" and "magic (thr s t) = THREAD_MAGIC"
  shows "thread_unblock_from_wait_queue t r err s = Some (Some ERR_NOT_BLOCKED, enter_critical_section s)"
  using assms by (simp add: thread_unblock_from_wait_queue_def Let_def)

lemma timer_cancel_effect:
  assumes "timers_ok s" and "tm_magic (timers s tm) = TIMER_MAGIC"
  obtains s' where "timer_cancel tm s = Some s'" "timers_ok s'"
    "set (timer_queue s') = set (timer_queue s) - {tm}"
    "\<And>x. x \<noteq> tm \<Longrightarrow> timers s' x = timers s x"
    "thr s' = thr s" "lists s' = lists s" "run_queue_bitmap s' = run_queue_bitmap s"
    "wait_queues s' = wait_queues s" "current_thread s' = current_thread s"
    "critical_section_count s' = critical_section_count s" "mutexes s' = mutexes s" "events s' = events s"
    "idle_thread s' = idle_thread s" "ticks s' = ticks s" "thread_list s' = thread_list s" "dpc_list s' = dpc_list s"
    "tm_magic (timers s' tm) = TIMER_MAGIC"
proof -
  obtain s' where s': "timer_cancel tm s = Some s'" "timers_ok s'"
    using timer_cancel_ok [OF assms] by blast
  then show ?thesis
    using that [of s'] assms by (auto simp: timer_cancel_def delete_timer_def Let_def timers_ok_def)
qed

end
