(* ===== verification/Kernel_Sync.thy ===== *)
theory Kernel_Sync
  imports Kernel_Wait
begin

text \<open>
  The synchronisation objects of the LK kernel: \<^verbatim>\<open>kernel/mutex.c\<close>,
  \<^verbatim>\<open>kernel/event.c\<close> and the deferred procedure calls of \<^verbatim>\<open>kernel/dpc.c\<close> with
  thread_exit, which uses them. A function whose caller may be switched out is followed by
  its continuation (\<open>_end\<close>), the code after the call.
\<close>

definition upd_mutex :: "nat \<Rightarrow> (mutex \<Rightarrow> mutex) \<Rightarrow> kstate \<Rightarrow> kstate" where
  "upd_mutex m f s = s\<lparr>mutexes := (mutexes s)(m := f (mutexes s m))\<rparr>"

definition upd_event :: "nat \<Rightarrow> (event \<Rightarrow> event) \<Rightarrow> kstate \<Rightarrow> kstate" where
  "upd_event e f s = s\<lparr>events := (events s)(e := f (events s e))\<rparr>"

lemma upd_mutex_simps [simp]:
  "mutexes (upd_mutex m f s) = (mutexes s)(m := f (mutexes s m))"
  "thr (upd_mutex m f s) = thr s"
  "thread_list (upd_mutex m f s) = thread_list s"
  "current_thread (upd_mutex m f s) = current_thread s"
  "idle_thread (upd_mutex m f s) = idle_thread s"
  "critical_section_count (upd_mutex m f s) = critical_section_count s"
  "ints_enabled (upd_mutex m f s) = ints_enabled s"
  "lists (upd_mutex m f s) = lists s"
  "run_queue_bitmap (upd_mutex m f s) = run_queue_bitmap s"
  "wait_queues (upd_mutex m f s) = wait_queues s"
  "timers (upd_mutex m f s) = timers s"
  "timer_queue (upd_mutex m f s) = timer_queue s"
  "ticks (upd_mutex m f s) = ticks s"
  "events (upd_mutex m f s) = events s"
  "dpc_list (upd_mutex m f s) = dpc_list s"
  "stats (upd_mutex m f s) = stats s"
  by (simp_all add: upd_mutex_def)

lemma upd_event_simps [simp]:
  "events (upd_event e f s) = (events s)(e := f (events s e))"
  "thr (upd_event e f s) = thr s"
  "thread_list (upd_event e f s) = thread_list s"
  "current_thread (upd_event e f s) = current_thread s"
  "idle_thread (upd_event e f s) = idle_thread s"
  "critical_section_count (upd_event e f s) = critical_section_count s"
  "ints_enabled (upd_event e f s) = ints_enabled s"
  "lists (upd_event e f s) = lists s"
  "run_queue_bitmap (upd_event e f s) = run_queue_bitmap s"
  "wait_queues (upd_event e f s) = wait_queues s"
  "timers (upd_event e f s) = timers s"
  "timer_queue (upd_event e f s) = timer_queue s"
  "ticks (upd_event e f s) = ticks s"
  "mutexes (upd_event e f s) = mutexes s"
  "dpc_list (upd_event e f s) = dpc_list s"
  "stats (upd_event e f s) = stats s"
  by (simp_all add: upd_event_def)

subsection \<open>Mutexes\<close>

definition mutex_init :: "nat \<Rightarrow> kstate \<Rightarrow> kstate" where
  "mutex_init m s = wait_queue_init (MutexWait m)
     (upd_mutex m (\<lambda>_. \<lparr>mx_magic = MUTEX_MAGIC, mx_count = 0, holder = None\<rparr>) s)"

definition mutex_destroy :: "nat \<Rightarrow> kstate \<Rightarrow> kstate option" where
  "mutex_destroy m s = do {
     let s = enter_critical_section s;
     assert_opt (mx_magic (mutexes s m) = MUTEX_MAGIC);
     let s = upd_mutex m (\<lambda>x. x\<lparr>mx_magic := 0, mx_count := 0\<rparr>) s;
     (switched, s) \<leftarrow> wait_queue_destroy (MutexWait m) True After_wq_destroy s;
     Some (if switched then s else exit_critical_section s) }"

text \<open>From the label \<open>err\<close> on, with the result in \<open>r\<close>.\<close>

definition mutex_acquire_end :: "nat \<Rightarrow> kstate \<Rightarrow> kstate" where
  "mutex_acquire_end m s =
     (let r = ret (cur s);
          s = (if r < 0 then s else upd_mutex m (\<lambda>x. x\<lparr>holder := Some (current_thread s)\<rparr>) s)
      in set_ret r (exit_critical_section s))"

definition mutex_acquire :: "nat \<Rightarrow> kstate \<Rightarrow> kstate option" where
  "mutex_acquire m s = do {
     assert_opt (holder (mutexes s m) \<noteq> Some (current_thread s));
     let s = enter_critical_section s;
     assert_opt (mx_magic (mutexes s m) = MUTEX_MAGIC);
     let s = upd_mutex m (\<lambda>x. x\<lparr>mx_count := mx_count x + 1\<rparr>) s;
     if mx_count (mutexes s m) > 1
     then wait_queue_block (MutexWait m) INFINITE_TIME (push_frame (After_wait_in_mutex_acquire m) s)
     else Some (mutex_acquire_end m (set_ret NO_ERROR s)) }"

definition mutex_acquire_timeout_end :: "nat \<Rightarrow> kstate \<Rightarrow> kstate" where
  "mutex_acquire_timeout_end m s =
     (let r = ret (cur s);
          s = (if r < NO_ERROR \<and> r = ERR_TIMED_OUT then upd_mutex m (\<lambda>x. x\<lparr>mx_count := mx_count x - 1\<rparr>) s
               else upd_mutex m (\<lambda>x. x\<lparr>holder := Some (current_thread s)\<rparr>) s)
      in set_ret r (exit_critical_section s))"

definition mutex_acquire_timeout :: "nat \<Rightarrow> time \<Rightarrow> kstate \<Rightarrow> kstate option" where
  "mutex_acquire_timeout m timeout s = do {
     assert_opt (holder (mutexes s m) \<noteq> Some (current_thread s));
     if timeout = INFINITE_TIME then mutex_acquire m s
     else do {
       let s = enter_critical_section s;
       assert_opt (mx_magic (mutexes s m) = MUTEX_MAGIC);
       let s = upd_mutex m (\<lambda>x. x\<lparr>mx_count := mx_count x + 1\<rparr>) s;
       if mx_count (mutexes s m) > 1
       then wait_queue_block (MutexWait m) timeout (push_frame (After_wait_in_mutex_acquire_timeout m) s)
       else Some (mutex_acquire_timeout_end m (set_ret NO_ERROR s)) } }"

definition mutex_release_end :: "kstate \<Rightarrow> kstate" where
  "mutex_release_end s = set_ret NO_ERROR (exit_critical_section s)"

definition mutex_release :: "nat \<Rightarrow> kstate \<Rightarrow> kstate option" where
  "mutex_release m s = do {
     assert_opt (holder (mutexes s m) = Some (current_thread s));
     let s = enter_critical_section s;
     assert_opt (mx_magic (mutexes s m) = MUTEX_MAGIC);
     let s = upd_mutex m (\<lambda>x. x\<lparr>holder := None, mx_count := mx_count x - 1\<rparr>) s;
     if mx_count (mutexes s m) \<ge> 1
     then do {
       (r, s) \<leftarrow> wait_queue_wake_one (MutexWait m) True NO_ERROR [After_wake_in_mutex_release] s;
       Some (case r of None \<Rightarrow> s | Some _ \<Rightarrow> mutex_release_end s) }
     else Some (mutex_release_end s) }"

subsection \<open>Events\<close>

definition EVENT_FLAG_AUTOUNSIGNAL :: u32 where "EVENT_FLAG_AUTOUNSIGNAL = 1"

definition event_init :: "nat \<Rightarrow> bool \<Rightarrow> u32 \<Rightarrow> kstate \<Rightarrow> kstate" where
  "event_init e initial flags s = wait_queue_init (EventWait e)
     (upd_event e (\<lambda>_. \<lparr>ev_magic = EVENT_MAGIC, signalled = initial, ev_flags = flags\<rparr>) s)"

definition event_destroy :: "nat \<Rightarrow> kstate \<Rightarrow> kstate option" where
  "event_destroy e s = do {
     let s = enter_critical_section s;
     assert_opt (ev_magic (events s e) = EVENT_MAGIC);
     let s = upd_event e (\<lambda>_. \<lparr>ev_magic = 0, signalled = False, ev_flags = 0\<rparr>) s;
     (switched, s) \<leftarrow> wait_queue_destroy (EventWait e) True After_wq_destroy s;
     Some (if switched then s else exit_critical_section s) }"

definition autounsignal :: "nat \<Rightarrow> kstate \<Rightarrow> bool" where
  "autounsignal e s \<longleftrightarrow> and (ev_flags (events s e)) EVENT_FLAG_AUTOUNSIGNAL \<noteq> 0"

definition event_wait_end :: "kstate \<Rightarrow> kstate" where
  "event_wait_end s = (let r = ret (cur s) in set_ret r (exit_critical_section s))"

definition event_wait_timeout :: "nat \<Rightarrow> time \<Rightarrow> kstate \<Rightarrow> kstate option" where
  "event_wait_timeout e timeout s = do {
     let s = enter_critical_section s;
     assert_opt (ev_magic (events s e) = EVENT_MAGIC);
     if signalled (events s e)
     then Some (let s = (if autounsignal e s then upd_event e (\<lambda>x. x\<lparr>signalled := False\<rparr>) s else s)
                in event_wait_end (set_ret NO_ERROR s))
     else wait_queue_block (EventWait e) timeout (push_frame After_wait_in_event_wait s) }"

definition event_wait :: "nat \<Rightarrow> kstate \<Rightarrow> kstate option" where
  "event_wait e = event_wait_timeout e INFINITE_TIME"

text \<open>
  The rest of event_signal after wait_queue_wake_one returned \<open>n\<close>, and after
  wait_queue_wake_all.
\<close>

definition event_signal_end :: "kstate \<Rightarrow> kstate" where
  "event_signal_end s = set_ret NO_ERROR (exit_critical_section s)"

definition event_signal_woke :: "nat \<Rightarrow> int \<Rightarrow> kstate \<Rightarrow> kstate" where
  "event_signal_woke e n s =
     event_signal_end (if n \<le> 0 then upd_event e (\<lambda>x. x\<lparr>signalled := True\<rparr>) s else s)"

text \<open>Like the waking operations, event_signal takes its caller's frames and returns
  whether it switched.\<close>

definition event_signal :: "nat \<Rightarrow> bool \<Rightarrow> frame list \<Rightarrow> kstate \<Rightarrow> (bool \<times> kstate) option" where
  "event_signal e reschedule ks s = do {
     let s = enter_critical_section s;
     assert_opt (ev_magic (events s e) = EVENT_MAGIC);
     if \<not> signalled (events s e)
     then if autounsignal e s
       then do {
         (r, s) \<leftarrow> wait_queue_wake_one (EventWait e) reschedule NO_ERROR (After_wake_one_in_event_signal e # ks) s;
         Some (case r of None \<Rightarrow> (True, s) | Some n \<Rightarrow> (False, event_signal_woke e n s)) }
       else do {
         let s = upd_event e (\<lambda>x. x\<lparr>signalled := True\<rparr>) s;
         (r, s) \<leftarrow> wait_queue_wake_all (EventWait e) reschedule NO_ERROR (After_wake_all_in_event_signal # ks) s;
         Some (case r of None \<Rightarrow> (True, s) | Some n \<Rightarrow> (False, event_signal_end s)) }
     else Some (False, event_signal_end s) }"

definition event_unsignal :: "nat \<Rightarrow> kstate \<Rightarrow> kstate option" where
  "event_unsignal e s = do {
     let s = enter_critical_section s;
     assert_opt (ev_magic (events s e) = EVENT_MAGIC);
     let s = upd_event e (\<lambda>x. x\<lparr>signalled := False\<rparr>) s;
     Some (set_ret NO_ERROR (exit_critical_section s)) }"

subsection \<open>Deferred procedure calls and thread_exit\<close>

definition dpc_event :: nat where "dpc_event = 0"

definition dpc_queue_end :: "kstate \<Rightarrow> kstate" where
  "dpc_queue_end s = set_ret NO_ERROR (exit_critical_section s)"

text \<open>\<open>mem\<close> says whether malloc succeeded; the code writes through the pointer unchecked.\<close>

definition dpc_queue ::
  "bool \<Rightarrow> dpc_callback \<Rightarrow> nat \<Rightarrow> bool \<Rightarrow> kstate \<Rightarrow> (bool \<times> kstate) option" where
  "dpc_queue mem cb a noresched s = do {
     assert_opt mem;
     let s = enter_critical_section s;
     let s = s\<lparr>dpc_list := dpc_list s @ [\<lparr>dpc_cb = cb, dpc_arg = a\<rparr>]\<rparr>;
     (sw, s) \<leftarrow> event_signal dpc_event (\<not> noresched) [After_signal_in_dpc_queue] s;
     Some (if sw then (True, s) else (False, dpc_queue_end s)) }"

definition run_dpc :: "dpc \<Rightarrow> kstate \<Rightarrow> kstate option" where
  "run_dpc d s = (case dpc_cb d of Thread_cleanup_dpc \<Rightarrow> thread_cleanup_dpc (dpc_arg d) s)"

text \<open>One round of the loop of dpc_thread_routine, after event_wait has returned.\<close>

definition dpc_thread_round :: "kstate \<Rightarrow> kstate option" where
  "dpc_thread_round s = do {
     let s = enter_critical_section s;
     (d, s) \<leftarrow> (case dpc_list s of
                [] \<Rightarrow> do { s \<leftarrow> event_unsignal dpc_event s; Some (None, s) }
              | d # ds \<Rightarrow> Some (Some d, s\<lparr>dpc_list := ds\<rparr>));
     let s = exit_critical_section s;
     (case d of None \<Rightarrow> Some s | Some d \<Rightarrow> run_dpc d s) }"

definition DEFAULT_STACK_SIZE :: nat where "DEFAULT_STACK_SIZE = 8192"

text \<open>\<open>t\<close> is the address malloc returns for the thread, \<open>ent\<close> that of dpc_thread_routine.\<close>

definition dpc_init :: "tid \<Rightarrow> nat \<Rightarrow> kstate \<Rightarrow> kstate option" where
  "dpc_init t ent s =
     (let s = event_init dpc_event False 0 s
      in case thread_create (Some t) True ''dpc'' ent 0 DPC_PRIORITY DEFAULT_STACK_SIZE s of
           (None, s) \<Rightarrow> None
         | (Some t, s) \<Rightarrow> thread_resume t s)"

definition thread_exit :: "bool \<Rightarrow> int \<Rightarrow> kstate \<Rightarrow> kstate option" where
  "thread_exit mem rc s = do {
     assert_opt (magic (cur s) = THREAD_MAGIC);
     assert_opt (state (cur s) = THREAD_RUNNING);
     let s = enter_critical_section s;
     let s = upd_cur (\<lambda>x. x\<lparr>state := THREAD_DEATH, retcode := rc\<rparr>) s;
     (sw, s) \<leftarrow> dpc_queue mem Thread_cleanup_dpc (current_thread s) True s;
     thread_resched (push_frame After_resched_in_exit s) }"

end
