(* ===== verification/Kernel_Machine.thy ===== *)
theory Kernel_Machine
  imports Kernel_Sync
begin

text \<open>
  The kernel as a machine: what a thread does when it is switched back to, the timer
  interrupt, and a step relation whose steps are the kernel calls of the running thread
  and the interrupt. A call runs with interrupts off until its outermost critical section
  is left, so a step is a call up to the point where the running thread is back in its
  own code.
\<close>

subsection \<open>Returning from a switch\<close>

fun run_frame :: "frame \<Rightarrow> kstate \<Rightarrow> kstate option" where
  "run_frame Initial_thread_func s = Some (exit_critical_section s)"
| "run_frame After_resched s = Some (exit_critical_section s)"
| "run_frame After_yield_in_resume s = Some (set_ret NO_ERROR (exit_critical_section s))"
| "run_frame After_resched_in_exit s = None"
| "run_frame After_resched_in_unblock s = Some (set_ret NO_ERROR (exit_critical_section s))"
| "run_frame (After_block_in_wait timeout) s = wait_queue_block_end timeout s"
| "run_frame (After_wake_in_wq_destroy w) s = Some (wait_queue_destroy_end w s)"
| "run_frame After_wq_destroy s = Some (exit_critical_section s)"
| "run_frame (After_wait_in_mutex_acquire m) s = Some (mutex_acquire_end m s)"
| "run_frame (After_wait_in_mutex_acquire_timeout m) s = Some (mutex_acquire_timeout_end m s)"
| "run_frame After_wake_in_mutex_release s = Some (mutex_release_end s)"
| "run_frame After_wait_in_event_wait s = Some (event_wait_end s)"
| "run_frame (After_wake_one_in_event_signal e) s = Some (event_signal_woke e 1 s)"
| "run_frame After_wake_all_in_event_signal s = Some (event_signal_end s)"
| "run_frame After_signal_in_dpc_queue s = Some (dpc_queue_end s)"
| "run_frame After_preempt_in_irq s = Some ((dec_critical_section s)\<lparr>ints_enabled := True\<rparr>)"

fun run_frames :: "frame list \<Rightarrow> kstate \<Rightarrow> kstate option" where
  "run_frames [] s = Some s"
| "run_frames (f # fs) s = do { s \<leftarrow> run_frame f s; run_frames fs s }"

text \<open>The current thread runs every continuation on its stack.\<close>

definition kernel_return :: "kstate \<Rightarrow> kstate option" where
  "kernel_return s = run_frames (frames (cur s)) (upd_cur (\<lambda>x. x\<lparr>frames := []\<rparr>) s)"

subsection \<open>The timer interrupt\<close>

text \<open>The threadload callback only prints.\<close>

fun call_timer :: "timer_callback \<Rightarrow> nat \<Rightarrow> kstate \<Rightarrow> (handler_return \<times> kstate) option" where
  "call_timer Thread_sleep_handler a s = thread_sleep_handler a s"
| "call_timer Wait_queue_timeout_handler a s = wait_queue_timeout_handler a s"
| "call_timer Threadload a s = Some (INT_NO_RESCHEDULE, s)"

text \<open>The loop of timer_tick. A timer without a callback is a call through NULL.\<close>

fun timer_tick_loop ::
  "nat \<Rightarrow> time \<Rightarrow> handler_return \<Rightarrow> kstate \<Rightarrow> (handler_return \<times> kstate) option" where
  "timer_tick_loop 0 now r s = None"
| "timer_tick_loop (Suc fuel) now r s =
     (case timer_queue s of
        [] \<Rightarrow> Some (r, s)
      | tm # _ \<Rightarrow>
          if TIME_LT now (scheduled_time (timers s tm)) then Some (r, s)
          else do {
            assert_opt (tm_magic (timers s tm) = TIMER_MAGIC);
            let s = delete_timer tm s;
            let s = upd_stats (\<lambda>x. x\<lparr>timers_fired := timers_fired x + 1\<rparr>) s;
            let periodic = periodic_time (timers s tm) > 0;
            (case callback (timers s tm) of
               None \<Rightarrow> None
             | Some cb \<Rightarrow> do {
                 (h, s) \<leftarrow> call_timer cb (tm_arg (timers s tm)) s;
                 let r = (if h = INT_RESCHEDULE then INT_RESCHEDULE else r);
                 let s = (if periodic \<and> \<not> tm_linked (timers s tm) \<and> periodic_time (timers s tm) > 0
                          then insert_timer_in_queue tm
                                 (upd_timer tm (\<lambda>x. x\<lparr>scheduled_time := now + periodic_time x\<rparr>) s)
                          else s);
                 timer_tick_loop fuel now r s }) })"

definition timer_tick :: "time \<Rightarrow> kstate \<Rightarrow> (handler_return \<times> kstate) option" where
  "timer_tick now s = do {
     let s = upd_stats (\<lambda>x. x\<lparr>timer_ints := timer_ints x + 1\<rparr>) s;
     (r, s) \<leftarrow> timer_tick_loop (Suc (length (timer_queue s))) now INT_NO_RESCHEDULE s;
     let (h, s) = thread_timer_tick s;
     let r = (if h = INT_RESCHEDULE then INT_RESCHEDULE else r);
     Some (INT_RESCHEDULE, s) }"

text \<open>The platform's handler, with the interval of 10 ms that timer_init asks for.\<close>

definition timer_irq :: "kstate \<Rightarrow> (handler_return \<times> kstate) option" where
  "timer_irq s = (let s = s\<lparr>ticks := ticks s + 10\<rparr> in timer_tick (ticks s) s)"

text \<open>The exception entry: interrupts are off until the saved status is restored.\<close>

definition arm_irq :: "kstate \<Rightarrow> kstate option" where
  "arm_irq s = do {
     let s = inc_critical_section (s\<lparr>ints_enabled := False\<rparr>);
     (r, s) \<leftarrow> timer_irq s;
     if r = INT_RESCHEDULE then thread_preempt (push_frame After_preempt_in_irq s)
     else Some ((dec_critical_section s)\<lparr>ints_enabled := True\<rparr>) }"

subsection \<open>The invariant of the machine\<close>

text \<open>How many critical sections a continuation leaves.\<close>

fun exits :: "frame \<Rightarrow> int" where
  "exits After_resched_in_exit = 0"
| "exits (After_block_in_wait _) = 0"
| "exits (After_wake_in_wq_destroy _) = 0"
| "exits _ = 1"

definition depth :: "frame list \<Rightarrow> int" where
  "depth fs = sum_list (map exits fs)"

lemma depth_simps [simp]: "depth [] = 0" "depth (f # fs) = exits f + depth fs"
  by (simp_all add: depth_def)

text \<open>The stack of a thread blocked, without a timeout, on each kind of wait queue.\<close>

fun wait_stack :: "wq_addr \<Rightarrow> frame list" where
  "wait_stack (MutexWait m) = [After_resched, After_block_in_wait INFINITE_TIME, After_wait_in_mutex_acquire m]"
| "wait_stack (EventWait e) = [After_resched, After_block_in_wait INFINITE_TIME, After_wait_in_event_wait]"

text \<open>The stacks of a thread that is READY.\<close>

definition plain_stack :: "frame list \<Rightarrow> bool" where
  "plain_stack fs \<longleftrightarrow> fs \<in> {[Initial_thread_func], [After_resched], [After_wake_in_mutex_release],
     [After_wake_all_in_event_signal], [After_resched, After_preempt_in_irq]} \<or>
     (\<exists>e. fs = [After_wake_one_in_event_signal e])"

definition stack_ok :: "thread \<Rightarrow> bool" where
  "stack_ok x \<longleftrightarrow> (case state x of
      THREAD_SLEEPING \<Rightarrow> frames x = [After_resched]
    | THREAD_BLOCKED \<Rightarrow> (\<exists>w. blocking_wait_queue x = Some w \<and> frames x = wait_stack w) \<and>
        wait_queue_block_ret x = NO_ERROR
    | THREAD_READY \<Rightarrow> plain_stack (frames x) \<or>
        (\<exists>w. frames x = wait_stack w) \<and> wait_queue_block_ret x = NO_ERROR
    | THREAD_RUNNING \<Rightarrow> frames x = [] \<or> plain_stack (frames x) \<or>
        (\<exists>w. frames x = wait_stack w) \<and> wait_queue_block_ret x = NO_ERROR
    | _ \<Rightarrow> True)"

text \<open>The critical-section depth of a thread: the live counter for the current one.\<close>

definition cs_depth :: "kstate \<Rightarrow> tid \<Rightarrow> int" where
  "cs_depth s t = (if t = current_thread s then critical_section_count s
     else saved_critical_section_count (thr s t))"

definition threads_inv :: "kstate \<Rightarrow> bool" where
  "threads_inv s \<longleftrightarrow> (\<forall>t. state (thr s t) \<notin> {THREAD_SUSPENDED, THREAD_DEATH} \<longrightarrow>
     cs_depth s t = depth (frames (thr s t)) \<and> stack_ok (thr s t))"

text \<open>Exactly the sleeping threads have an armed timer, which wakes them.\<close>

definition timers_inv :: "kstate \<Rightarrow> bool" where
  "timers_inv s \<longleftrightarrow> timers_ok s \<and> (\<forall>tm\<in>set (timer_queue s). \<exists>t. tm = SleepTimer t) \<and>
     (\<forall>t. SleepTimer t \<in> set (timer_queue s) \<longleftrightarrow> state (thr s t) = THREAD_SLEEPING) \<and>
     (\<forall>t. SleepTimer t \<in> set (timer_queue s) \<longrightarrow> callback (timers s (SleepTimer t)) = Some Thread_sleep_handler \<and>
        tm_arg (timers s (SleepTimer t)) = t \<and> periodic_time (timers s (SleepTimer t)) = 0)"

text \<open>The threads that were handed mutex \<open>m\<close> and have not run since.\<close>

definition handed :: "nat \<Rightarrow> kstate \<Rightarrow> tid set" where
  "handed m s = {t. state (thr s t) \<in> {THREAD_READY, THREAD_RUNNING} \<and>
     frames (thr s t) = wait_stack (MutexWait m)}"

text \<open>Either the mutex is free and unused, or exactly one thread owns it, as the holder or
  as the thread it was handed to, and the count is that thread and the waiters.\<close>

definition mutex_inv :: "nat \<Rightarrow> kstate \<Rightarrow> bool" where
  "mutex_inv m s \<longleftrightarrow> wq_magic (wait_queues s (MutexWait m)) = WAIT_QUEUE_MAGIC \<and>
     (mx_count (mutexes s m) = 0 \<and> holder (mutexes s m) = None \<and> handed m s = {} \<and>
        lists s (WaitQ (MutexWait m)) = [] \<or>
      mx_count (mutexes s m) = 1 + int (length (lists s (WaitQ (MutexWait m)))) \<and>
        (\<exists>t. holder (mutexes s m) = Some t \<and> handed m s = {} \<or>
             holder (mutexes s m) = None \<and> handed m s = {t}))"

definition mutexes_inv :: "kstate \<Rightarrow> bool" where
  "mutexes_inv s \<longleftrightarrow> (\<forall>m. mx_magic (mutexes s m) = MUTEX_MAGIC \<longrightarrow> mutex_inv m s) \<and>
     (\<forall>m. mx_magic (mutexes s m) \<noteq> MUTEX_MAGIC \<longrightarrow> lists s (WaitQ (MutexWait m)) = [] \<and> handed m s = {})"

text \<open>Nobody waits for an event that is signalled.\<close>

definition events_inv :: "kstate \<Rightarrow> bool" where
  "events_inv s \<longleftrightarrow> (\<forall>e. ev_magic (events s e) = EVENT_MAGIC \<longrightarrow>
     wq_magic (wait_queues s (EventWait e)) = WAIT_QUEUE_MAGIC \<and>
     (signalled (events s e) \<longrightarrow> lists s (WaitQ (EventWait e)) = []))"

definition objects_inv :: "kstate \<Rightarrow> bool" where
  "objects_inv s \<longleftrightarrow> threads_inv s \<and> timers_inv s \<and> mutexes_inv s \<and> events_inv s \<and>
     (ints_enabled s \<longleftrightarrow> critical_section_count s = 0)"

text \<open>At a switch, and between steps.\<close>

definition mid_inv :: "kstate \<Rightarrow> bool" where
  "mid_inv s \<longleftrightarrow> sched_ok s \<and> objects_inv s"

definition kernel_inv :: "kstate \<Rightarrow> bool" where
  "kernel_inv s \<longleftrightarrow> mid_inv s \<and> frames (cur s) = []"

lemma frames_nil_id: "frames x = [] \<Longrightarrow> x\<lparr>frames := []\<rparr> = (x :: thread)"
  by (cases x) simp

lemma kernel_invD:
  assumes "kernel_inv s"
  shows "sched_ok s" "objects_inv s" "frames (cur s) = []" "critical_section_count s = 0" "ints_enabled s"
    "threads_inv s" "timers_inv s" "mutexes_inv s" "events_inv s"
proof -
  show o: "sched_ok s" "objects_inv s" "frames (cur s) = []"
    using assms by (simp_all add: kernel_inv_def mid_inv_def)
  then show i: "threads_inv s" "timers_inv s" "mutexes_inv s" "events_inv s" by (simp_all add: objects_inv_def)
  show "critical_section_count s = 0"
    using i(1) o(3) sched_okD(1) [OF o(1)] by (auto simp: threads_inv_def cs_depth_def dest: spec [of _ "current_thread s"])
  then show "ints_enabled s" using o(2) by (simp add: objects_inv_def)
qed

subsection \<open>Switching keeps the invariant\<close>

lemma same_thread_fields:
  assumes "same_thread x y"
  shows "frames y = frames x" "blocking_wait_queue y = blocking_wait_queue x"
    "wait_queue_block_ret y = wait_queue_block_ret x" "ret y = ret x" "priority y = priority x" "magic y = magic x"
  using arg_cong [OF assms [unfolded same_thread_def], of frames]
    arg_cong [OF assms [unfolded same_thread_def], of blocking_wait_queue]
    arg_cong [OF assms [unfolded same_thread_def], of wait_queue_block_ret]
    arg_cong [OF assms [unfolded same_thread_def], of ret]
    arg_cong [OF assms [unfolded same_thread_def], of priority]
    arg_cong [OF assms [unfolded same_thread_def], of magic]
  by simp_all

lemma handed_switch:
  assumes sw: "switch_ok s"
  shows "handed m (switch_to s) = handed m s"
proof -
  have sd: "switched s (switch_to s)" using switch_to_ok [OF sw] by simp
  then have st: "\<And>t. t \<noteq> next_thread s \<Longrightarrow> state (thr (switch_to s) t) = state (thr s t)"
    by (simp add: switched_def)
  obtain p where p: "p < 32" "lists s (RunQ p) \<noteq> []" using switch_ok_run_queue [OF sw] .
  have nr: "state (thr s (next_thread s)) = THREAD_READY"
    using next_thread_ready(3) [OF _ p] sw by (simp add: switch_ok_def)
  have nr': "state (thr (switch_to s) (next_thread s)) = THREAD_RUNNING"
    using sched_okD(1) [OF switch_to_ok(1) [OF sw]] by (simp add: switch_to_fields(1))
  have "state (thr (switch_to s) t) \<in> {THREAD_READY, THREAD_RUNNING} \<longleftrightarrow>
      state (thr s t) \<in> {THREAD_READY, THREAD_RUNNING}" for t
    using st [of t] nr nr' by (cases "t = next_thread s") auto
  then show ?thesis by (simp add: handed_def same_thread_fields [OF switch_to_same])
qed

lemma objects_inv_switch:
  assumes sw: "switch_ok s" and ob: "objects_inv s"
  shows "objects_inv (switch_to s)"
proof -
  have sd: "switched s (switch_to s)" and cs: "critical_section_count s > 0" "critical_section_count (switch_to s) > 0"
    using switch_to_ok [OF sw] sw by (simp_all add: switch_ok_def)
  then have same: "same_objects s (switch_to s)"
    and th: "\<And>t. same_thread (thr s t) (thr (switch_to s) t)"
    and st: "\<And>t. t \<noteq> next_thread s \<Longrightarrow> state (thr (switch_to s) t) = state (thr s t)"
    by (simp_all add: switched_def)
  note F = same_thread_fields [OF th]
  obtain p where p: "p < 32" "lists s (RunQ p) \<noteq> []" using switch_ok_run_queue [OF sw] .
  have nr: "state (thr s (next_thread s)) = THREAD_READY"
    using next_thread_ready(3) [OF _ p] sw by (simp add: switch_ok_def)
  have nr': "state (thr (switch_to s) (next_thread s)) = THREAD_RUNNING"
    using sched_okD(1) [OF switch_to_ok(1) [OF sw]] by (simp add: switch_to_fields(1))
  have d: "cs_depth (switch_to s) t = cs_depth s t" for t
    using switch_to_saved [OF sw] by (simp add: cs_depth_def switch_to_fields(1))
  have "threads_inv (switch_to s)"
    unfolding threads_inv_def
  proof (intro allI impI)
    fix t assume a: "state (thr (switch_to s) t) \<notin> {THREAD_SUSPENDED, THREAD_DEATH}"
    show "cs_depth (switch_to s) t = depth (frames (thr (switch_to s) t)) \<and> stack_ok (thr (switch_to s) t)"
    proof (cases "t = next_thread s")
      case True
      have "cs_depth s t = depth (frames (thr s t))" "stack_ok (thr s t)"
        using ob nr True by (simp_all add: objects_inv_def threads_inv_def)
      then show ?thesis using True nr nr' by (simp add: d F stack_ok_def)
    next
      case False
      then have "cs_depth s t = depth (frames (thr s t))" "stack_ok (thr s t)"
        using ob a st by (simp_all add: objects_inv_def threads_inv_def)
      then show ?thesis using st [OF False] by (simp add: d F stack_ok_def cong: thread_state.case_cong)
    qed
  qed
  moreover have sl: "state (thr (switch_to s) t) = THREAD_SLEEPING \<longleftrightarrow> state (thr s t) = THREAD_SLEEPING" for t
    using st [of t] nr nr' by (cases "t = next_thread s") auto
  have "timers_inv (switch_to s)"
    using ob same timers_ok_cong [of "switch_to s" s]
    by (simp add: objects_inv_def timers_inv_def same_objects_def sl)
  moreover have "mutexes_inv (switch_to s)"
    using ob same handed_switch [OF sw] by (simp add: objects_inv_def mutexes_inv_def mutex_inv_def same_objects_def)
  moreover have "events_inv (switch_to s)"
    using ob same by (simp add: objects_inv_def events_inv_def same_objects_def)
  moreover have "ints_enabled (switch_to s) \<longleftrightarrow> critical_section_count (switch_to s) = 0"
    using ob same cs by (simp add: objects_inv_def same_objects_def)
  ultimately show ?thesis by (simp add: objects_inv_def)
qed

lemma mid_inv_switch: "switch_ok s \<Longrightarrow> objects_inv s \<Longrightarrow> mid_inv (switch_to s)"
  by (simp add: mid_inv_def switch_to_ok(1) objects_inv_switch)

subsection \<open>Returning to the thread's own code keeps the invariant\<close>

lemma kernel_inv_leave:
  assumes inv: "mid_inv s" and thr: "thr s' = (thr s)(current_thread s := (cur s)\<lparr>frames := [], ret := r\<rparr>)"
    and same: "current_thread s' = current_thread s" "lists s' = lists s" "run_queue_bitmap s' = run_queue_bitmap s"
      "wait_queues s' = wait_queues s" "timers s' = timers s" "timer_queue s' = timer_queue s" "events s' = events s"
    and cs: "critical_section_count s' = 0" "ints_enabled s'" and mx: "mutexes_inv s'"
  shows "kernel_inv s'"
proof -
  let ?c = "current_thread s"
  have ok: "sched_ok s" and ob: "objects_inv s" using inv by (simp_all add: mid_inv_def)
  have "sched_ok (upd_thr ?c (\<lambda>x. x\<lparr>frames := [], ret := r\<rparr>) s)"
    using ok by (rule sched_ok_keep) (simp add: keeps_queue_def)
  then have sch: "sched_ok s'" by (rule sched_ok_cong) (simp_all add: thr same)
  have st: "state (thr s' t) = state (thr s t)" for t by (simp add: thr)
  have "threads_inv s'"
    using ob cs(1) sched_okD(1) [OF ok]
    by (auto simp: objects_inv_def threads_inv_def thr same(1) cs_depth_def stack_ok_def)
  moreover have "timers_inv s'"
    using ob same(5,6) timers_ok_cong [of s' s] by (simp add: objects_inv_def timers_inv_def st)
  moreover have "events_inv s'" using ob same by (simp add: objects_inv_def events_inv_def)
  ultimately show ?thesis
    using sch cs mx by (simp add: kernel_inv_def mid_inv_def objects_inv_def thr same(1))
qed

text \<open>When the current thread's stack is none of a mutex wait, it was handed no mutex.\<close>

lemma mutexes_inv_leave:
  assumes "mutexes_inv s" and "\<And>m. frames (cur s) \<noteq> wait_stack (MutexWait m)"
    and "thr s' = (thr s)(current_thread s := (cur s)\<lparr>frames := [], ret := r\<rparr>)"
    and "lists s' = lists s" "wait_queues s' = wait_queues s" "mutexes s' = mutexes s"
  shows "mutexes_inv s'"
proof -
  have "handed m s' = handed m s" for m
    using assms(2,3) by (auto simp: handed_def split: if_splits)
  then show ?thesis using assms by (simp add: mutexes_inv_def mutex_inv_def)
qed

lemma set_ret_simps [simp]:
  "thr (set_ret r s) = (thr s)(current_thread s := (cur s)\<lparr>ret := r\<rparr>)"
  "thread_list (set_ret r s) = thread_list s"
  "current_thread (set_ret r s) = current_thread s"
  "idle_thread (set_ret r s) = idle_thread s"
  "critical_section_count (set_ret r s) = critical_section_count s"
  "ints_enabled (set_ret r s) = ints_enabled s"
  "lists (set_ret r s) = lists s"
  "run_queue_bitmap (set_ret r s) = run_queue_bitmap s"
  "wait_queues (set_ret r s) = wait_queues s"
  "timers (set_ret r s) = timers s"
  "timer_queue (set_ret r s) = timer_queue s"
  "ticks (set_ret r s) = ticks s"
  "mutexes (set_ret r s) = mutexes s"
  "events (set_ret r s) = events s"
  "dpc_list (set_ret r s) = dpc_list s"
  by (simp_all add: set_ret_def upd_cur_def)

lemma ints_enabled_exit [simp]:
  "ints_enabled (exit_critical_section s) \<longleftrightarrow> ints_enabled s \<or> critical_section_count s = 1"
  by (simp add: exit_critical_section_def Let_def)

lemma ints_enabled_enter [simp]:
  "ints_enabled (enter_critical_section s) \<longleftrightarrow> ints_enabled s \<and> critical_section_count s \<noteq> 0"
  by (simp add: enter_critical_section_def Let_def)

text \<open>What the continuations of a plain stack do to the state.\<close>

lemma run_plain_stack:
  assumes "plain_stack fs" and "critical_section_count s = depth fs"
  obtains s' r where "run_frames fs s = Some s'" "thr s' = (thr s)(current_thread s := (cur s)\<lparr>ret := r\<rparr>)"
    "current_thread s' = current_thread s" "lists s' = lists s" "run_queue_bitmap s' = run_queue_bitmap s"
    "wait_queues s' = wait_queues s" "timers s' = timers s" "timer_queue s' = timer_queue s"
    "events s' = events s" "mutexes s' = mutexes s" "critical_section_count s' = 0" "ints_enabled s'"
    "ticks s' = ticks s" "dpc_list s' = dpc_list s"
proof -
  have id: "(thr s)(current_thread s := (cur s)\<lparr>ret := ret (cur s)\<rparr>) = thr s" by simp
  have "fs = [Initial_thread_func] \<or> fs = [After_resched] \<or> fs = [After_wake_in_mutex_release] \<or>
      fs = [After_wake_all_in_event_signal] \<or> fs = [After_resched, After_preempt_in_irq] \<or>
      (\<exists>e. fs = [After_wake_one_in_event_signal e])"
    using assms(1) by (auto simp: plain_stack_def)
  then show ?thesis
    apply (elim disjE exE)
    subgoal using that [of "exit_critical_section s" "ret (cur s)"] assms(2) by (simp add: id)
    subgoal using that [of "exit_critical_section s" "ret (cur s)"] assms(2) by (simp add: id)
    subgoal using that [of "set_ret NO_ERROR (exit_critical_section s)" NO_ERROR] assms(2)
      by (simp add: mutex_release_end_def)
    subgoal using that [of "set_ret NO_ERROR (exit_critical_section s)" NO_ERROR] assms(2)
      by (simp add: event_signal_end_def)
    subgoal using that [of "(dec_critical_section (exit_critical_section s))\<lparr>ints_enabled := True\<rparr>" "ret (cur s)"] assms(2)
      by (simp add: dec_critical_section_def id)
    subgoal using that [of "set_ret NO_ERROR (exit_critical_section s)" NO_ERROR] assms(2)
      by (simp add: event_signal_woke_def event_signal_end_def)
    done
qed

lemma run_wait_stack:
  assumes "critical_section_count s = depth (wait_stack w)" and "wait_queue_block_ret (cur s) = NO_ERROR"
  obtains s' where "run_frames (wait_stack w) s = Some s'"
    "thr s' = (thr s)(current_thread s := (cur s)\<lparr>ret := NO_ERROR\<rparr>)"
    "current_thread s' = current_thread s" "lists s' = lists s" "run_queue_bitmap s' = run_queue_bitmap s"
    "wait_queues s' = wait_queues s" "timers s' = timers s" "timer_queue s' = timer_queue s"
    "events s' = events s" "critical_section_count s' = 0" "ints_enabled s'"
    "ticks s' = ticks s" "dpc_list s' = dpc_list s"
    "mutexes s' = (case w of MutexWait m \<Rightarrow> (mutexes s)(m := (mutexes s m)\<lparr>holder := Some (current_thread s)\<rparr>)
       | EventWait _ \<Rightarrow> mutexes s)"
proof (cases w)
  case (MutexWait m)
  then show ?thesis
    using that assms by (simp add: wait_queue_block_end_def mutex_acquire_end_def Let_def NO_ERROR_def)
next
  case (EventWait e)
  then show ?thesis
    using that assms by (simp add: wait_queue_block_end_def event_wait_end_def Let_def)
qed

lemma mutexes_inv_handover:
  assumes inv: "mutexes_inv s" and st: "state (cur s) = THREAD_RUNNING"
    and fs: "frames (cur s) = wait_stack (MutexWait m)"
    and s': "thr s' = (thr s)(current_thread s := (cur s)\<lparr>frames := [], ret := r\<rparr>)" "lists s' = lists s"
      "wait_queues s' = wait_queues s"
      "mutexes s' = (mutexes s)(m := (mutexes s m)\<lparr>holder := Some (current_thread s)\<rparr>)"
  shows "mutexes_inv s'"
proof -
  let ?c = "current_thread s"
  have c: "?c \<in> handed m s" using st fs by (simp add: handed_def)
  have mg: "mx_magic (mutexes s m) = MUTEX_MAGIC" using inv c by (auto simp: mutexes_inv_def)
  then have "mutex_inv m s" using inv by (simp add: mutexes_inv_def)
  then have h: "handed m s = {?c}" and n: "mx_count (mutexes s m) = 1 + int (length (lists s (WaitQ (MutexWait m))))"
    and w: "wq_magic (wait_queues s (MutexWait m)) = WAIT_QUEUE_MAGIC"
    using c by (auto simp: mutex_inv_def)
  have "handed k s' = handed k s - {?c}" for k by (auto simp: handed_def s'(1))
  moreover have "?c \<notin> handed k s" if "k \<noteq> m" for k using fs that by (simp add: handed_def)
  ultimately have hk: "handed k s' = (if k = m then {} else handed k s)" for k using h by auto
  have "mutex_inv m s'" using n w s' by (simp add: mutex_inv_def hk)
  then show ?thesis using inv mg s' by (simp add: mutexes_inv_def mutex_inv_def hk)
qed

lemma kernel_return_ok:
  assumes inv: "mid_inv s"
  obtains s' where "kernel_return s = Some s'" "kernel_inv s'" "current_thread s' = current_thread s" "ticks s' = ticks s"
proof -
  let ?c = "current_thread s" and ?s = "upd_cur (\<lambda>x. x\<lparr>frames := []\<rparr>) s"
  have ok: "sched_ok s" and ob: "objects_inv s" using inv by (simp_all add: mid_inv_def)
  have run: "state (cur s) = THREAD_RUNNING" using ok by (rule sched_okD(1))
  have d: "critical_section_count s = depth (frames (cur s))" and so: "stack_ok (cur s)"
    and mx: "mutexes_inv s"
    using ob run by (auto simp: objects_inv_def threads_inv_def cs_depth_def dest: spec [of _ ?c])
  consider "frames (cur s) = []" | "plain_stack (frames (cur s))"
    | w where "frames (cur s) = wait_stack w" "wait_queue_block_ret (cur s) = NO_ERROR"
    using so run by (auto simp: stack_ok_def)
  then show ?thesis
  proof cases
    case 1
    then have "?s = s" by (simp add: upd_cur_def upd_thr_def frames_nil_id)
    then show ?thesis using that [of s] inv 1 by (simp add: kernel_return_def kernel_inv_def)
  next
    case 2
    obtain s' r where r: "run_frames (frames (cur s)) ?s = Some s'"
      "thr s' = (thr ?s)(?c := (cur ?s)\<lparr>ret := r\<rparr>)" "current_thread s' = ?c" "lists s' = lists s"
      "run_queue_bitmap s' = run_queue_bitmap s" "wait_queues s' = wait_queues s" "timers s' = timers s"
      "timer_queue s' = timer_queue s" "events s' = events s" "mutexes s' = mutexes s"
      "critical_section_count s' = 0" "ints_enabled s'" "ticks s' = ticks s"
      by (rule run_plain_stack [OF 2, of ?s]) (use d in simp_all)
    then have t: "thr s' = (thr s)(?c := (cur s)\<lparr>frames := [], ret := r\<rparr>)" by simp
    have "frames (cur s) \<noteq> wait_stack (MutexWait m)" for m using 2 by (auto simp: plain_stack_def)
    then have "mutexes_inv s'" using mutexes_inv_leave [OF mx] t r by blast
    then have "kernel_inv s'" using kernel_inv_leave [OF inv t] r by blast
    then show ?thesis using that r by (simp add: kernel_return_def)
  next
    case (3 w)
    obtain s' where r: "run_frames (wait_stack w) ?s = Some s'"
      "thr s' = (thr ?s)(?c := (cur ?s)\<lparr>ret := NO_ERROR\<rparr>)" "current_thread s' = ?c" "lists s' = lists s"
      "run_queue_bitmap s' = run_queue_bitmap s" "wait_queues s' = wait_queues s" "timers s' = timers s"
      "timer_queue s' = timer_queue s" "events s' = events s" "critical_section_count s' = 0" "ints_enabled s'"
      "ticks s' = ticks s"
      "mutexes s' = (case w of MutexWait m \<Rightarrow> (mutexes s)(m := (mutexes s m)\<lparr>holder := Some ?c\<rparr>)
         | EventWait _ \<Rightarrow> mutexes s)"
      by (rule run_wait_stack [of ?s w]) (use d 3 in \<open>simp_all cong: wq_addr.case_cong\<close>)
    then have t: "thr s' = (thr s)(?c := (cur s)\<lparr>frames := [], ret := NO_ERROR\<rparr>)" by simp
    have "mutexes_inv s'"
    proof (cases w)
      case (MutexWait m)
      then show ?thesis using mutexes_inv_handover [OF mx run, of m s'] 3(1) t r by simp
    next
      case (EventWait e)
      then have "frames (cur s) \<noteq> wait_stack (MutexWait m)" for m using 3 by simp
      then show ?thesis using mutexes_inv_leave [OF mx] t r EventWait by simp
    qed
    then have "kernel_inv s'" using kernel_inv_leave [OF inv t] r by blast
    then show ?thesis using that r 3(1) by (simp add: kernel_return_def)
  qed
qed

subsection \<open>The state in which the current thread is in no kernel call\<close>

text \<open>As \<open>kernel_inv\<close>, at any critical-section depth: the calls and the interrupt
  handler start from such a state once they have entered their critical section.\<close>

definition user_inv :: "kstate \<Rightarrow> bool" where
  "user_inv s \<longleftrightarrow> sched_ok s \<and> frames (cur s) = [] \<and> timers_inv s \<and> mutexes_inv s \<and> events_inv s \<and>
     (\<forall>t. t \<noteq> current_thread s \<and> state (thr s t) \<notin> {THREAD_SUSPENDED, THREAD_DEATH} \<longrightarrow>
        saved_critical_section_count (thr s t) = depth (frames (thr s t)) \<and> stack_ok (thr s t))"

lemma threads_inv_split:
  assumes "sched_ok s" and "frames (cur s) = []"
  shows "threads_inv s \<longleftrightarrow> critical_section_count s = 0 \<and>
    (\<forall>t. t \<noteq> current_thread s \<and> state (thr s t) \<notin> {THREAD_SUSPENDED, THREAD_DEATH} \<longrightarrow>
      saved_critical_section_count (thr s t) = depth (frames (thr s t)) \<and> stack_ok (thr s t))"
proof -
  have "state (cur s) = THREAD_RUNNING" using assms(1) by (rule sched_okD(1))
  then have c: "(state (cur s) \<notin> {THREAD_SUSPENDED, THREAD_DEATH} \<longrightarrow>
      cs_depth s (current_thread s) = depth (frames (cur s)) \<and> stack_ok (cur s)) \<longleftrightarrow> critical_section_count s = 0"
    using assms(2) by (simp add: cs_depth_def stack_ok_def)
  have o: "cs_depth s t = saved_critical_section_count (thr s t)" if "t \<noteq> current_thread s" for t
    using that by (simp add: cs_depth_def)
  show ?thesis unfolding threads_inv_def using c o by metis
qed

lemma kernel_inv_iff: "kernel_inv s \<longleftrightarrow> user_inv s \<and> critical_section_count s = 0 \<and> ints_enabled s"
proof
  assume k: "kernel_inv s"
  note D = kernel_invD [OF k]
  show "user_inv s \<and> critical_section_count s = 0 \<and> ints_enabled s"
    unfolding user_inv_def using D threads_inv_split [OF D(1,3)] by blast
next
  assume u: "user_inv s \<and> critical_section_count s = 0 \<and> ints_enabled s"
  then have s: "sched_ok s" "frames (cur s) = []" by (simp_all add: user_inv_def)
  have "threads_inv s" unfolding threads_inv_split [OF s] using u unfolding user_inv_def by blast
  then show "kernel_inv s" using u by (simp add: user_inv_def kernel_inv_def mid_inv_def objects_inv_def)
qed

lemma user_inv_cong:
  assumes u: "user_inv s" and eq: "thr s' = thr s" "lists s' = lists s" "run_queue_bitmap s' = run_queue_bitmap s"
    "wait_queues s' = wait_queues s" "current_thread s' = current_thread s" "timers s' = timers s"
    "timer_queue s' = timer_queue s" "mutexes s' = mutexes s" "events s' = events s"
  shows "user_inv s'"
proof -
  have "sched_ok s" using u by (simp add: user_inv_def)
  then have "sched_ok s'" by (rule sched_ok_cong) (simp_all add: eq)
  moreover have "timers_inv s' = timers_inv s"
    unfolding timers_inv_def timers_ok_def eq by (rule refl)
  moreover have "mutexes_inv s' = mutexes_inv s"
    unfolding mutexes_inv_def mutex_inv_def handed_def eq by (rule refl)
  moreover have "events_inv s' = events_inv s" unfolding events_inv_def eq by (rule refl)
  ultimately show ?thesis using u unfolding user_inv_def eq by blast
qed

lemma user_inv_enter [simp]: "user_inv s \<Longrightarrow> user_inv (enter_critical_section s)"
  by (erule user_inv_cong) simp_all

lemma user_inv_upd_stats [simp]: "user_inv s \<Longrightarrow> user_inv (upd_stats f s)"
  by (erule user_inv_cong) simp_all

lemma user_inv_inc: "user_inv s \<Longrightarrow> user_inv (inc_critical_section (s\<lparr>ints_enabled := b\<rparr>))"
  by (erule user_inv_cong) (simp_all add: inc_critical_section_def)

lemma user_invD:
  assumes "user_inv s"
  shows "sched_ok s" "frames (cur s) = []" "timers_inv s" "mutexes_inv s" "events_inv s" "timers_ok s"
  using assms by (simp_all add: user_inv_def timers_inv_def)

text \<open>Changing a field of the current thread that no invariant mentions.\<close>

lemma user_inv_cur:
  assumes u: "user_inv s" and f: "keeps_queue f (cur s)" "frames (f (cur s)) = frames (cur s)"
  shows "user_inv (upd_cur f s)"
proof -
  note D = user_invD [OF u]
  let ?s = "upd_cur f s"
  have st: "state (f (cur s)) = state (cur s)" using f(1) by (simp add: keeps_queue_def)
  have "sched_ok ?s" unfolding upd_cur_def using D(1) f(1) by (rule sched_ok_keep)
  moreover have h: "handed m ?s = handed m s" for m by (auto simp: handed_def f st)
  moreover have "timers_inv ?s" using D(3) timers_ok_cong [of ?s s] st by (simp add: timers_inv_def)
  moreover have "mutexes_inv ?s" using D(4) by (simp add: mutexes_inv_def mutex_inv_def h)
  moreover have "events_inv ?s" using D(5) by (simp add: events_inv_def)
  moreover have "thr ?s t = thr s t" if "t \<noteq> current_thread s" for t using that by simp
  then have "\<forall>t. t \<noteq> current_thread ?s \<and> state (thr ?s t) \<notin> {THREAD_SUSPENDED, THREAD_DEATH} \<longrightarrow>
      saved_critical_section_count (thr ?s t) = depth (frames (thr ?s t)) \<and> stack_ok (thr ?s t)"
    using u unfolding user_inv_def by (metis upd_cur_fields(2))
  moreover have "frames (cur ?s) = []" using D(2) f(2) by simp
  ultimately show ?thesis unfolding user_inv_def by (intro conjI)
qed

lemma user_inv_not_handed: "user_inv s \<Longrightarrow> current_thread s \<notin> handed m s"
  by (simp add: user_inv_def handed_def)

text \<open>The other threads keep their stacks; a waiter may have been woken.\<close>

definition same_stack :: "thread \<Rightarrow> thread \<Rightarrow> bool" where
  "same_stack x y \<longleftrightarrow> frames y = frames x \<and>
     saved_critical_section_count y = saved_critical_section_count x \<and>
     (state y = state x \<and> blocking_wait_queue y = blocking_wait_queue x \<and> wait_queue_block_ret y = wait_queue_block_ret x \<or>
      state x = THREAD_BLOCKED \<and> state y = THREAD_READY \<and> wait_queue_block_ret y = NO_ERROR \<or>
      state x = THREAD_SLEEPING \<and> state y = THREAD_READY)"

lemma same_stack_refl [simp]: "same_stack x x"
  by (simp add: same_stack_def)

lemma same_stack_ok:
  assumes "same_stack x y" and "stack_ok x"
  shows "stack_ok y"
proof -
  consider "state y = state x" "blocking_wait_queue y = blocking_wait_queue x"
      "wait_queue_block_ret y = wait_queue_block_ret x" "frames y = frames x"
    | "state x = THREAD_BLOCKED" "state y = THREAD_READY" "wait_queue_block_ret y = NO_ERROR" "frames y = frames x"
    | "state x = THREAD_SLEEPING" "state y = THREAD_READY" "frames y = frames x"
    using assms(1) unfolding same_stack_def by blast
  then show ?thesis
  proof cases
    case 1
    then show ?thesis using assms(2) by (simp add: stack_ok_def cong: thread_state.case_cong)
  next
    case 2
    then show ?thesis using assms(2) by (auto simp: stack_ok_def)
  next
    case 3
    then show ?thesis using assms(2) by (simp add: stack_ok_def plain_stack_def)
  qed
qed

lemma threads_invI:
  assumes u: "user_inv s" and c: "current_thread z = current_thread s"
    and o: "\<And>t. t \<noteq> current_thread s \<Longrightarrow> same_stack (thr s t) (thr z t)"
    and d: "critical_section_count z = depth (frames (cur z))" and so: "stack_ok (cur z)"
  shows "threads_inv z"
  unfolding threads_inv_def
proof (intro allI impI)
  fix t assume a: "state (thr z t) \<notin> {THREAD_SUSPENDED, THREAD_DEATH}"
  show "cs_depth z t = depth (frames (thr z t)) \<and> stack_ok (thr z t)"
  proof (cases "t = current_thread s")
    case True
    then show ?thesis using d so c by (simp add: cs_depth_def)
  next
    case False
    note ss = o [OF False]
    have "state (thr s t) \<notin> {THREAD_SUSPENDED, THREAD_DEATH}" using ss a by (auto simp: same_stack_def)
    then have "saved_critical_section_count (thr s t) = depth (frames (thr s t))" "stack_ok (thr s t)"
      using u False unfolding user_inv_def by blast+
    then show ?thesis using ss same_stack_ok [OF ss] False c by (simp add: cs_depth_def same_stack_def)
  qed
qed

text \<open>The current thread becomes READY, with its continuation on its stack.\<close>

lemma objects_inv_give_up:
  assumes u: "user_inv s" and thr: "thr z = (thr s)(current_thread s := x)"
    and x: "state x = THREAD_READY" "plain_stack (frames x)"
    and same: "current_thread z = current_thread s" "\<And>w. lists z (WaitQ w) = lists s (WaitQ w)"
      "wait_queues z = wait_queues s" "timers z = timers s" "timer_queue z = timer_queue s" "mutexes z = mutexes s"
      "events z = events s"
    and cs: "critical_section_count z = depth (frames x)" "critical_section_count z > 0" "\<not> ints_enabled z"
  shows "objects_inv z"
proof -
  let ?c = "current_thread s"
  note D = user_invD [OF u]
  have run: "state (cur s) = THREAD_RUNNING" using D(1) by (rule sched_okD(1))
  have "threads_inv z"
    by (rule threads_invI [OF u]) (use x cs(1) in \<open>simp_all add: thr same(1) stack_ok_def\<close>)
  moreover have "state (thr z t) = THREAD_SLEEPING \<longleftrightarrow> state (thr s t) = THREAD_SLEEPING" for t
    using x(1) run by (simp add: thr)
  then have "timers_inv z"
    using D(3) same(4,5) timers_ok_cong [of z s] by (simp add: timers_inv_def)
  moreover have "frames x \<noteq> wait_stack (MutexWait m)" for m using x(2) by (auto simp: plain_stack_def)
  then have "handed m z = handed m s" for m
    using user_inv_not_handed [OF u, of m] by (auto simp: handed_def thr split: if_splits)
  then have "mutexes_inv z"
    using D(4) same by (simp add: mutexes_inv_def mutex_inv_def)
  moreover have "events_inv z" using D(5) same by (simp add: events_inv_def)
  ultimately show ?thesis using cs by (simp add: objects_inv_def)
qed

text \<open>Yielding and preemption.\<close>

lemma objects_inv_requeued:
  assumes "user_inv s" and "critical_section_count s = depth fs" "critical_section_count s > 0" "\<not> ints_enabled s"
    and "plain_stack fs"
  shows "objects_inv (push_frames fs (requeued h k s))"
proof (rule objects_inv_give_up [OF assms(1)])
  let ?x = "(cur s)\<lparr>state := THREAD_READY, remaining_quantum := k (cur s),
    queue_node := Some (RunQ (nat (priority (cur s)))), frames := fs\<rparr>"
  show "thr (push_frames fs (requeued h k s)) = (thr s)(current_thread s := ?x)"
    using user_invD(2) [OF assms(1)] by (simp add: push_frames_def requeued_def)
  show "state ?x = THREAD_READY" "plain_stack (frames ?x)" using assms(5) by simp_all
qed (use assms in \<open>simp_all add: requeued_def push_frames_def\<close>)

lemma thread_yield_mid:
  assumes "kernel_inv s"
  obtains s' where "thread_yield s = Some s'" "mid_inv s'"
proof -
  let ?e = "upd_stats (\<lambda>x. x\<lparr>yields := yields x + 1\<rparr>) (enter_critical_section s)"
  let ?z = "push_frame After_resched (requeued False (\<lambda>_. 0) ?e)"
  have u: "user_inv s" and cs: "critical_section_count s = 0" using assms by (simp_all add: kernel_inv_iff)
  have "objects_inv ?z"
    using u cs by (intro objects_inv_requeued) (simp_all add: plain_stack_def)
  moreover have "switch_ok ?z" using user_invD(1) [OF u] cs by (intro switch_ok_requeued) simp_all
  ultimately show ?thesis
    using that thread_yield_eq [OF user_invD(1) [OF u]] cs mid_inv_switch by simp
qed

text \<open>Sleeping.\<close>

lemma thread_sleep_mid:
  assumes "kernel_inv s" and ne: "current_thread s \<noteq> bootstrap_thread"
  obtains s' where "thread_sleep delay s = Some s'" "mid_inv s'"
proof -
  let ?c = "current_thread s" and ?tm = "SleepTimer (current_thread s)" and ?e = "enter_critical_section s"
  have u: "user_inv s" and cs: "critical_section_count s = 0" "ints_enabled s" using assms(1) by (simp_all add: kernel_inv_iff)
  note D = user_invD [OF u]
  have run: "state (cur s) = THREAD_RUNNING" using D(1) by (rule sched_okD(1))
  have tmr: "timers_ok ?e" "?tm \<notin> set (timer_queue ?e)"
    using D(3) run timers_ok_cong [of ?e s] by (simp_all add: timers_inv_def)
  obtain y where y: "timer_set_oneshot ?tm delay Thread_sleep_handler ?c (timer_initialize ?tm ?e) = Some y" "timers_ok y"
    "set (timer_queue y) = insert ?tm (set (timer_queue ?e))"
    "callback (timers y ?tm) = Some Thread_sleep_handler" "tm_arg (timers y ?tm) = ?c" "periodic_time (timers y ?tm) = 0"
    "\<And>x. x \<noteq> ?tm \<Longrightarrow> timers y x = timers ?e x"
    "thr y = thr ?e" "lists y = lists ?e" "run_queue_bitmap y = run_queue_bitmap ?e"
    "wait_queues y = wait_queues ?e" "current_thread y = current_thread ?e"
    "critical_section_count y = critical_section_count ?e" "mutexes y = mutexes ?e" "events y = events ?e"
    by (rule arm_timer [OF tmr, of delay Thread_sleep_handler ?c]) blast
  let ?z = "push_frame After_resched (upd_cur (\<lambda>x. x\<lparr>state := THREAD_SLEEPING\<rparr>) y)"
  have oky: "sched_ok y" using sched_ok_enter [OF D(1)] by (rule sched_ok_cong) (simp_all add: y)
  have sw: "switch_ok ?z"
    using oky ne cs by (intro ok_push_frames switch_ok_stop) (simp_all add: y)
  have thr: "thr ?z = (thr s)(?c := (cur s)\<lparr>state := THREAD_SLEEPING, frames := [After_resched]\<rparr>)"
    using D(2) by (simp add: push_frames_def y)
  have i: "\<not> ints_enabled y"
    using y(1) cs by (auto simp: timer_set_oneshot_def timer_set_def Let_def insert_timer_in_queue_def
        timer_initialize_def)
  have "threads_inv ?z"
    by (rule threads_invI [OF u]) (simp_all add: thr y cs stack_ok_def)
  moreover have "timers_inv ?z"
  proof -
    have q: "set (timer_queue ?z) = insert ?tm (set (timer_queue s))" by (simp add: y)
    have a: "callback (timers ?z (SleepTimer v)) = Some Thread_sleep_handler \<and>
        tm_arg (timers ?z (SleepTimer v)) = v \<and> periodic_time (timers ?z (SleepTimer v)) = 0"
      if "SleepTimer v \<in> set (timer_queue ?z)" for v
    proof (cases "v = ?c")
      case True
      then show ?thesis using y(4-6) by simp
    next
      case False
      then have "timers ?z (SleepTimer v) = timers s (SleepTimer v)" using y(7) [of "SleepTimer v"] by simp
      moreover have "SleepTimer v \<in> set (timer_queue s)" using that q False by simp
      ultimately show ?thesis using D(3) by (simp add: timers_inv_def)
    qed
    have "timers_ok ?z" using y(2) timers_ok_cong [of ?z y] by simp
    moreover have "\<forall>tm\<in>set (timer_queue ?z). \<exists>t. tm = SleepTimer t"
      using D(3) unfolding q by (auto simp: timers_inv_def)
    moreover have "SleepTimer v \<in> set (timer_queue ?z) \<longleftrightarrow> state (thr ?z v) = THREAD_SLEEPING" for v
      using D(3) unfolding q thr by (simp add: timers_inv_def)
    ultimately show ?thesis using a unfolding timers_inv_def by blast
  qed
  moreover have "handed m ?z = handed m s" for m
    using user_inv_not_handed [OF u, of m] by (auto simp: handed_def thr)
  then have "mutexes_inv ?z" using D(4) by (simp add: mutexes_inv_def mutex_inv_def y)
  moreover have "events_inv ?z" using D(5) by (simp add: events_inv_def y)
  ultimately have "objects_inv ?z" using i cs by (simp add: objects_inv_def y)
  moreover have "thread_sleep delay s = Some (switch_to ?z)"
  proof -
    have c: "enter_critical_section (timer_initialize ?tm s) = timer_initialize ?tm ?e"
      by (simp add: enter_critical_section_def timer_initialize_def upd_timer_def Let_def)
    have "current_thread (timer_initialize ?tm s) = ?c" by (simp add: timer_initialize_def)
    then show ?thesis
      using y(1) c run sched_okD(2) [OF D(1)] thread_resched_eq [OF sw] by (simp add: thread_sleep_def Let_def)
  qed
  ultimately show ?thesis using that mid_inv_switch [OF sw] by blast
qed

subsection \<open>Waking waiters\<close>

text \<open>The threads in \<open>W\<close>, blocked on \<open>w\<close>, have been made READY.\<close>

definition woken :: "wq_addr \<Rightarrow> tid set \<Rightarrow> kstate \<Rightarrow> kstate \<Rightarrow> bool" where
  "woken w W s z \<longleftrightarrow> current_thread z = current_thread s \<and> current_thread s \<notin> W \<and>
     (\<forall>t. t \<noteq> current_thread s \<longrightarrow>
       (if t \<in> W then state (thr s t) = THREAD_BLOCKED \<and> blocking_wait_queue (thr s t) = Some w \<and>
          state (thr z t) = THREAD_READY \<and> frames (thr z t) = frames (thr s t) \<and>
          saved_critical_section_count (thr z t) = saved_critical_section_count (thr s t) \<and>
          wait_queue_block_ret (thr z t) = NO_ERROR
        else thr z t = thr s t))"

lemma wokenD:
  assumes "woken w W s z" and "t \<in> W"
  shows "t \<noteq> current_thread s" "state (thr s t) = THREAD_BLOCKED" "blocking_wait_queue (thr s t) = Some w"
    "state (thr z t) = THREAD_READY" "frames (thr z t) = frames (thr s t)"
proof -
  show ne: "t \<noteq> current_thread s" using assms by (auto simp: woken_def)
  have "if t \<in> W then state (thr s t) = THREAD_BLOCKED \<and> blocking_wait_queue (thr s t) = Some w \<and>
      state (thr z t) = THREAD_READY \<and> frames (thr z t) = frames (thr s t) \<and>
      saved_critical_section_count (thr z t) = saved_critical_section_count (thr s t) \<and>
      wait_queue_block_ret (thr z t) = NO_ERROR else thr z t = thr s t"
    using assms(1) ne unfolding woken_def by blast
  then show "state (thr s t) = THREAD_BLOCKED" "blocking_wait_queue (thr s t) = Some w"
    "state (thr z t) = THREAD_READY" "frames (thr z t) = frames (thr s t)" using assms(2) by simp_all
qed

lemma woken_same_stack: "woken w W s z \<Longrightarrow> t \<noteq> current_thread s \<Longrightarrow> same_stack (thr s t) (thr z t)"
  by (cases "t \<in> W") (simp_all add: woken_def same_stack_def)

lemma woken_sleeping:
  assumes "woken w W s z" and "t \<noteq> current_thread s"
  shows "state (thr z t) = THREAD_SLEEPING \<longleftrightarrow> state (thr s t) = THREAD_SLEEPING"
  using assms by (cases "t \<in> W") (simp_all add: woken_def)

lemma handed_woken:
  assumes u: "user_inv s" and w: "woken w W s z" and c: "frames (cur z) \<noteq> wait_stack (MutexWait m)"
  shows "handed m z = handed m s \<union> (if w = MutexWait m then W else {})"
proof (intro set_eqI)
  fix t
  show "t \<in> handed m z \<longleftrightarrow> t \<in> handed m s \<union> (if w = MutexWait m then W else {})"
  proof (cases "t \<in> W")
    case True
    then have ne: "t \<noteq> current_thread s" and b: "state (thr s t) = THREAD_BLOCKED" "blocking_wait_queue (thr s t) = Some w"
      and z: "state (thr z t) = THREAD_READY" "frames (thr z t) = frames (thr s t)"
      using wokenD [OF w True] by simp_all
    have "stack_ok (thr s t)" using u ne b unfolding user_inv_def by auto
    then have "frames (thr s t) = wait_stack w" using b by (simp add: stack_ok_def)
    then show ?thesis using True z b by (cases w) (auto simp: handed_def)
  next
    case False
    show ?thesis
    proof (cases "t = current_thread s")
      case True
      then show ?thesis
        using False c w user_inv_not_handed [OF u, of m] by (auto simp: handed_def woken_def)
    next
      case ne: False
      then show ?thesis using False w by (auto simp: handed_def woken_def)
    qed
  qed
qed

lemma timers_inv_woken:
  assumes u: "user_inv s" and w: "woken w W s z" and same: "timers z = timers s" "timer_queue z = timer_queue s"
    and c: "state (cur z) \<noteq> THREAD_SLEEPING"
  shows "timers_inv z"
proof -
  have run: "state (cur s) = THREAD_RUNNING" using user_invD(1) [OF u] by (rule sched_okD(1))
  have "state (thr z t) = THREAD_SLEEPING \<longleftrightarrow> state (thr s t) = THREAD_SLEEPING" for t
    using woken_sleeping [OF w, of t] c run w by (cases "t = current_thread s") (simp_all add: woken_def)
  then show ?thesis
    using user_invD(3) [OF u] same timers_ok_cong [of z s] by (simp add: timers_inv_def)
qed

text \<open>The waking thread gives up the processor, or keeps it.\<close>

lemma objects_inv_woken:
  assumes u: "user_inv s" and w: "woken w W s z"
    and c: "state (cur z) = THREAD_READY" "plain_stack (frames (cur z))"
    and same: "timers z = timers s" "timer_queue z = timer_queue s"
    and cs: "critical_section_count z = depth (frames (cur z))" "critical_section_count z > 0" "\<not> ints_enabled z"
    and inv: "mutexes_inv z" "events_inv z"
  shows "objects_inv z"
proof -
  have cz: "current_thread z = current_thread s" using w by (simp add: woken_def)
  have "threads_inv z"
    using cz woken_same_stack [OF w] cs(1) c by (intro threads_invI [OF u]) (simp_all add: stack_ok_def)
  moreover have "timers_inv z" using u w same c(1) by (intro timers_inv_woken) simp_all
  ultimately show ?thesis using inv cs by (simp add: objects_inv_def)
qed

lemma user_inv_woken:
  assumes u: "user_inv s" and w: "woken w W s z" and sch: "sched_ok z" and c: "frames (cur z) = []"
    and same: "timers z = timers s" "timer_queue z = timer_queue s" and inv: "mutexes_inv z" "events_inv z"
  shows "user_inv z"
proof -
  have cz: "current_thread z = current_thread s" using w by (simp add: woken_def)
  have st: "state (cur z) = THREAD_RUNNING" using sch by (rule sched_okD(1))
  have tm: "timers_inv z" using u w same st by (intro timers_inv_woken) simp_all
  have "saved_critical_section_count (thr z t) = depth (frames (thr z t)) \<and> stack_ok (thr z t)"
    if t: "t \<noteq> current_thread z" "state (thr z t) \<notin> {THREAD_SUSPENDED, THREAD_DEATH}" for t
  proof -
    have ss: "same_stack (thr s t) (thr z t)" using woken_same_stack [OF w] t(1) cz by simp
    then have "state (thr s t) \<notin> {THREAD_SUSPENDED, THREAD_DEATH}" using t(2) by (auto simp: same_stack_def)
    then have "saved_critical_section_count (thr s t) = depth (frames (thr s t))" "stack_ok (thr s t)"
      using u t(1) unfolding user_inv_def cz by blast+
    then show ?thesis using ss same_stack_ok [OF ss] by (simp add: same_stack_def)
  qed
  then show ?thesis using sch c tm inv unfolding user_inv_def by blast
qed

subsection \<open>Blocking without a timeout\<close>

lemma objects_inv_block:
  assumes u: "user_inv s" and cz: "current_thread z = current_thread s"
    and thr: "\<And>t. t \<noteq> current_thread s \<Longrightarrow> thr z t = thr s t"
    and x: "state (cur z) = THREAD_BLOCKED" "blocking_wait_queue (cur z) = Some w" "frames (cur z) = wait_stack w"
      "wait_queue_block_ret (cur z) = NO_ERROR"
    and same: "timers z = timers s" "timer_queue z = timer_queue s"
    and cs: "critical_section_count z = depth (wait_stack w)" "\<not> ints_enabled z"
    and inv: "mutexes_inv z" "events_inv z"
  shows "objects_inv z"
proof -
  let ?c = "current_thread s"
  have run: "state (cur s) = THREAD_RUNNING" using user_invD(1) [OF u] by (rule sched_okD(1))
  have "threads_inv z"
    by (rule threads_invI [OF u cz]) (use thr x cs(1) in \<open>simp_all add: stack_ok_def\<close>)
  moreover have "state (thr z t) = THREAD_SLEEPING \<longleftrightarrow> state (thr s t) = THREAD_SLEEPING" for t
    using thr [of t] x(1) run cz by (cases "t = ?c") simp_all
  then have "timers_inv z"
    using user_invD(3) [OF u] same timers_ok_cong [of z s] by (simp add: timers_inv_def)
  moreover have "critical_section_count z > 0" using cs(1) by (cases w) simp_all
  ultimately show ?thesis using inv cs(2) by (simp add: objects_inv_def)
qed

text \<open>The state before the switch, for a call from \<open>s\<close> that has pushed \<open>f\<close> and
  changed only the objects.\<close>

lemma wait_queue_block_mid:
  assumes u: "user_inv s" and cs: "critical_section_count s = 0" and ne: "current_thread s \<noteq> bootstrap_thread"
    and y: "thr y = thr (push_frame f s)" "current_thread y = current_thread s" "lists y = lists s"
      "run_queue_bitmap y = run_queue_bitmap s" "wait_queues y = wait_queues s" "timers y = timers s"
      "timer_queue y = timer_queue s" "critical_section_count y = 1" "\<not> ints_enabled y"
    and magic: "wq_magic (wait_queues s w) = WAIT_QUEUE_MAGIC" and f: "wait_stack w = [After_resched, After_block_in_wait INFINITE_TIME, f]"
    and mx: "\<And>z. \<lbrakk>mutexes z = mutexes y; \<And>v. lists z (WaitQ v) = (if v = w then lists s (WaitQ w) @ [current_thread s] else lists s (WaitQ v));
        \<And>v. wq_magic (wait_queues z v) = wq_magic (wait_queues s v); \<And>m. handed m z = handed m s\<rbrakk> \<Longrightarrow> mutexes_inv z"
    and ev: "\<And>z. \<lbrakk>events z = events y; \<And>v. lists z (WaitQ v) = (if v = w then lists s (WaitQ w) @ [current_thread s] else lists s (WaitQ v));
        \<And>v. wq_magic (wait_queues z v) = wq_magic (wait_queues s v)\<rbrakk> \<Longrightarrow> events_inv z"
  obtains s' where "wait_queue_block w INFINITE_TIME y = Some s'" "mid_inv s'"
proof -
  let ?c = "current_thread s"
  note D = user_invD [OF u]
  have run: "state (cur s) = THREAD_RUNNING" using D(1) by (rule sched_okD(1))
  have "sched_ok (push_frame f s)" using D(1) by simp
  then have oky: "sched_ok y" by (rule sched_ok_cong) (simp_all add: y)
  have yc: "critical_section_count y > 0" "wq_magic (wait_queues y w) = WAIT_QUEUE_MAGIC"
    "current_thread y \<noteq> bootstrap_thread" using y magic ne by simp_all
  let ?z = "push_frames [After_resched, After_block_in_wait INFINITE_TIME] (enter_critical_section (enqueue_waiter w y))"
  note B = wait_queue_block_forever [OF oky yc]
  have thr: "thr ?z = (thr s)(?c := (cur s)\<lparr>queue_node := Some (WaitQ w), state := THREAD_BLOCKED,
      blocking_wait_queue := Some w, wait_queue_block_ret := NO_ERROR, frames := wait_stack w\<rparr>)"
    using D(2) f by (simp add: push_frames_def y fun_eq_iff)
  have h: "handed m ?z = handed m s" for m
    using user_inv_not_handed [OF u, of m] by (auto simp: handed_def thr)
  have dw: "depth (wait_stack w) = 2" by (cases w) simp_all
  have mz: "mutexes_inv ?z" by (rule mx) (simp_all add: h y)
  have ez: "events_inv ?z" by (rule ev) (simp_all add: y)
  have "objects_inv ?z"
    by (rule objects_inv_block [OF u, where w = w]) (use cs dw mz ez in \<open>simp_all add: thr y\<close>)
  moreover have "switch_ok ?z" using B(1) by simp
  ultimately show ?thesis using that [OF B(2)] mid_inv_switch by blast
qed

subsection \<open>Mutexes\<close>

lemma user_inv_mutex:
  assumes u: "user_inv s" and mg: "mx_magic (mutexes s m) = MUTEX_MAGIC"
  shows "mutex_inv m s" using user_invD(4) [OF u] mg by (simp add: mutexes_inv_def)

lemma mutex_acquire_mid:
  assumes k: "kernel_inv s" and mg: "mx_magic (mutexes s m) = MUTEX_MAGIC"
    and nh: "holder (mutexes s m) \<noteq> Some (current_thread s)" and ne: "current_thread s \<noteq> bootstrap_thread"
  obtains s' where "mutex_acquire m s = Some s'" "mid_inv s'"
proof -
  let ?c = "current_thread s" and ?e = "enter_critical_section s"
  let ?y = "upd_mutex m (\<lambda>x. x\<lparr>mx_count := mx_count x + 1\<rparr>) ?e"
  have u: "user_inv s" and cs: "critical_section_count s = 0" "ints_enabled s" using k by (simp_all add: kernel_inv_iff)
  note D = user_invD [OF u]
  have mi: "mutex_inv m s" using user_inv_mutex [OF u mg] .
  show ?thesis
  proof (cases "mx_count (mutexes s m) = 0")
    case True
    let ?s' = "mutex_acquire_end m (set_ret NO_ERROR ?y)"
    have thr: "thr ?s' = (thr s)(?c := (cur s)\<lparr>ret := NO_ERROR\<rparr>)"
      by (simp add: mutex_acquire_end_def Let_def NO_ERROR_def)
    have f: "mutexes ?s' = (mutexes s)(m := (mutexes s m)\<lparr>mx_count := 1, holder := Some ?c\<rparr>)"
      "current_thread ?s' = ?c" "lists ?s' = lists s" "wait_queues ?s' = wait_queues s" "events ?s' = events s"
      "run_queue_bitmap ?s' = run_queue_bitmap s" "timers ?s' = timers s" "timer_queue ?s' = timer_queue s"
      "critical_section_count ?s' = 0" "ints_enabled ?s'"
      using cs True by (simp_all add: mutex_acquire_end_def Let_def NO_ERROR_def)
    have h: "handed k ?s' = handed k s" for k by (auto simp: handed_def thr)
    have "mutex_inv m ?s'" using mi True by (simp add: mutex_inv_def f h)
    then have mx: "mutexes_inv ?s'"
      using D(4) mg by (simp add: mutexes_inv_def mutex_inv_def f h)
    have "thr ?s' = (thr s)(?c := (cur s)\<lparr>frames := [], ret := NO_ERROR\<rparr>)"
      using thr D(2) by (simp add: frames_nil_id)
    then have "kernel_inv ?s'"
      using k f mx by (intro kernel_inv_leave [of s]) (simp_all add: kernel_inv_def)
    then show ?thesis
      using that [of ?s'] nh mg True by (simp add: mutex_acquire_def Let_def kernel_inv_def)
  next
    case False
    then have owned: "mx_count (mutexes s m) = 1 + int (length (lists s (WaitQ (MutexWait m))))"
      and ow: "\<exists>t. holder (mutexes s m) = Some t \<and> handed m s = {} \<or> holder (mutexes s m) = None \<and> handed m s = {t}"
      and wm: "wq_magic (wait_queues s (MutexWait m)) = WAIT_QUEUE_MAGIC"
      using mi by (auto simp: mutex_inv_def)
    obtain s' where s': "wait_queue_block (MutexWait m) INFINITE_TIME (push_frame (After_wait_in_mutex_acquire m) ?y) = Some s'"
      "mid_inv s'"
    proof (rule wait_queue_block_mid [OF u cs(1) ne, where w = "MutexWait m" and f = "After_wait_in_mutex_acquire m"
          and y = "push_frame (After_wait_in_mutex_acquire m) ?y"])
      fix z :: kstate
      assume "mutexes z = mutexes (push_frame (After_wait_in_mutex_acquire m) ?y)"
        "\<And>v. lists z (WaitQ v) = (if v = MutexWait m then lists s (WaitQ (MutexWait m)) @ [?c] else lists s (WaitQ v))"
        "\<And>v. wq_magic (wait_queues z v) = wq_magic (wait_queues s v)" "\<And>m. handed m z = handed m s"
      then show "mutexes_inv z"
        using D(4) mg owned ow wm by (simp add: mutexes_inv_def mutex_inv_def)
    next
      fix z :: kstate
      assume "events z = events (push_frame (After_wait_in_mutex_acquire m) ?y)"
        "\<And>v. lists z (WaitQ v) = (if v = MutexWait m then lists s (WaitQ (MutexWait m)) @ [?c] else lists s (WaitQ v))"
        "\<And>v. wq_magic (wait_queues z v) = wq_magic (wait_queues s v)"
      then show "events_inv z" using D(5) by (simp add: events_inv_def)
    qed (use cs wm that in \<open>simp_all add: push_frames_def\<close>)
    have "mx_count (mutexes s m) \<ge> 1" using owned by simp
    then show ?thesis using that [of s'] s' nh mg by (simp add: mutex_acquire_def Let_def)
  qed
qed

text \<open>The state after waking the head \<open>t\<close> of \<open>w\<close> over the current thread.\<close>

lemma wake_over_rest [simp]:
  "current_thread (wake_over w err t s) = current_thread s"
  "critical_section_count (wake_over w err t s) = critical_section_count s"
  "ints_enabled (wake_over w err t s) = ints_enabled s"
  "timers (wake_over w err t s) = timers s"
  "timer_queue (wake_over w err t s) = timer_queue s"
  "ticks (wake_over w err t s) = ticks s"
  "mutexes (wake_over w err t s) = mutexes s"
  "events (wake_over w err t s) = events s"
  "dpc_list (wake_over w err t s) = dpc_list s"
  by (simp_all add: wake_over_def)

lemma wake_over_woken:
  assumes u: "user_inv s" and q: "lists s (WaitQ w) = t # r"
    and y: "thr y = thr s" "lists y = lists s" "wait_queues y = wait_queues s" "current_thread y = current_thread s"
  shows "woken w {t} s (push_frames fs (wake_over w NO_ERROR t y))"
    and "state (cur (push_frames fs (wake_over w NO_ERROR t y))) = THREAD_READY"
    and "frames (cur (push_frames fs (wake_over w NO_ERROR t y))) = fs"
    and "lists (push_frames fs (wake_over w NO_ERROR t y)) (WaitQ v) = (if v = w then r else lists s (WaitQ v))"
    and "wq_magic (wait_queues (push_frames fs (wake_over w NO_ERROR t y)) v) = wq_magic (wait_queues s v)"
proof -
  let ?c = "current_thread s"
  note D = user_invD [OF u]
  have qs: "queues_ok s" using D(1) by (simp add: sched_ok_def)
  have W: "state (thr s t) = THREAD_BLOCKED" "blocking_wait_queue (thr s t) = Some w"
    using waiter [OF qs, of t w] q by simp_all
  have ne: "t \<noteq> ?c" using W(1) sched_okD(1) [OF D(1)] by auto
  show "woken w {t} s (push_frames fs (wake_over w NO_ERROR t y))"
    using W ne by (auto simp: woken_def push_frames_def wake_over_def y)
  show "state (cur (push_frames fs (wake_over w NO_ERROR t y))) = THREAD_READY"
    "frames (cur (push_frames fs (wake_over w NO_ERROR t y))) = fs"
    using ne D(2) by (simp_all add: push_frames_def wake_over_def y)
  show "lists (push_frames fs (wake_over w NO_ERROR t y)) (WaitQ v) = (if v = w then r else lists s (WaitQ v))"
    "wq_magic (wait_queues (push_frames fs (wake_over w NO_ERROR t y)) v) = wq_magic (wait_queues s v)"
    using q by (simp_all add: push_frames_def wake_over_def y)
qed

lemma mutex_release_mid:
  assumes k: "kernel_inv s" and mg: "mx_magic (mutexes s m) = MUTEX_MAGIC"
    and hd: "holder (mutexes s m) = Some (current_thread s)"
  obtains s' where "mutex_release m s = Some s'" "mid_inv s'"
    "\<And>t r. lists s (WaitQ (MutexWait m)) = t # r \<Longrightarrow> lists s' (WaitQ (MutexWait m)) = r \<and> handed m s' = {t}"
proof -
  let ?c = "current_thread s" and ?e = "enter_critical_section s" and ?w = "MutexWait m"
  let ?y = "upd_mutex m (\<lambda>x. x\<lparr>holder := None, mx_count := mx_count x - 1\<rparr>) ?e"
  have u: "user_inv s" and cs: "critical_section_count s = 0" "ints_enabled s" using k by (simp_all add: kernel_inv_iff)
  note D = user_invD [OF u]
  have n: "mx_count (mutexes s m) = 1 + int (length (lists s (WaitQ ?w)))" and h0: "handed m s = {}"
    and wm: "wq_magic (wait_queues s ?w) = WAIT_QUEUE_MAGIC"
    using user_inv_mutex [OF u mg] hd by (auto simp: mutex_inv_def)
  show ?thesis
  proof (cases "lists s (WaitQ ?w)")
    case Nil
    let ?s' = "mutex_release_end ?y"
    have thr: "thr ?s' = (thr s)(?c := (cur s)\<lparr>frames := [], ret := NO_ERROR\<rparr>)"
      using D(2) by (simp add: mutex_release_end_def frames_nil_id)
    have f: "mutexes ?s' = (mutexes s)(m := (mutexes s m)\<lparr>holder := None, mx_count := 0\<rparr>)"
      "current_thread ?s' = ?c" "lists ?s' = lists s" "wait_queues ?s' = wait_queues s" "events ?s' = events s"
      "run_queue_bitmap ?s' = run_queue_bitmap s" "timers ?s' = timers s" "timer_queue ?s' = timer_queue s"
      "critical_section_count ?s' = 0" "ints_enabled ?s'"
      using cs n Nil by (simp_all add: mutex_release_end_def)
    have h: "handed k ?s' = handed k s" for k using D(2) by (auto simp: handed_def thr)
    have "mutex_inv m ?s'" using wm h0 Nil by (simp add: mutex_inv_def f h)
    then have mx: "mutexes_inv ?s'" using D(4) mg by (simp add: mutexes_inv_def mutex_inv_def f h)
    have "kernel_inv ?s'"
      using k f mx thr by (intro kernel_inv_leave [of s]) (simp_all add: kernel_inv_def)
    then show ?thesis
      using that [of ?s'] hd mg n Nil by (simp add: mutex_release_def Let_def kernel_inv_def)
  next
    case (Cons t r)
    let ?z = "push_frames [After_wake_in_mutex_release] (wake_over ?w NO_ERROR t ?y)"
    note W = wake_over_woken [OF u Cons, of ?y "[After_wake_in_mutex_release]", simplified]
    have oky: "sched_ok ?y" using sched_ok_enter [OF D(1)] by (rule sched_ok_cong) simp_all
    have ycs: "critical_section_count ?y > 0" using cs by simp
    have ty: "t \<in> set (lists ?y (WaitQ ?w))" "lists ?y (WaitQ ?w) = t # r" using Cons by simp_all
    have sw: "switch_ok ?z" using wake_over_ok(1) [OF oky ycs ty(1)] by simp
    have mz: "mutexes ?z = (mutexes s)(m := (mutexes s m)\<lparr>holder := None, mx_count := mx_count (mutexes s m) - 1\<rparr>)"
      "events ?z = events s" "timers ?z = timers s" "timer_queue ?z = timer_queue s"
      "critical_section_count ?z = 1" "\<not> ints_enabled ?z"
      using cs by (simp_all add: push_frames_def wake_over_def)
    have h: "handed k ?z = handed k s \<union> (if k = m then {t} else {})" for k
      using handed_woken [OF u W(1), of k] W(3) by (auto split: if_splits)
    have "mutex_inv m ?z" using wm h0 n Cons by (simp add: mutex_inv_def mz h W(4,5))
    then have "mutexes_inv ?z"
      using D(4) mg by (simp add: mutexes_inv_def mutex_inv_def mz h W(4,5))
    moreover have "events_inv ?z" using D(5) by (simp add: events_inv_def mz W(4,5))
    ultimately have "objects_inv ?z"
      by (intro objects_inv_woken [OF u W(1)]) (simp_all add: W(2,3) cs plain_stack_def)
    moreover have "mutex_release m s = Some (switch_to ?z)"
      using hd mg n Cons wait_queue_wake_one_switch [OF _ ycs oky ty(2), of NO_ERROR "[After_wake_in_mutex_release]"] wm
      by (simp add: mutex_release_def Let_def)
    moreover have "lists (switch_to ?z) (WaitQ ?w) = r" using switch_to_fields(4) [of ?z] W(4) by (simp add: same_objects_def)
    moreover have "handed m (switch_to ?z) = {t}" using handed_switch [OF sw] h h0 by simp
    ultimately show ?thesis using that [of "switch_to ?z"] mid_inv_switch [OF sw] Cons by simp
  qed
qed

subsection \<open>Events\<close>

lemma user_inv_exit [simp]: "user_inv s \<Longrightarrow> user_inv (exit_critical_section s)"
  by (erule user_inv_cong) simp_all

lemma kernel_inv_exit:
  assumes "user_inv y" and "critical_section_count y = 1"
  shows "kernel_inv (set_ret r (exit_critical_section y))"
  using assms by (simp add: kernel_inv_iff) (simp add: set_ret_def user_inv_cur)

lemma user_inv_event:
  assumes u: "user_inv s" and "f (events s e) = x" and "ev_magic x = ev_magic (events s e)"
    and "signalled x \<longrightarrow> lists s (WaitQ (EventWait e)) = []"
  shows "user_inv (upd_event e f s)"
proof -
  note D = user_invD [OF u]
  let ?s = "upd_event e f s"
  have "sched_ok ?s" using D(1) by (rule sched_ok_cong) simp_all
  moreover have "timers_inv ?s" using D(3) timers_ok_cong [of ?s s] by (simp add: timers_inv_def)
  moreover have "mutexes_inv ?s" using D(4) by (simp add: mutexes_inv_def mutex_inv_def handed_def)
  moreover have "events_inv ?s" using D(5) assms by (simp add: events_inv_def)
  ultimately show ?thesis using u unfolding user_inv_def by simp
qed

lemma event_wait_mid:
  assumes k: "kernel_inv s" and mg: "ev_magic (events s e) = EVENT_MAGIC" and ne: "current_thread s \<noteq> bootstrap_thread"
  obtains s' where "event_wait e s = Some s'" "mid_inv s'"
proof -
  let ?c = "current_thread s" and ?e = "enter_critical_section s" and ?w = "EventWait e"
  have u: "user_inv s" and cs: "critical_section_count s = 0" "ints_enabled s" using k by (simp_all add: kernel_inv_iff)
  note D = user_invD [OF u]
  have wm: "wq_magic (wait_queues s ?w) = WAIT_QUEUE_MAGIC"
    and sl: "signalled (events s e) \<longrightarrow> lists s (WaitQ ?w) = []" using D(5) mg by (simp_all add: events_inv_def)
  show ?thesis
  proof (cases "signalled (events s e)")
    case True
    let ?y = "if autounsignal e ?e then upd_event e (\<lambda>x. x\<lparr>signalled := False\<rparr>) ?e else ?e"
    have y: "user_inv ?y" using u by (simp add: user_inv_event)
    have "event_wait_end (set_ret NO_ERROR ?y) = set_ret NO_ERROR (exit_critical_section ?y)"
      by (simp add: event_wait_end_def Let_def set_ret_def upd_cur_def upd_thr_def exit_critical_section_def)
    moreover have "kernel_inv (set_ret NO_ERROR (exit_critical_section ?y))"
      using y cs by (intro kernel_inv_exit) simp_all
    ultimately show ?thesis
      using that [of "event_wait_end (set_ret NO_ERROR ?y)"] True mg
      by (simp add: event_wait_def event_wait_timeout_def Let_def kernel_inv_def)
  next
    case False
    obtain s' where s': "wait_queue_block ?w INFINITE_TIME (push_frame After_wait_in_event_wait ?e) = Some s'" "mid_inv s'"
    proof (rule wait_queue_block_mid [OF u cs(1) ne, where w = ?w and f = After_wait_in_event_wait
          and y = "push_frame After_wait_in_event_wait ?e"])
      fix z :: kstate
      assume "mutexes z = mutexes (push_frame After_wait_in_event_wait ?e)"
        "\<And>v. lists z (WaitQ v) = (if v = ?w then lists s (WaitQ ?w) @ [?c] else lists s (WaitQ v))"
        "\<And>v. wq_magic (wait_queues z v) = wq_magic (wait_queues s v)" "\<And>m. handed m z = handed m s"
      then show "mutexes_inv z" using D(4) by (simp add: mutexes_inv_def mutex_inv_def)
    next
      fix z :: kstate
      assume "events z = events (push_frame After_wait_in_event_wait ?e)"
        "\<And>v. lists z (WaitQ v) = (if v = ?w then lists s (WaitQ ?w) @ [?c] else lists s (WaitQ v))"
        "\<And>v. wq_magic (wait_queues z v) = wq_magic (wait_queues s v)"
      then show "events_inv z" using D(5) False by (simp add: events_inv_def)
    qed (use cs wm that in \<open>simp_all add: push_frames_def\<close>)
    then show ?thesis
      using that [of s'] mg False by (simp add: event_wait_def event_wait_timeout_def Let_def)
  qed
qed

lemma event_unsignal_mid:
  assumes k: "kernel_inv s" and mg: "ev_magic (events s e) = EVENT_MAGIC"
  obtains s' where "event_unsignal e s = Some s'" "mid_inv s'"
proof -
  let ?y = "upd_event e (\<lambda>x. x\<lparr>signalled := False\<rparr>) (enter_critical_section s)"
  have u: "user_inv s" and cs: "critical_section_count s = 0" using k by (simp_all add: kernel_inv_iff)
  have "user_inv ?y" using u by (simp add: user_inv_event)
  then have "kernel_inv (set_ret NO_ERROR (exit_critical_section ?y))" using cs by (intro kernel_inv_exit) simp_all
  then show ?thesis using that mg by (simp add: event_unsignal_def Let_def kernel_inv_def)
qed

lemma fold_wake_woken:
  assumes u: "user_inv s" and ws: "ws = lists s (WaitQ w)"
    and y: "\<And>t. t \<noteq> current_thread s \<Longrightarrow> thr y t = thr s t" "current_thread y = current_thread s"
      "\<And>v. lists y (WaitQ v) = lists s (WaitQ v)" "wait_queues y = wait_queues s"
  shows "woken w (set ws) s (fold (wake w NO_ERROR) ws y)"
    and "thr (fold (wake w NO_ERROR) ws y) (current_thread s) = thr y (current_thread s)"
    and "lists (fold (wake w NO_ERROR) ws y) (WaitQ v) = (if v = w then [] else lists s (WaitQ v))"
    and "wq_magic (wait_queues (fold (wake w NO_ERROR) ws y) v) = wq_magic (wait_queues s v)"
proof -
  let ?c = "current_thread s"
  note D = user_invD [OF u]
  have qs: "queues_ok s" using D(1) by (simp add: sched_ok_def)
  have d: "distinct ws" using qs ws kq_okD(1) by (simp add: queues_ok_def)
  have W: "state (thr s t) = THREAD_BLOCKED" "blocking_wait_queue (thr s t) = Some w" if "t \<in> set ws" for t
    using waiter [OF qs, of t w] that ws by simp_all
  have c: "?c \<notin> set ws" using W(1) [of ?c] sched_okD(1) [OF D(1)] by auto
  note T = fold_wake(2) [OF d, of w NO_ERROR y]
  show "thr (fold (wake w NO_ERROR) ws y) ?c = thr y ?c" using c by (simp add: T)
  show "woken w (set ws) s (fold (wake w NO_ERROR) ws y)"
    unfolding woken_def using c W y(1,2) by (auto simp: T)
  show "lists (fold (wake w NO_ERROR) ws y) (WaitQ v) = (if v = w then [] else lists s (WaitQ v))"
    using fold_wake(3) [OF d, of v w NO_ERROR y] fold_wake_wq(3) [of w NO_ERROR ws y] y(3) ws by simp
  show "wq_magic (wait_queues (fold (wake w NO_ERROR) ws y) v) = wq_magic (wait_queues s v)"
    using y(4) by (simp add: fold_wake_wq(1))
qed

text \<open>Waking waiters of an event hands over no mutex.\<close>

lemma woken_event:
  assumes u: "user_inv s" and w: "woken (EventWait e) W s z" and c: "\<And>m. frames (cur z) \<noteq> wait_stack (MutexWait m)"
    and l: "\<And>m. lists z (WaitQ (MutexWait m)) = lists s (WaitQ (MutexWait m))"
    and q: "\<And>v. wq_magic (wait_queues z v) = wq_magic (wait_queues s v)" and m: "mutexes z = mutexes s"
  shows "mutexes_inv z"
proof -
  have "handed m z = handed m s" for m using handed_woken [OF u w c, of m] by simp
  then show ?thesis using user_invD(4) [OF u] l q m by (simp add: mutexes_inv_def mutex_inv_def)
qed

lemma event_signal_one_switch:
  assumes u: "user_inv s" and cs: "critical_section_count s = 1" "\<not> ints_enabled s"
    and mg: "ev_magic (events s e) = EVENT_MAGIC" and q: "lists s (WaitQ (EventWait e)) = t # r"
  shows "\<exists>s'. wait_queue_wake_one (EventWait e) True NO_ERROR [After_wake_one_in_event_signal e] s = Some (None, s') \<and> mid_inv s'"
proof -
  let ?w = "EventWait e" and ?fs = "[After_wake_one_in_event_signal e]"
  let ?z = "push_frames ?fs (wake_over ?w NO_ERROR t s)"
  note D = user_invD [OF u]
  note W = wake_over_woken [OF u q refl refl refl refl, of ?fs, simplified]
  have wm: "wq_magic (wait_queues s ?w) = WAIT_QUEUE_MAGIC" using D(5) mg by (simp add: events_inv_def)
  have c0: "critical_section_count s > 0" using cs by simp
  have sw: "switch_ok ?z" using wake_over_ok(1) [OF D(1) c0, of t ?w] q by simp
  have "mutexes_inv ?z" using W by (intro woken_event [OF u W(1)]) simp_all
  moreover have "events_inv ?z" using D(5) W(4,5) q by (auto simp: events_inv_def)
  ultimately have "objects_inv ?z"
    using cs by (intro objects_inv_woken [OF u W(1)]) (simp_all add: W(2,3) plain_stack_def)
  then show ?thesis
    using wait_queue_wake_one_switch [OF wm c0 D(1) q] mid_inv_switch [OF sw] by simp
qed

lemma event_signal_one_stay:
  assumes u: "user_inv s" and cs: "critical_section_count s = 1" and mg: "ev_magic (events s e) = EVENT_MAGIC"
    and q: "lists s (WaitQ (EventWait e)) = t # r"
  shows "wait_queue_wake_one (EventWait e) False NO_ERROR ks s = Some (Some 1, wake (EventWait e) NO_ERROR t s)"
    and "user_inv (wake (EventWait e) NO_ERROR t s)"
proof -
  let ?w = "EventWait e" and ?z = "wake (EventWait e) NO_ERROR t s"
  note D = user_invD [OF u]
  have qs: "queues_ok s" using D(1) by (simp add: sched_ok_def)
  have t: "t \<in> set (lists s (WaitQ ?w))" using q by simp
  have wm: "wq_magic (wait_queues s ?w) = WAIT_QUEUE_MAGIC" using D(5) mg by (simp add: events_inv_def)
  show "wait_queue_wake_one ?w False NO_ERROR ks s = Some (Some 1, ?z)"
    using wm cs qs q by (intro wait_queue_wake_one_stay) simp_all
  have ne: "t \<noteq> current_thread s" using waiter(2) [OF qs t] sched_okD(1) [OF D(1)] by auto
  have w: "woken ?w {t} s ?z" using waiter [OF qs t] ne by (auto simp: woken_def wake_thr)
  have "mutexes_inv ?z"
    using ne D(2) by (intro woken_event [OF u w]) (simp_all add: wake_thr wake_lists)
  moreover have "events_inv ?z" using D(5) q by (auto simp: events_inv_def wake_lists)
  ultimately show "user_inv ?z"
    using sched_ok_wake [OF D(1) t, of NO_ERROR] ne D(2) by (intro user_inv_woken [OF u w]) (simp_all add: wake_thr)
qed

lemma event_signal_all_stay:
  assumes u: "user_inv s" and cs: "critical_section_count s = 1" and mg: "ev_magic (events s e) = EVENT_MAGIC"
    and n: "\<not> resch \<or> lists s (WaitQ (EventWait e)) = []"
    and ns: "\<not> signalled (events s e)" and y: "y = upd_event e (\<lambda>x. x\<lparr>signalled := True\<rparr>) s"
  shows "\<exists>k z. wait_queue_wake_all (EventWait e) resch NO_ERROR ks y = Some (Some k, z) \<and> user_inv z \<and>
    critical_section_count z = 1 \<and> current_thread z = current_thread s"
proof -
  let ?w = "EventWait e" and ?ws = "lists s (WaitQ (EventWait e))"
  let ?z = "fold (wake ?w NO_ERROR) ?ws y"
  note D = user_invD [OF u]
  have oky: "sched_ok y" using D(1) by (rule sched_ok_cong) (simp_all add: y)
  then have qy: "queues_ok y" by (simp add: sched_ok_def)
  have wm: "wq_magic (wait_queues y ?w) = WAIT_QUEUE_MAGIC" using D(5) mg y by (simp add: events_inv_def)
  have cy: "critical_section_count y > 0" using cs y by simp
  have r: "wait_queue_wake_all ?w resch NO_ERROR ks y = Some (Some (int (length ?ws)), ?z)"
    using wait_queue_wake_all_stay [OF wm cy qy] n y by simp
  note W = fold_wake_woken [OF u refl, of y "EventWait e"]
  have w: "woken ?w (set ?ws) s ?z" using W(1) y by simp
  have ok: "sched_ok ?z"
    using sched_ok_fold_wake [OF oky, of ?w NO_ERROR] wake_all_loop_ok [OF qy cy, of ?w "Suc (length ?ws)" NO_ERROR 0] y
    by simp
  have ez: "events ?z = (events s)(e := (events s e)\<lparr>signalled := True\<rparr>)" by (simp add: y)
  have "mutexes_inv ?z" using D(2) W(2-4) by (intro woken_event [OF u w]) (simp_all add: y)
  moreover have "events_inv ?z" using D(5) W(3,4) unfolding events_inv_def ez by (simp add: y)
  ultimately have "user_inv ?z"
    using ok D(2) W(2) by (intro user_inv_woken [OF u w]) (simp_all add: y)
  then show ?thesis using r cs y by simp
qed

lemma event_signal_all_switch:
  assumes u: "user_inv s" and cs: "critical_section_count s = 1" "\<not> ints_enabled s"
    and mg: "ev_magic (events s e) = EVENT_MAGIC" and q: "lists s (WaitQ (EventWait e)) \<noteq> []"
    and y: "y = upd_event e (\<lambda>x. x\<lparr>signalled := True\<rparr>) s"
  shows "\<exists>s'. wait_queue_wake_all (EventWait e) True NO_ERROR [After_wake_all_in_event_signal] y = Some (None, s') \<and> mid_inv s'"
proof -
  let ?w = "EventWait e" and ?ws = "lists s (WaitQ (EventWait e))" and ?fs = "[After_wake_all_in_event_signal]"
  let ?r = "requeued True remaining_quantum y"
  let ?z = "fold (wake ?w NO_ERROR) ?ws ?r"
  note D = user_invD [OF u]
  have oky: "sched_ok y" using D(1) by (rule sched_ok_cong) (simp_all add: y)
  have wm: "wq_magic (wait_queues y ?w) = WAIT_QUEUE_MAGIC" using D(5) mg y by (simp add: events_inv_def)
  have cy: "critical_section_count y > 0" and qy: "lists y (WaitQ ?w) \<noteq> []" "lists y (WaitQ ?w) = ?ws"
    using cs y q by simp_all
  note A = wait_queue_wake_all_switch [OF wm cy oky qy(1), where err = NO_ERROR, unfolded qy(2)]
  have r: "thr ?r t = thr s t" if "t \<noteq> current_thread s" for t using that by (simp add: requeued_def y)
  have rc: "state (thr ?r (current_thread s)) = THREAD_READY" "frames (thr ?r (current_thread s)) = []"
    "current_thread ?r = current_thread s" "wait_queues ?r = wait_queues s" "lists ?r (WaitQ v) = lists s (WaitQ v)"
    "critical_section_count ?r = 1" "\<not> ints_enabled ?r" "timers ?r = timers s" "timer_queue ?r = timer_queue s"
    "mutexes ?r = mutexes s" "events ?r = events y" for v
    using D(2) cs by (simp_all add: requeued_def y)
  note W = fold_wake_woken [where w = "EventWait e", OF u refl r rc(3,5,4)]
  let ?p = "push_frames ?fs ?z"
  have pt: "thr ?p = (thr ?z)(current_thread s := (thr ?z (current_thread s))\<lparr>frames := ?fs\<rparr>)"
    using W(2) rc by (simp add: push_frames_def)
  have w: "woken ?w (set ?ws) s ?p" using W(1) rc(3) by (auto simp: woken_def pt)
  have ez: "events ?p = (events s)(e := (events s e)\<lparr>signalled := True\<rparr>)" using rc(11) by (simp add: y requeued_def)
  have "mutexes_inv ?p" by (rule woken_event [OF u w]) (use W(3,4) in \<open>simp_all add: pt rc\<close>)
  moreover have "events_inv ?p" using D(5) W(3,4) unfolding events_inv_def ez by (simp add: rc)
  ultimately have "objects_inv ?p"
    by (intro objects_inv_woken [OF u w]) (simp_all add: pt W(2) rc plain_stack_def)
  moreover have "switch_ok ?p" using A(2) by simp
  ultimately show ?thesis using A(1) mid_inv_switch by blast
qed

lemma event_signal_mid:
  assumes k: "kernel_inv s" and mg: "ev_magic (events s e) = EVENT_MAGIC"
  obtains b s' where "event_signal e resch [] s = Some (b, s')" "mid_inv s'"
proof -
  let ?e = "enter_critical_section s" and ?w = "EventWait e"
  have cs: "critical_section_count ?e = 1" "\<not> ints_enabled ?e" and u: "user_inv ?e" and mge: "ev_magic (events ?e e) = EVENT_MAGIC"
    using k mg by (simp_all add: kernel_inv_iff)
  note D = user_invD [OF u]
  have wm: "wq_magic (wait_queues s ?w) = WAIT_QUEUE_MAGIC" using D(5) mg by (simp add: events_inv_def)
  have fin: "mid_inv (event_signal_end z)" if "user_inv z" "critical_section_count z = 1" for z
    using kernel_inv_exit [OF that, of NO_ERROR] by (simp add: event_signal_end_def kernel_inv_def)
  show ?thesis
  proof (cases "signalled (events s e)")
    case True
    then show ?thesis
      using that [of False "event_signal_end ?e"] fin [OF u cs(1)] mg by (simp add: event_signal_def Let_def)
  next
    case ns: False
    show ?thesis
    proof (cases "autounsignal e ?e")
      case auto: True
      show ?thesis
      proof (cases "lists ?e (WaitQ ?w)")
        case Nil
        let ?y = "upd_event e (\<lambda>x. x\<lparr>signalled := True\<rparr>) ?e"
        have "user_inv ?y" using u Nil by (intro user_inv_event [OF u refl]) simp_all
        then have "mid_inv (event_signal_woke e 0 ?e)" using fin [of ?y] cs by (simp add: event_signal_woke_def)
        moreover have "wait_queue_wake_one ?w resch NO_ERROR [After_wake_one_in_event_signal e] ?e = Some (Some 0, ?e)"
          using wm cs Nil by (intro wait_queue_wake_one_none) simp_all
        ultimately show ?thesis using that mg ns auto by (simp add: event_signal_def Let_def)
      next
        case (Cons t r)
        show ?thesis
        proof (cases resch)
          case True
          then show ?thesis
            using event_signal_one_switch [OF u cs mge Cons] that mg ns auto by (auto simp: event_signal_def Let_def)
        next
          case False
          note S = event_signal_one_stay [OF u cs(1) mge Cons]
          have "mid_inv (event_signal_woke e 1 (wake ?w NO_ERROR t ?e))"
            using fin [OF S(2)] cs by (simp add: event_signal_woke_def)
          then show ?thesis using that mg ns auto False S(1) by (simp add: event_signal_def Let_def)
        qed
      qed
    next
      case auto: False
      let ?y = "upd_event e (\<lambda>x. x\<lparr>signalled := True\<rparr>) ?e"
      show ?thesis
      proof (cases "resch \<and> lists ?e (WaitQ ?w) \<noteq> []")
        case True
        then obtain s' where "wait_queue_wake_all ?w True NO_ERROR [After_wake_all_in_event_signal] ?y = Some (None, s')"
          "mid_inv s'" using event_signal_all_switch [OF u cs mge _ refl] by blast
        then show ?thesis using that mg ns auto True by (simp add: event_signal_def Let_def)
      next
        case False
        have "\<not> signalled (events ?e e)" using ns by simp
        then obtain n z where "wait_queue_wake_all ?w resch NO_ERROR [After_wake_all_in_event_signal] ?y = Some (Some n, z)"
          "user_inv z" "critical_section_count z = 1"
          using event_signal_all_stay [OF u cs(1) mge _ _ refl, of resch "[After_wake_all_in_event_signal]"] False by blast
        then show ?thesis using that fin [of z] mg ns auto by (simp add: event_signal_def Let_def)
      qed
    qed
  qed
qed

subsection \<open>The timer interrupt\<close>

lemma wake_sleeper:
  fixes f :: "thread_stats \<Rightarrow> thread_stats"
  assumes u: "user_inv s" and cs: "critical_section_count s > 0" and q: "timer_queue s = SleepTimer t # ts"
  defines "d \<equiv> upd_stats f (delete_timer (SleepTimer t) s)"
  shows "thread_sleep_handler t d = Some (INT_RESCHEDULE, run_insert True t (upd_thr t (\<lambda>x. x\<lparr>state := THREAD_READY\<rparr>) d))"
    and "user_inv (run_insert True t (upd_thr t (\<lambda>x. x\<lparr>state := THREAD_READY\<rparr>) d))"
proof -
  let ?c = "current_thread s" and ?z = "run_insert True t (upd_thr t (\<lambda>x. x\<lparr>state := THREAD_READY\<rparr>) d)"
  note D = user_invD [OF u]
  have sl: "state (thr s t) = THREAD_SLEEPING" using D(3) q by (auto simp: timers_inv_def)
  then have ne: "t \<noteq> ?c" using sched_okD(1) [OF D(1)] by auto
  have fd: "thr d = thr s" "lists d = lists s" "current_thread d = ?c" "wait_queues d = wait_queues s"
    "mutexes d = mutexes s" "events d = events s" "critical_section_count d = critical_section_count s"
    "run_queue_bitmap d = run_queue_bitmap s" "timer_queue d = ts"
    using q by (simp_all add: d_def delete_timer_def)
  have td: "timers d x = (if x = SleepTimer t then (timers s x)\<lparr>tm_linked := False\<rparr> else timers s x)" for x
    by (simp add: d_def delete_timer_def)
  have okd: "sched_ok d" using D(1) by (rule sched_ok_cong) (simp_all add: fd)
  note H = thread_sleep_handler_ok [OF okd, of t]
  show "thread_sleep_handler t d = Some (INT_RESCHEDULE, ?z)" using H(1) cs sl by (simp add: fd)
  have okz: "sched_ok ?z" using H(2) cs sl by (simp add: fd)
  have "saved_critical_section_count (thr s t) = depth (frames (thr s t)) \<and> stack_ok (thr s t)"
    using u ne sl unfolding user_inv_def by auto
  then have st: "saved_critical_section_count (thr s t) = depth (frames (thr s t))" "frames (thr s t) = [After_resched]"
    using sl by (simp_all add: stack_ok_def)
  have "SleepTimer t \<notin> set ts" using D(6) q by (simp add: timers_ok_def)
  then have qs: "SleepTimer v \<in> set ts \<longleftrightarrow> v \<noteq> t \<and> state (thr s v) = THREAD_SLEEPING" for v
    using D(3) q by (auto simp: timers_inv_def)
  have tm: "timers_inv ?z"
  proof -
    have "timers_ok (delete_timer (SleepTimer t) s)" using D(6) by (rule timers_ok_delete)
    then have "timers_ok ?z" using timers_ok_cong [of ?z "delete_timer (SleepTimer t) s"] by (simp add: d_def)
    moreover have "\<forall>tm\<in>set (timer_queue ?z). \<exists>t. tm = SleepTimer t"
      using D(3) q by (simp add: timers_inv_def fd)
    moreover have "SleepTimer v \<in> set (timer_queue ?z) \<longleftrightarrow> state (thr ?z v) = THREAD_SLEEPING" for v
      using qs [of v] by (simp add: fd(1,9))
    moreover have "callback (timers ?z (SleepTimer v)) = Some Thread_sleep_handler \<and>
        tm_arg (timers ?z (SleepTimer v)) = v \<and> periodic_time (timers ?z (SleepTimer v)) = 0"
      if "SleepTimer v \<in> set (timer_queue ?z)" for v
      using D(3) that q by (simp add: timers_inv_def fd td)
    ultimately show ?thesis unfolding timers_inv_def by blast
  qed
  have h: "handed m ?z = handed m s" for m using st(2) sl by (auto simp: handed_def fd(1))
  have mx: "mutexes_inv ?z" using D(4) by (simp add: mutexes_inv_def mutex_inv_def h fd)
  have ev: "events_inv ?z" using D(5) by (simp add: events_inv_def fd)
  have "saved_critical_section_count (thr ?z v) = depth (frames (thr ?z v)) \<and> stack_ok (thr ?z v)"
    if v: "v \<noteq> ?c" "state (thr ?z v) \<notin> {THREAD_SUSPENDED, THREAD_DEATH}" for v
  proof (cases "v = t")
    case True
    then show ?thesis using st by (simp add: fd(1) stack_ok_def plain_stack_def)
  next
    case False
    then have "thr ?z v = thr s v" by (simp add: fd(1))
    then show ?thesis using u v unfolding user_inv_def by metis
  qed
  moreover have "frames (cur ?z) = []" "current_thread ?z = ?c" using D(2) ne by (simp_all add: fd)
  ultimately show "user_inv ?z" using okz tm mx ev unfolding user_inv_def by metis
qed

lemma timer_tick_loop_ok:
  assumes "user_inv s" and "critical_section_count s > 0" and "length (timer_queue s) < fuel"
  shows "\<exists>r' s'. timer_tick_loop fuel now r s = Some (r', s') \<and> user_inv s' \<and>
    critical_section_count s' = critical_section_count s \<and> ints_enabled s' = ints_enabled s \<and>
    current_thread s' = current_thread s \<and> mutexes s' = mutexes s \<and> events s' = events s \<and>
    (\<exists>ts. timer_queue s = ts @ timer_queue s') \<and>
    (timer_queue s' \<noteq> [] \<longrightarrow> TIME_LT now (scheduled_time (timers s' (hd (timer_queue s')))))"
  using assms
proof (induction fuel arbitrary: r s)
  case (Suc fuel)
  note u = Suc.prems(1)
  note D = user_invD [OF u]
  show ?case
  proof (cases "timer_queue s")
    case Nil
    then show ?thesis using u by simp
  next
    case (Cons tm ts)
    obtain t where tm: "tm = SleepTimer t" using D(3) Cons by (auto simp: timers_inv_def)
    show ?thesis
    proof (cases "TIME_LT now (scheduled_time (timers s tm))")
      case True
      then show ?thesis using u Cons by simp
    next
      case False
      let ?f = "\<lambda>x. x\<lparr>timers_fired := timers_fired x + 1\<rparr>"
      let ?d = "upd_stats ?f (delete_timer (SleepTimer t) s)"
      let ?z = "run_insert True t (upd_thr t (\<lambda>x. x\<lparr>state := THREAD_READY\<rparr>) ?d)"
      have q: "timer_queue s = SleepTimer t # ts" using Cons tm by simp
      note W = wake_sleeper [OF u Suc.prems(2) q, of ?f]
      have c: "tm_magic (timers s tm) = TIMER_MAGIC" "callback (timers s tm) = Some Thread_sleep_handler"
        "tm_arg (timers s tm) = t" "periodic_time (timers s tm) = 0"
        using D(3) Cons tm by (auto simp: timers_inv_def timers_ok_def)
      have zq: "timer_queue ?z = ts" "critical_section_count ?z = critical_section_count s"
        "ints_enabled ?z = ints_enabled s" "current_thread ?z = current_thread s" "mutexes ?z = mutexes s"
        "events ?z = events s"
        using q by (simp_all add: delete_timer_def)
      have step: "timer_tick_loop (Suc fuel) now r s = timer_tick_loop fuel now INT_RESCHEDULE ?z"
        using False q tm c W(1) by (simp add: Let_def delete_timer_def)
      have "length (timer_queue ?z) < fuel" using Suc.prems(3) Cons zq by simp
      then have "\<exists>r' s'. timer_tick_loop fuel now INT_RESCHEDULE ?z = Some (r', s') \<and> user_inv s' \<and>
          critical_section_count s' = critical_section_count ?z \<and> ints_enabled s' = ints_enabled ?z \<and>
          current_thread s' = current_thread ?z \<and> mutexes s' = mutexes ?z \<and> events s' = events ?z \<and>
          (\<exists>ts. timer_queue ?z = ts @ timer_queue s') \<and>
          (timer_queue s' \<noteq> [] \<longrightarrow> TIME_LT now (scheduled_time (timers s' (hd (timer_queue s')))))"
        using W(2) Suc.prems(2) zq(2) by (intro Suc.IH) simp_all
      then show ?thesis unfolding step zq q by (metis append_Cons)
    qed
  qed
qed simp

lemma thread_timer_tick_user: "user_inv s \<Longrightarrow> user_inv (snd (thread_timer_tick s))"
  by (simp add: thread_timer_tick_def Let_def user_inv_cur)

lemma arm_irq_mid:
  assumes k: "kernel_inv s"
  obtains s' where "arm_irq s = Some s'" "mid_inv s'"
proof -
  have u: "user_inv s" and cs: "critical_section_count s = 0" using k by (simp_all add: kernel_inv_iff)
  let ?i = "inc_critical_section (s\<lparr>ints_enabled := False\<rparr>)"
  let ?a = "upd_stats (\<lambda>x. x\<lparr>timer_ints := timer_ints x + 1\<rparr>) (?i\<lparr>ticks := ticks s + 10\<rparr>)"
  have "user_inv ?i" using u by (rule user_inv_inc)
  then have "user_inv (?i\<lparr>ticks := ticks s + 10\<rparr>)" by (rule user_inv_cong) simp_all
  then have ua: "user_inv ?a" by simp
  have ca: "critical_section_count ?a = 1" "\<not> ints_enabled ?a" using cs by (simp_all add: inc_critical_section_def)
  obtain r b where b: "timer_tick_loop (Suc (length (timer_queue ?a))) (ticks s + 10) INT_NO_RESCHEDULE ?a = Some (r, b)"
    "user_inv b" "critical_section_count b = 1" "\<not> ints_enabled b"
    using timer_tick_loop_ok [OF ua, of "Suc (length (timer_queue ?a))" "ticks s + 10" INT_NO_RESCHEDULE] ca by auto
  obtain h t where t: "thread_timer_tick b = (h, t)" by fastforce
  have ut: "user_inv t" using thread_timer_tick_user [OF b(2)] t by simp
  have ct: "critical_section_count t = 1" "\<not> ints_enabled t"
    using t b(3,4) by (auto simp: thread_timer_tick_def Let_def split: if_splits)
  have irq: "timer_irq ?i = Some (INT_RESCHEDULE, t)"
    using b(1) t by (simp add: timer_irq_def timer_tick_def Let_def inc_critical_section_def
        del: timer_tick_loop.simps)
  let ?p = "push_frame After_preempt_in_irq t"
  have okp: "sched_ok ?p" and cp: "critical_section_count ?p \<ge> 0" using user_invD(1) [OF ut] ct by simp_all
  obtain f where f: "thread_preempt ?p = Some (switch_to (push_frame After_resched
      (requeued (remaining_quantum (cur ?p) > 0) remaining_quantum (upd_stats f (enter_critical_section ?p)))))"
    using thread_preempt_eq [OF okp cp] .
  let ?q = "remaining_quantum (cur ?p) > 0" and ?v = "upd_stats f (enter_critical_section t)"
  let ?z = "push_frame After_resched (requeued ?q remaining_quantum (upd_stats f (enter_critical_section ?p)))"
  let ?x = "(cur t)\<lparr>state := THREAD_READY, queue_node := Some (RunQ (nat (priority (cur t)))),
    frames := [After_resched, After_preempt_in_irq]\<rparr>"
  have "objects_inv ?z"
  proof (rule objects_inv_give_up [OF ut, where x = ?x])
    show "thr ?z = (thr t)(current_thread t := ?x)"
      using user_invD(2) [OF ut] by (simp add: push_frames_def requeued_def fun_eq_iff)
  qed (use ct in \<open>simp_all add: requeued_def push_frames_def plain_stack_def\<close>)
  moreover have "switch_ok ?z" using okp ct by (intro switch_ok_requeued) simp_all
  ultimately show ?thesis
    using that f irq mid_inv_switch by (simp add: arm_irq_def Let_def)
qed

subsection \<open>The machine\<close>

text \<open>
  The calls a running thread can make, and the timer interrupt. Waiting with a timeout is
  not among them: see \<open>stale_timeout_leaks\<close>.
\<close>

datatype kcall =
    Yield | Sleep time | Acquire nat | Release nat | Wait nat | Signal nat bool | Unsignal nat | Tick

fun run_call :: "kcall \<Rightarrow> kstate \<Rightarrow> kstate option" where
  "run_call Yield s = thread_yield s"
| "run_call (Sleep delay) s = thread_sleep delay s"
| "run_call (Acquire m) s = mutex_acquire m s"
| "run_call (Release m) s = mutex_release m s"
| "run_call (Wait e) s = event_wait e s"
| "run_call (Signal e resched) s = map_option snd (event_signal e resched [] s)"
| "run_call (Unsignal e) s = event_unsignal e s"
| "run_call Tick s = arm_irq s"

text \<open>
  What the callers owe the kernel: the idle thread does not block, objects are initialised,
  a mutex is not acquired twice and is released by its holder. An interrupt is taken only
  when interrupts are enabled.
\<close>

fun call_ok :: "kcall \<Rightarrow> kstate \<Rightarrow> bool" where
  "call_ok Yield s \<longleftrightarrow> True"
| "call_ok (Sleep delay) s \<longleftrightarrow> current_thread s \<noteq> bootstrap_thread"
| "call_ok (Acquire m) s \<longleftrightarrow> mx_magic (mutexes s m) = MUTEX_MAGIC \<and>
     holder (mutexes s m) \<noteq> Some (current_thread s) \<and> current_thread s \<noteq> bootstrap_thread"
| "call_ok (Release m) s \<longleftrightarrow> mx_magic (mutexes s m) = MUTEX_MAGIC \<and> holder (mutexes s m) = Some (current_thread s)"
| "call_ok (Wait e) s \<longleftrightarrow> ev_magic (events s e) = EVENT_MAGIC \<and> current_thread s \<noteq> bootstrap_thread"
| "call_ok (Signal e resched) s \<longleftrightarrow> ev_magic (events s e) = EVENT_MAGIC"
| "call_ok (Unsignal e) s \<longleftrightarrow> ev_magic (events s e) = EVENT_MAGIC"
| "call_ok Tick s \<longleftrightarrow> ints_enabled s"

definition kexec :: "kcall \<Rightarrow> kstate \<Rightarrow> kstate option" where
  "kexec c s = do { s \<leftarrow> run_call c s; kernel_return s }"

lemma run_call_mid:
  assumes "kernel_inv s" and "call_ok c s"
  obtains s' where "run_call c s = Some s'" "mid_inv s'"
proof (cases c)
  case Yield then show ?thesis using thread_yield_mid [OF assms(1)] that by auto
next
  case (Sleep delay) then show ?thesis using thread_sleep_mid [OF assms(1), of delay] assms(2) that by auto
next
  case (Acquire m) then show ?thesis using mutex_acquire_mid [OF assms(1), of m] assms(2) that by auto
next
  case (Release m) then show ?thesis using mutex_release_mid [OF assms(1), of m] assms(2) that by auto
next
  case (Wait e) then show ?thesis using event_wait_mid [OF assms(1), of e] assms(2) that by auto
next
  case (Signal e r)
  obtain b s' where "event_signal e r [] s = Some (b, s')" "mid_inv s'"
    using event_signal_mid [OF assms(1), of e r] assms(2) Signal by auto
  then show ?thesis using Signal that by simp
next
  case (Unsignal e) then show ?thesis using event_unsignal_mid [OF assms(1), of e] assms(2) that by auto
next
  case Tick then show ?thesis using arm_irq_mid [OF assms(1)] that by auto
qed

lemma kexec_ok:
  assumes "kernel_inv s" and "call_ok c s"
  obtains s' where "kexec c s = Some s'" "kernel_inv s'"
proof -
  obtain s1 where "run_call c s = Some s1" "mid_inv s1" using run_call_mid [OF assms] .
  moreover obtain s' where "kernel_return s1 = Some s'" "kernel_inv s'" using kernel_return_ok [OF calculation(2)] .
  ultimately show ?thesis using that by (simp add: kexec_def)
qed

inductive kreach :: "kstate \<Rightarrow> kstate \<Rightarrow> bool" for s\<^sub>0 where
  kreach_start: "kreach s\<^sub>0 s\<^sub>0"
| kreach_step: "kreach s\<^sub>0 s \<Longrightarrow> call_ok c s \<Longrightarrow> kexec c s = Some s' \<Longrightarrow> kreach s\<^sub>0 s'"

lemma kreach_inv:
  assumes "kreach s\<^sub>0 s" and "kernel_inv s\<^sub>0"
  shows "kernel_inv s"
  using assms(1)
proof (induction rule: kreach.induct)
  case kreach_start
  show ?case by (rule assms(2))
next
  case (kreach_step s c s')
  obtain s1 where "kexec c s = Some s1" "kernel_inv s1" using kexec_ok [OF kreach_step.IH kreach_step.hyps(2)] .
  then show ?case using kreach_step.hyps(3) by simp
qed

subsection \<open>Properties\<close>

text \<open>A system of an idle thread and two threads of DEFAULT_PRIORITY, with a mutex and an
  auto-unsignalling event.\<close>

definition demo_kstate :: kstate where
  "demo_kstate = two_threads\<lparr>
     thr := (thr two_threads)
       (0 := (thr two_threads 0)\<lparr>frames := [After_resched]\<rparr>, 2 := (thr two_threads 2)\<lparr>frames := [After_resched]\<rparr>),
     wait_queues := (\<lambda>_. \<lparr>wq_magic = WAIT_QUEUE_MAGIC, wq_count = 0\<rparr>),
     mutexes := (\<lambda>_. \<lparr>mx_magic = MUTEX_MAGIC, mx_count = 0, holder = None\<rparr>),
     events := (\<lambda>_. \<lparr>ev_magic = EVENT_MAGIC, signalled = False, ev_flags = 1\<rparr>)\<rparr>"

lemma demo_thr:
  "thr demo_kstate t = (if t = 0 then (live_thread 0 THREAD_READY (Some (RunQ 0)))\<lparr>frames := [After_resched]\<rparr>
     else if t = 1 then live_thread 16 THREAD_RUNNING None
     else if t = 2 then (live_thread 16 THREAD_READY (Some (RunQ 16)))\<lparr>frames := [After_resched]\<rparr>
     else zero_thread)"
  by (simp add: demo_kstate_def two_threads_def)

lemma demo_kernel_inv: "kernel_inv demo_kstate"
proof -
  let ?s = "demo_kstate"
  have f: "lists ?s = lists two_threads" "run_queue_bitmap ?s = run_queue_bitmap two_threads"
    "current_thread ?s = 1" "critical_section_count ?s = 0" "ints_enabled ?s" "timer_queue ?s = []"
    "lists ?s (WaitQ w) = []" for w
    by (simp_all add: demo_kstate_def two_threads_def zero_kstate_def)
  have "sched_ok (upd_thr 2 (\<lambda>x. x\<lparr>frames := [After_resched]\<rparr>) (upd_thr 0 (\<lambda>x. x\<lparr>frames := [After_resched]\<rparr>) two_threads))"
    using two_threads_ok by (intro sched_ok_keep) simp_all
  moreover have "counts_ok ?s" using f(7) by (simp add: counts_ok_def demo_kstate_def)
  ultimately have "sched_ok ?s"
    by (simp add: sched_ok_def queues_ok_def kq_ok_def bitmap_ok_def f demo_kstate_def)
  moreover have st: "state (thr ?s t) \<noteq> THREAD_SLEEPING" for t
    by (simp add: demo_thr live_thread_def zero_thread_def)
  moreover have "timers ?s tm = zero_timer" for tm by (simp add: demo_kstate_def two_threads_def zero_kstate_def)
  then have "timers_inv ?s" using st f(6) by (simp add: timers_inv_def timers_ok_def zero_timer_def)
  moreover have h: "handed m ?s = {}" for m
    by (simp add: handed_def demo_thr live_thread_def zero_thread_def)
  have "mutexes_inv ?s" using h f(7) by (simp add: mutexes_inv_def mutex_inv_def demo_kstate_def)
  moreover have "events_inv ?s" using f(7) by (simp add: events_inv_def demo_kstate_def)
  moreover have "\<forall>t. t \<noteq> current_thread ?s \<and> state (thr ?s t) \<notin> {THREAD_SUSPENDED, THREAD_DEATH} \<longrightarrow>
      saved_critical_section_count (thr ?s t) = depth (frames (thr ?s t)) \<and> stack_ok (thr ?s t)"
    by (simp add: demo_thr f live_thread_def zero_thread_def stack_ok_def plain_stack_def)
  ultimately have "user_inv ?s" unfolding user_inv_def
    by (simp add: demo_thr f(3) live_thread_def zero_thread_def)
  then show ?thesis using f(4,5) by (simp add: kernel_inv_iff)
qed

text \<open>
  C1: in every state the kernel reaches, every further call that meets its obligations runs
  to completion: no assertion and no panic of the scheduler, the timers, the mutexes and the
  events is reached and the timer loop ends. Afterwards some thread is back in its own code
  with critical sections balanced (depth 0) and interrupts enabled, and it is the only
  RUNNING thread.
\<close>

theorem kernel_calls_safe:
  assumes "kernel_inv s\<^sub>0" and "kreach s\<^sub>0 s" and "call_ok c s"
  shows "\<exists>s'. kexec c s = Some s' \<and> kernel_inv s' \<and> critical_section_count s' = 0 \<and> ints_enabled s' \<and>
    (\<forall>t. state (thr s' t) = THREAD_RUNNING \<longleftrightarrow> t = current_thread s')"
proof -
  have "kernel_inv s" using kreach_inv [OF assms(2,1)] .
  then obtain s' where s': "kexec c s = Some s'" "kernel_inv s'" using kexec_ok [OF _ assms(3)] by blast
  have "sched_ok s'" "critical_section_count s' = 0" "ints_enabled s'" using kernel_invD [OF s'(2)] by blast+
  then show ?thesis using s' by (auto simp: sched_ok_def)
qed

theorem kernel_calls_safe_witness:
  "\<exists>s'. kexec (Acquire 0) demo_kstate = Some s' \<and> kernel_inv s' \<and>
     (\<exists>s''. kexec Yield s' = Some s'' \<and> critical_section_count s'' = 0)"
proof -
  have "call_ok (Acquire 0) demo_kstate"
    by (simp add: demo_kstate_def two_threads_def bootstrap_thread_def)
  then obtain s' where s': "kexec (Acquire 0) demo_kstate = Some s'" "kernel_inv s'"
    using kernel_calls_safe [OF demo_kernel_inv kreach_start, of "Acquire 0"] by blast
  have "kreach demo_kstate s'" using kreach_step [OF kreach_start \<open>call_ok (Acquire 0) demo_kstate\<close> s'(1)] .
  moreover have "call_ok Yield s'" by simp
  ultimately obtain s'' where "kexec Yield s' = Some s''" "critical_section_count s'' = 0"
    using kernel_calls_safe [OF demo_kernel_inv, of s' Yield] by blast
  then show ?thesis using s' by blast
qed

text \<open>The thread that owns a mutex: its holder, or the thread it was handed to.\<close>

definition owns :: "kstate \<Rightarrow> nat \<Rightarrow> tid \<Rightarrow> bool" where
  "owns s m t \<longleftrightarrow> holder (mutexes s m) = Some t \<or> t \<in> handed m s"


text \<open>
  C13: mutexes are handed over in the order the threads asked. When the holder releases a
  mutex with waiters \<open>t # r\<close>, the call returns with \<open>t\<close> the only owner and
  \<open>r\<close> still waiting, in the same order.
\<close>

theorem mutex_release_hands_over:
  assumes "kernel_inv s" and "mx_magic (mutexes s m) = MUTEX_MAGIC"
    and "holder (mutexes s m) = Some (current_thread s)" and "lists s (WaitQ (MutexWait m)) = t # r"
  shows "\<exists>s'. mutex_release m s = Some s' \<and> lists s' (WaitQ (MutexWait m)) = r \<and> (\<forall>u. owns s' m u \<longleftrightarrow> u = t)"
proof -
  obtain s' where s': "mutex_release m s = Some s'" "mid_inv s'" "lists s' (WaitQ (MutexWait m)) = r" "handed m s' = {t}"
    using mutex_release_mid [OF assms(1-3)] assms(4) by metis
  have mg: "mx_magic (mutexes s' m) = MUTEX_MAGIC"
    using s'(2,4) by (auto simp: mid_inv_def objects_inv_def mutexes_inv_def)
  then have "mutex_inv m s'" using s'(2) by (simp add: mid_inv_def objects_inv_def mutexes_inv_def)
  then have "holder (mutexes s' m) = None" using s'(4) by (auto simp: mutex_inv_def)
  then show ?thesis using s'(1,3,4) by (simp add: owns_def)
qed

text \<open>The same system with the mutex held by the running thread.\<close>

definition held_kstate :: kstate where
  "held_kstate = demo_kstate\<lparr>mutexes := (\<lambda>_. \<lparr>mx_magic = MUTEX_MAGIC, mx_count = 1, holder = Some 1\<rparr>)\<rparr>"

lemma held_kernel_inv: "kernel_inv held_kstate"
proof -
  have d: "mx_magic (mutexes demo_kstate m) = MUTEX_MAGIC" "mx_count (mutexes demo_kstate m) = 0" for m
    by (simp_all add: demo_kstate_def)
  have "mutexes_inv demo_kstate" using kernel_invD(8) [OF demo_kernel_inv] .
  then have "mutex_inv m demo_kstate" for m using d by (simp add: mutexes_inv_def)
  then have e: "wq_magic (wait_queues demo_kstate (MutexWait m)) = WAIT_QUEUE_MAGIC" "handed m demo_kstate = {}"
    "lists demo_kstate (WaitQ (MutexWait m)) = []" for m
    using d(2) [of m] unfolding mutex_inv_def by (metis add_nonneg_eq_0_iff of_nat_0_le_iff one_neq_zero zero_le_one)+
  have "handed m held_kstate = handed m demo_kstate" for m by (simp add: handed_def held_kstate_def)
  then have "mutex_inv m held_kstate" for m
    using e [of m] by (simp add: mutex_inv_def) (simp add: held_kstate_def)
  then have "mutexes_inv held_kstate" by (simp add: mutexes_inv_def held_kstate_def)
  moreover have "sched_ok held_kstate"
    using kernel_invD(1) [OF demo_kernel_inv] by (rule sched_ok_cong) (simp_all add: held_kstate_def)
  moreover have "cs_depth held_kstate t = cs_depth demo_kstate t" "thr held_kstate = thr demo_kstate" for t
    by (simp_all add: cs_depth_def held_kstate_def)
  then have "threads_inv held_kstate" using kernel_invD(6) [OF demo_kernel_inv] by (simp add: threads_inv_def)
  moreover have "timers_ok held_kstate \<longleftrightarrow> timers_ok demo_kstate" by (simp add: timers_ok_def held_kstate_def)
  then have "timers_inv held_kstate" using kernel_invD(7) [OF demo_kernel_inv] by (simp add: timers_inv_def) (simp add: held_kstate_def)
  moreover have "events_inv held_kstate" "frames (cur held_kstate) = []"
    "ints_enabled held_kstate" "critical_section_count held_kstate = 0"
    using kernel_invD(3-5,9) [OF demo_kernel_inv]
    by (simp_all add: events_inv_def held_kstate_def)
  ultimately show ?thesis by (simp add: kernel_inv_def mid_inv_def objects_inv_def)
qed


lemma contended:
  "map_option (call_ok (Acquire 0)) (kexec Yield held_kstate) = Some True"
  "Option.bind (kexec Yield held_kstate) (\<lambda>s. map_option (\<lambda>s. (current_thread s, holder (mutexes s 0),
     mx_magic (mutexes s 0) = MUTEX_MAGIC, lists s (WaitQ (MutexWait 0)))) (kexec (Acquire 0) s)) =
   Some (1, Some 1, True, [2])"
  by code_simp+

theorem mutex_release_hands_over_witness:
  "\<exists>s s'. kernel_inv s \<and> lists s (WaitQ (MutexWait 0)) = [2] \<and> mutex_release 0 s = Some s' \<and> owns s' 0 2"
proof -
  have y: "call_ok Yield held_kstate" by simp
  then obtain s1 where s1: "kexec Yield held_kstate = Some s1" "kernel_inv s1"
    using kexec_ok [OF held_kernel_inv] by blast
  then have "call_ok (Acquire 0) s1" using contended(1) by simp
  then obtain s where s: "kexec (Acquire 0) s1 = Some s" "kernel_inv s" using kexec_ok [OF s1(2)] by blast
  then have f: "mx_magic (mutexes s 0) = MUTEX_MAGIC" "holder (mutexes s 0) = Some (current_thread s)"
    "lists s (WaitQ (MutexWait 0)) = [2]"
    using contended(2) s1(1) by simp_all
  show ?thesis using mutex_release_hands_over [OF s(2) f] s(2) f(3) by blast
qed

subsection \<open>The timer loop ends\<close>

lemma kq_timers:
  "timers (kq_add_head q t s) = timers s" "timer_queue (kq_add_head q t s) = timer_queue s"
  "timers (kq_delete t s) = timers s" "timer_queue (kq_delete t s) = timer_queue s"
  by (simp_all add: kq_add_head_def kq_delete_def split: option.split)

lemma sint_uminus_pos: "sint p > 0 \<Longrightarrow> sint (- p) < 0" for p :: time
proof -
  assume "sint p > 0"
  moreover have "sint p < 2 ^ 31" using sint_lt [of p] by simp
  ultimately have "signed_take_bit 31 (- sint p) = - sint p" by (intro signed_take_bit_int_eq_self) simp_all
  then show "sint (- p) < 0" using \<open>sint p > 0\<close> by (simp add: sint_word_ariths)
qed

lemma unblock_timers:
  "thread_unblock_from_wait_queue t False err s = Some (r, s') \<Longrightarrow> timers s' = timers s \<and> timer_queue s' = timer_queue s"
  by (auto simp: thread_unblock_from_wait_queue_def Let_def insert_in_run_queue_head_def kq_timers
      split: if_splits option.splits bind_splits)

lemma call_timer_timers:
  "call_timer cb a s = Some (h, s') \<Longrightarrow> timers s' = timers s \<and> timer_queue s' = timer_queue s"
  by (cases cb) (auto simp: thread_sleep_handler_def wait_queue_timeout_handler_def insert_in_run_queue_head_def Let_def kq_timers
      dest: unblock_timers split: if_splits option.splits bind_splits)

text \<open>The timers that are due at \<open>now\<close>.\<close>

definition due :: "time \<Rightarrow> kstate \<Rightarrow> nat" where
  "due now s = length (filter (\<lambda>tm. \<not> TIME_LT now (scheduled_time (timers s tm))) (timer_queue s))"

lemma filter_insert_timer_length:
  "length (filter P (insert_timer f tm es)) = length (filter P es) + (if P tm then 1 else 0)"
  by (induction es) auto

lemma length_filter_mono: "(\<And>x. P x \<Longrightarrow> Q x) \<Longrightarrow> length (filter P xs) \<le> length (filter Q xs)"
  by (induction xs) (auto simp: le_SucI)

definition periods_positive :: "kstate \<Rightarrow> bool" where
  "periods_positive s \<longleftrightarrow> (\<forall>tm. periodic_time (timers s tm) > 0 \<longrightarrow> sint (periodic_time (timers s tm)) > 0)"

lemma timer_tick_loop_fuel:
  assumes "periods_positive s" and "due now s < fuel"
  shows "timer_tick_loop (fuel + k) now r s = timer_tick_loop fuel now r s"
  using assms
proof (induction fuel arbitrary: r s)
  case (Suc fuel)
  show ?case
  proof (cases "timer_queue s")
    case (Cons tm ts)
    show ?thesis
    proof (cases "TIME_LT now (scheduled_time (timers s tm))")
      case False
      let ?d = "upd_stats (\<lambda>x. x\<lparr>timers_fired := timers_fired x + 1\<rparr>) (delete_timer tm s)"
      have next_due: "due now s2 < fuel \<and> periods_positive s2"
        if "timers s1 = timers ?d" "timer_queue s1 = timer_queue ?d"
          and "s2 = (if periodic_time (timers ?d tm) > 0 \<and> \<not> tm_linked (timers s1 tm) \<and> periodic_time (timers s1 tm) > 0
                then insert_timer_in_queue tm (upd_timer tm (\<lambda>x. x\<lparr>scheduled_time := now + periodic_time x\<rparr>) s1) else s1)"
        for s1 s2
      proof -
        have lt: "TIME_LT now (now + periodic_time (timers s tm))" if "periodic_time (timers s tm) > 0"
          using Suc.prems(1) that by (simp add: periods_positive_def TIME_LT_def sint_uminus_pos)
        have "length (filter (\<lambda>x. \<not> TIME_LT now (scheduled_time (timers s x))) ts) < fuel"
          using Suc.prems(2) Cons False by (simp add: due_def)
        moreover have "length (filter (\<lambda>x. \<not> TIME_LT now (scheduled_time (timers s2 x))) ts) \<le>
            length (filter (\<lambda>x. \<not> TIME_LT now (scheduled_time (timers s x))) ts)"
          using that lt by (intro length_filter_mono) (auto simp: insert_timer_in_queue_def delete_timer_def split: if_splits)
        moreover have "due now s2 = length (filter (\<lambda>x. \<not> TIME_LT now (scheduled_time (timers s2 x))) ts)"
          using that lt Cons by (auto simp: due_def insert_timer_in_queue_def delete_timer_def filter_insert_timer_length)
        moreover have "periods_positive s2"
          using that Suc.prems(1) by (auto simp: periods_positive_def insert_timer_in_queue_def delete_timer_def)
        ultimately show ?thesis by simp
      qed
      show ?thesis
        using False Cons next_due Suc.IH call_timer_timers [where s = ?d]
        by (auto simp: Let_def split: option.splits bind_splits)
    qed (use Cons in simp)
  qed simp
qed simp


text \<open>A periodic timer that is due, ahead of one that is not.\<close>

definition periodic_kstate :: kstate where
  "periodic_kstate = zero_kstate\<lparr>timer_queue := [SleepTimer 1],
     timers := (\<lambda>_. zero_timer)(SleepTimer 1 := zero_timer\<lparr>tm_magic := TIMER_MAGIC, tm_linked := True,
       scheduled_time := 5, periodic_time := 100, callback := Some Threadload\<rparr>)\<rparr>"


text \<open>
  C22: a timeout that fires for a thread which was woken in the meantime, but has not run
  yet, is not harmless: the handler enters a critical section and never leaves it. The
  count of the interrupted thread is one too high ever after, so a later critical section
  of that thread no longer disables interrupts.
\<close>

theorem stale_timeout_leaks:
  assumes "magic (thr s t) = THREAD_MAGIC" and "state (thr s t) \<noteq> THREAD_BLOCKED"
  shows "\<exists>s'. call_timer Wait_queue_timeout_handler t s = Some (INT_NO_RESCHEDULE, s') \<and>
    critical_section_count s' = critical_section_count s + 1 \<and>
    (critical_section_count s \<ge> 0 \<longrightarrow> ints_enabled (enter_critical_section (s'\<lparr>ints_enabled := True\<rparr>)))"
  using assms
  by (simp add: wait_queue_timeout_handler_def thread_unblock_not_blocked ERR_NOT_BLOCKED_def NO_ERROR_def)

theorem stale_timeout_leaks_witness:
  "\<exists>s'. call_timer Wait_queue_timeout_handler 2 demo_kstate = Some (INT_NO_RESCHEDULE, s') \<and>
     critical_section_count s' = 1"
proof -
  have "magic (thr demo_kstate 2) = THREAD_MAGIC" "state (thr demo_kstate 2) \<noteq> THREAD_BLOCKED"
    "critical_section_count demo_kstate = 0"
    by (simp_all add: demo_kstate_def two_threads_def live_thread_def zero_thread_def zero_kstate_def)
  then show ?thesis using stale_timeout_leaks [of demo_kstate 2] by auto
qed

end
