(* ===== verification/C_String.thy ===== *)
theory C_String
  imports Prelude
begin

text \<open>
  The part of the C library the programs use on strings. A C string is the list of its
  characters before the terminating NUL; a buffer is a list that holds such strings, each
  read up to its NUL.
\<close>

definition NUL :: char where "NUL = CHR 0x00"
definition TAB :: char where "TAB = CHR 0x09"
definition NEWLINE :: char where "NEWLINE = CHR 0x0A"
definition CR :: char where "CR = CHR 0x0D"
definition QUOTE :: char where "QUOTE = CHR 0x22"
definition BACKSLASH :: char where "BACKSLASH = CHR 0x5C"

lemmas char_defs = NUL_def TAB_def NEWLINE_def CR_def QUOTE_def BACKSLASH_def

text \<open>The string a buffer holds from its start on.\<close>

definition cstr :: "string \<Rightarrow> string" where
  "cstr = takeWhile (\<lambda>c. c \<noteq> NUL)"

definition is_cstr :: "string \<Rightarrow> bool" where
  "is_cstr s \<longleftrightarrow> NUL \<notin> set s"

lemma is_cstr_simps [simp]:
  "is_cstr []" "is_cstr (c # cs) \<longleftrightarrow> c \<noteq> NUL \<and> is_cstr cs" "is_cstr (xs @ ys) \<longleftrightarrow> is_cstr xs \<and> is_cstr ys"
  by (auto simp: is_cstr_def)

lemma is_cstr_cstr [simp]: "is_cstr (cstr s)"
  unfolding is_cstr_def cstr_def using set_takeWhileD by metis

lemma cstr_simps [simp]:
  "cstr [] = []" "cstr (c # cs) = (if c = NUL then [] else c # cstr cs)"
  by (simp_all add: cstr_def)

lemma cstr_append: "is_cstr s \<Longrightarrow> cstr (s @ t) = s @ cstr t"
  by (induction s) auto

lemma cstr_eq [simp]: "is_cstr s \<Longrightarrow> cstr s = s"
  using cstr_append [of s "[]"] by simp

text \<open>strcmp and strncmp, as tests for equality.\<close>

definition strcmp :: "string \<Rightarrow> string \<Rightarrow> bool" where
  "strcmp a b \<longleftrightarrow> a \<noteq> b"

definition strncmp :: "string \<Rightarrow> string \<Rightarrow> nat \<Rightarrow> bool" where
  "strncmp a b n \<longleftrightarrow> take n a \<noteq> take n b"

text \<open>strchr: the string from the first occurrence on.\<close>

fun strchr :: "string \<Rightarrow> char \<Rightarrow> string option" where
  "strchr [] c = None"
| "strchr (x # xs) c = (if x = c then Some (x # xs) else strchr xs c)"

lemma strchr_Some: "strchr s c = Some r \<Longrightarrow> \<exists>p. s = p @ r \<and> c \<notin> set p \<and> (\<exists>t. r = c # t)"
proof (induction s)
  case (Cons x xs)
  show ?case
  proof (cases "x = c")
    case True then show ?thesis using Cons.prems by (intro exI [of _ "[]"]) auto
  next
    case False
    then obtain p where "xs = p @ r" "c \<notin> set p" "\<exists>t. r = c # t" using Cons by auto
    then show ?thesis using False by (intro exI [of _ "x # p"]) simp
  qed
qed simp

lemma strchr_None: "strchr s c = None \<longleftrightarrow> c \<notin> set s"
  by (induction s) auto

lemma strchr_append: "c \<notin> set p \<Longrightarrow> strchr (p @ c # t) c = Some (c # t)"
  by (induction p) auto

text \<open>Classification and numerals, in the C locale.\<close>

definition code :: "char \<Rightarrow> nat" where "code c = of_char c"

definition isdigit :: "char \<Rightarrow> bool" where "isdigit c \<longleftrightarrow> 48 \<le> code c \<and> code c \<le> 57"
definition isupper :: "char \<Rightarrow> bool" where "isupper c \<longleftrightarrow> 65 \<le> code c \<and> code c \<le> 90"
definition islower :: "char \<Rightarrow> bool" where "islower c \<longleftrightarrow> 97 \<le> code c \<and> code c \<le> 122"
definition isalpha :: "char \<Rightarrow> bool" where "isalpha c \<longleftrightarrow> isupper c \<or> islower c"
definition isalnum :: "char \<Rightarrow> bool" where "isalnum c \<longleftrightarrow> isalpha c \<or> isdigit c"
definition isspace :: "char \<Rightarrow> bool" where "isspace c \<longleftrightarrow> code c = 32 \<or> 9 \<le> code c \<and> code c \<le> 13"

text \<open>The value of a digit in a base up to 16.\<close>

definition digit :: "nat \<Rightarrow> char \<Rightarrow> nat option" where
  "digit base c =
     (let d = (if isdigit c then code c - 48 else if islower c then code c - 87
               else if isupper c then code c - 55 else 99)
      in if d < base then Some d else None)"

fun digits :: "nat \<Rightarrow> nat \<Rightarrow> string \<Rightarrow> nat" where
  "digits base acc [] = acc"
| "digits base acc (c # cs) = (case digit base c of None \<Rightarrow> acc | Some d \<Rightarrow> digits base (acc * base + d) cs)"

text \<open>
  strtoul on a 32-bit long: blanks, a sign, the prefix 0x for base 16 (and 0 for base 0,
  which also picks octal and decimal), the digits. Values out of range give ULONG_MAX; a
  minus sign negates modulo \<open>2 ^ 32\<close>.
\<close>

definition pick_base :: "nat \<Rightarrow> string \<Rightarrow> nat \<times> string" where
  "pick_base base s =
     (case s of
        a # x # d # r \<Rightarrow>
          if base \<in> {0, 16} \<and> a = CHR ''0'' \<and> (x = CHR ''x'' \<or> x = CHR ''X'') \<and> digit 16 d \<noteq> None then (16, d # r)
          else (if base = 0 then (if a = CHR ''0'' then 8 else 10) else base, s)
      | a # r \<Rightarrow> (if base = 0 then (if a = CHR ''0'' then 8 else 10) else base, s)
      | [] \<Rightarrow> (base, s))"

definition strtoul :: "string \<Rightarrow> nat \<Rightarrow> u32" where
  "strtoul s base =
     (let s = dropWhile isspace s;
          (neg, s) = (case s of c # r \<Rightarrow> if c = CHR ''-'' then (True, r) else if c = CHR ''+'' then (False, r) else (False, s)
                      | [] \<Rightarrow> (False, s));
          (base, s) = pick_base base s;
          v = digits base 0 s
      in if v \<ge> 2 ^ 32 then - 1 else if neg then - word_of_nat v else word_of_nat v)"

text \<open>atoi, for values an int can hold.\<close>

definition atoi :: "string \<Rightarrow> int" where
  "atoi s =
     (let s = dropWhile isspace s in
      case s of c # r \<Rightarrow>
          if c = CHR ''-'' then - int (digits 10 0 r)
          else if c = CHR ''+'' then int (digits 10 0 r) else int (digits 10 0 s)
      | [] \<Rightarrow> 0)"

text \<open>strstr: the string from the first occurrence on. Decimal output (\<open>%d\<close>).\<close>

fun strstr :: "string \<Rightarrow> string \<Rightarrow> string option" where
  "strstr [] n = (if n = [] then Some [] else None)"
| "strstr (c # cs) n = (if take (length n) (c # cs) = n then Some (c # cs) else strstr cs n)"

fun dec_nat :: "nat \<Rightarrow> string" where
  "dec_nat n = (if n < 10 then [char_of (48 + n)] else dec_nat (n div 10) @ [char_of (48 + n mod 10)])"

declare dec_nat.simps [simp del]

definition dec_int :: "int \<Rightarrow> string" where
  "dec_int i = (if i < 0 then CHR ''-'' # dec_nat (nat (- i)) else dec_nat (nat i))"

definition tolower :: "char \<Rightarrow> char" where
  "tolower c = (if isupper c then char_of (code c + 32) else c)"

end
