(* ===== verification/Init_Tokenizer.thy ===== *)
theory Init_Tokenizer
  imports C_String
begin

text \<open>
  The tokenizer of init's rc files: next_token of \<^verbatim>\<open>init/init/parser.c\<close>. It works in
  place: the text of a token is written over the buffer it is read from, and a pointer to
  it is returned. The first part follows that code, with indices into the buffer for the
  pointers; an index outside the buffer stops the model. The second part is a tokenizer on
  strings, and the two are shown to agree.
\<close>

datatype token = T_EOF | T_TEXT | T_NEWLINE

text \<open>\<open>nexttoken\<close> is T_EOF, which is 0, when no token is pending.\<close>

record parse_state =
  buf :: string
  ptr :: nat
  token_text :: nat
  line :: int
  nexttoken :: token

subsection \<open>In place\<close>

definition rd :: "string \<Rightarrow> nat \<Rightarrow> char option" where
  "rd b x = (if x < length b then Some (b ! x) else None)"

definition wr :: "string \<Rightarrow> nat \<Rightarrow> char \<Rightarrow> string option" where
  "wr b s c = (if s < length b then Some (b[s := c]) else None)"

lemma rd_Some [simp]: "rd b x = Some c \<longleftrightarrow> x < length b \<and> b ! x = c"
  by (simp add: rd_def)

lemma wr_Some [simp]: "wr b s c = Some b' \<longleftrightarrow> s < length b \<and> b' = b[s := c]"
  by (auto simp: wr_def)

text \<open>The loops that skip a comment and blanks: the index they stop at.\<close>

function skip_comment :: "string \<Rightarrow> nat \<Rightarrow> nat option" where
  "skip_comment b x = do {
     c \<leftarrow> rd b x;
     if c \<noteq> NUL \<and> c \<noteq> NEWLINE then skip_comment b (Suc x) else Some x }"
  by pat_completeness auto
termination by (relation "measure (\<lambda>(b, x). length b - x)") auto

function skip_blanks :: "string \<Rightarrow> nat \<Rightarrow> nat option" where
  "skip_blanks b x = do {
     c \<leftarrow> rd b x;
     if c = CHR '' '' \<or> c = TAB then skip_blanks b (Suc x) else Some x }"
  by pat_completeness auto
termination by (relation "measure (\<lambda>(b, x). length b - x)") auto

text \<open>The loop of a quoted part: the indices after it, or the end of the buffer.\<close>

function quoted :: "string \<Rightarrow> nat \<Rightarrow> nat \<Rightarrow> (bool \<times> string \<times> nat \<times> nat) option" where
  "quoted b x s = do {
     c \<leftarrow> rd b x;
     if c = NUL then Some (False, b, x, s)
     else if c = QUOTE then Some (True, b, Suc x, s)
     else do { b \<leftarrow> wr b s c; quoted b (Suc x) (Suc s) } }"
  by pat_completeness auto
termination by (relation "measure (\<lambda>(b, x, s). length b - x)") (auto simp: rd_def wr_def split: if_splits)

declare skip_comment.simps [simp del] skip_blanks.simps [simp del] quoted.simps [simp del]

lemma skip_blanks_bounds: "skip_blanks b x = Some y \<Longrightarrow> x \<le> y \<and> y < length b"
proof (induction b x rule: skip_blanks.induct)
  case (1 b x)
  then show ?case by (subst (asm) (2) skip_blanks.simps) (auto simp: split: bind_splits if_splits)
qed

lemma quoted_bounds: "quoted b x s = Some (ok, b', x', s') \<Longrightarrow> x \<le> x' \<and> (ok \<longrightarrow> x < x') \<and> length b' = length b"
proof (induction b x s rule: quoted.induct)
  case (1 b x s)
  then show ?case by (subst (asm) (2) quoted.simps) (fastforce split: bind_splits if_splits)
qed

text \<open>The label textdone.\<close>

definition textdone :: "string \<Rightarrow> nat \<Rightarrow> nat \<Rightarrow> parse_state \<Rightarrow> (token \<times> parse_state) option" where
  "textdone b x s st = do { b \<leftarrow> wr b s NUL; Some (T_TEXT, st\<lparr>buf := b, ptr := x\<rparr>) }"

text \<open>The loop at textresume. After the escapes of n, r, t and the backslash the pointer
  \<open>x\<close> is not advanced past the escaped character.\<close>

function textresume :: "string \<Rightarrow> nat \<Rightarrow> nat \<Rightarrow> parse_state \<Rightarrow> (token \<times> parse_state) option" where
  "textresume b x s st = do {
     c \<leftarrow> rd b x;
     if c = NUL then textdone b x s st
     else if c = CHR '' '' \<or> c = TAB \<or> c = CR then textdone b (Suc x) s st
     else if c = NEWLINE then textdone b (Suc x) s (st\<lparr>nexttoken := T_NEWLINE\<rparr>)
     else if c = QUOTE then
       (case quoted b (Suc x) s of
          None \<Rightarrow> None
        | Some (ok, b', x', s') \<Rightarrow>
            if ok then textresume b' x' s' st else Some (T_EOF, st\<lparr>buf := b', ptr := x'\<rparr>))
     else if c = BACKSLASH then do {
       d \<leftarrow> rd b (Suc x);
       if d = NUL then textdone b (Suc x) s st
       else if d = CHR ''n'' then do { b \<leftarrow> wr b s NEWLINE; textresume b (Suc x) (Suc s) st }
       else if d = CHR ''r'' then do { b \<leftarrow> wr b s CR; textresume b (Suc x) (Suc s) st }
       else if d = CHR ''t'' then do { b \<leftarrow> wr b s TAB; textresume b (Suc x) (Suc s) st }
       else if d = BACKSLASH then do { b \<leftarrow> wr b s BACKSLASH; textresume b (Suc x) (Suc s) st }
       else if d = CR \<and> rd b (Suc (Suc x)) = None then None
       else if d = CR \<and> rd b (Suc (Suc x)) \<noteq> Some NEWLINE then textresume b (Suc (Suc x)) s st
       else if d = CR \<or> d = NEWLINE then
         (case skip_blanks b (Suc (Suc x)) of
            None \<Rightarrow> None | Some x' \<Rightarrow> textresume b x' s (st\<lparr>line := line st + 1\<rparr>))
       else do { b \<leftarrow> wr b s d; textresume b (Suc (Suc x)) (Suc s) st } }
     else do { b \<leftarrow> wr b s c; textresume b (Suc x) (Suc s) st } }"
  by pat_completeness auto
termination
proof (relation "measure (\<lambda>(b, x, s, st). length b - x)", goal_cases)
  case 2
  then show ?case using quoted_bounds by (fastforce dest!: sym [of _ "quoted _ _ _"])
qed (auto dest!: skip_blanks_bounds)

declare textresume.simps [simp del]

text \<open>The loop before a token: its kind and the index after it, or where its text starts.\<close>

function lead :: "string \<Rightarrow> nat \<Rightarrow> (token \<times> nat) option" where
  "lead b x = do {
     c \<leftarrow> rd b x;
     if c = NUL then Some (T_EOF, x)
     else if c = NEWLINE then Some (T_NEWLINE, Suc x)
     else if c = CHR '' '' \<or> c = TAB \<or> c = CR then lead b (Suc x)
     else if c = CHR ''#'' then do {
       x \<leftarrow> skip_comment b x;
       d \<leftarrow> rd b x;
       Some (if d = NEWLINE then (T_NEWLINE, Suc x) else (T_EOF, x)) }
     else Some (T_TEXT, x) }"
  by pat_completeness auto
termination by (relation "measure (\<lambda>(b, x). length b - x)") auto

declare lead.simps [simp del]

definition next_token :: "parse_state \<Rightarrow> (token \<times> parse_state) option" where
  "next_token st =
     (if nexttoken st \<noteq> T_EOF then Some (nexttoken st, st\<lparr>nexttoken := T_EOF\<rparr>)
      else do {
        (t, x) \<leftarrow> lead (buf st) (ptr st);
        if t = T_TEXT then textresume (buf st) x x (st\<lparr>token_text := x\<rparr>)
        else Some (t, st\<lparr>ptr := x\<rparr>) })"

subsection \<open>On strings\<close>

record scan_state =
  rest :: string
  scan_line :: int
  pending :: token

fun quote_scan :: "string \<Rightarrow> (string \<times> string) option" where
  "quote_scan [] = None"
| "quote_scan (c # cs) =
     (if c = QUOTE then Some ([], cs) else map_option (\<lambda>(q, r). (c # q, r)) (quote_scan cs))"

lemma quote_scan_length: "quote_scan cs = Some (q, r) \<Longrightarrow> length r < length cs"
  by (induction cs arbitrary: q r) (auto split: if_splits simp: less_SucI)

lemma quote_scan_append: "QUOTE \<notin> set q \<Longrightarrow> quote_scan (q @ QUOTE # r) = Some (q, r)"
  by (induction q) auto

definition escape :: "char \<Rightarrow> char option" where
  "escape d = (if d = CHR ''n'' then Some NEWLINE else if d = CHR ''r'' then Some CR
     else if d = CHR ''t'' then Some TAB else if d = BACKSLASH then Some BACKSLASH else None)"

definition blank :: "char \<Rightarrow> bool" where
  "blank c \<longleftrightarrow> c = CHR '' '' \<or> c = TAB"

text \<open>The text after \<open>acc\<close>: the kind and the text of the token, and the state after it.\<close>

function text_scan :: "string \<Rightarrow> string \<Rightarrow> int \<Rightarrow> token \<times> string \<times> scan_state" where
  "text_scan acc [] ln = (T_TEXT, acc, \<lparr>rest = [], scan_line = ln, pending = T_EOF\<rparr>)"
| "text_scan acc (c # cs) ln =
     (if blank c \<or> c = CR then (T_TEXT, acc, \<lparr>rest = cs, scan_line = ln, pending = T_EOF\<rparr>)
      else if c = NEWLINE then (T_TEXT, acc, \<lparr>rest = cs, scan_line = ln, pending = T_NEWLINE\<rparr>)
      else if c = QUOTE then
        (case quote_scan cs of
           None \<Rightarrow> (T_EOF, [], \<lparr>rest = [], scan_line = ln, pending = T_EOF\<rparr>)
         | Some (q, r) \<Rightarrow> text_scan (acc @ q) r ln)
      else if c = BACKSLASH then
        (case cs of
           [] \<Rightarrow> (T_TEXT, acc, \<lparr>rest = [], scan_line = ln, pending = T_EOF\<rparr>)
         | d # ds \<Rightarrow>
             (case escape d of
                Some e \<Rightarrow> text_scan (acc @ [e]) cs ln
              | None \<Rightarrow>
                  if d = CR \<and> (ds = [] \<or> hd ds \<noteq> NEWLINE) then text_scan acc ds ln
                  else if d = CR \<or> d = NEWLINE then text_scan acc (dropWhile blank ds) (ln + 1)
                  else text_scan (acc @ [d]) ds ln))
      else text_scan (acc @ [c]) cs ln)"
  by pat_completeness auto
termination
proof (relation "measure (\<lambda>(acc, cs, ln). length cs)", goal_cases)
  case 2 then show ?case by (auto dest!: sym [of _ "quote_scan _"] quote_scan_length)
qed (auto simp: le_imp_less_Suc length_dropWhile_le le_SucI)

declare text_scan.simps(2) [simp del]

fun lead_scan :: "string \<Rightarrow> token \<times> string" where
  "lead_scan [] = (T_EOF, [])"
| "lead_scan (c # cs) =
     (if c = NEWLINE then (T_NEWLINE, cs)
      else if blank c \<or> c = CR then lead_scan cs
      else if c = CHR ''#'' then
        (case dropWhile (\<lambda>c. c \<noteq> NEWLINE) cs of [] \<Rightarrow> (T_EOF, []) | _ # r \<Rightarrow> (T_NEWLINE, r))
      else (T_TEXT, c # cs))"

definition scan_token :: "scan_state \<Rightarrow> token \<times> string \<times> scan_state" where
  "scan_token st =
     (if pending st \<noteq> T_EOF then (pending st, [], st\<lparr>pending := T_EOF\<rparr>)
      else let (t, r) = lead_scan (rest st) in
        if t = T_TEXT then text_scan [] r (scan_line st) else (t, [], st\<lparr>rest := r\<rparr>))"

subsection \<open>The tokenizer in place is the tokenizer on strings\<close>

text \<open>What is still to be read.\<close>

definition terminated :: "string \<Rightarrow> nat \<Rightarrow> bool" where
  "terminated b x \<longleftrightarrow> NUL \<in> set (drop x b)"

definition unread :: "string \<Rightarrow> nat \<Rightarrow> string" where
  "unread b x = cstr (drop x b)"

definition scan_of :: "parse_state \<Rightarrow> scan_state" where
  "scan_of st = \<lparr>rest = unread (buf st) (ptr st), scan_line = line st, pending = nexttoken st\<rparr>"

lemma terminated_length [simp]: "terminated b x \<Longrightarrow> x < length b"
  by (rule ccontr) (simp add: terminated_def)

lemma terminated_Suc: "terminated b x \<Longrightarrow> b ! x \<noteq> NUL \<Longrightarrow> terminated b (Suc x)"
  unfolding terminated_def using Cons_nth_drop_Suc [of x b]
  by (metis drop_all empty_iff empty_set linorder_not_less set_ConsD)

lemma unread_Cons: "x < length b \<Longrightarrow> b ! x \<noteq> NUL \<Longrightarrow> unread b x = b ! x # unread b (Suc x)"
  using Cons_nth_drop_Suc [of x b] by (metis unread_def cstr_simps(2))

lemma unread_NUL: "x < length b \<Longrightarrow> b ! x = NUL \<Longrightarrow> unread b x = []"
  using Cons_nth_drop_Suc [of x b] by (metis unread_def cstr_simps(2))

lemma terminated_wr [simp]: "s < x \<Longrightarrow> terminated (b[s := c]) x = terminated b x"
  by (simp add: terminated_def)

lemma unread_wr [simp]: "s < x \<Longrightarrow> unread (b[s := c]) x = unread b x"
  by (simp add: unread_def)

lemma skip_comment_unread:
  "terminated b x \<Longrightarrow> \<exists>y. skip_comment b x = Some y \<and> x \<le> y \<and> terminated b y \<and>
     unread b y = dropWhile (\<lambda>c. c \<noteq> NEWLINE) (unread b x)"
proof (induction b x rule: skip_comment.induct)
  case (1 b x)
  have l: "x < length b" using 1(2) by simp
  show ?case
  proof (cases "b ! x = NUL")
    case True then show ?thesis using l 1(2) by (simp add: skip_comment.simps [of b x] rd_def unread_NUL)
  next
    case False
    then show ?thesis
      using l 1(1) [of "b ! x"] 1(2) terminated_Suc [OF 1(2) False]
      by (auto simp: skip_comment.simps [of b x] rd_def unread_Cons)
  qed
qed

lemma skip_blanks_unread:
  "terminated b x \<Longrightarrow> \<exists>y. skip_blanks b x = Some y \<and> x \<le> y \<and> terminated b y \<and>
     unread b y = dropWhile blank (unread b x)"
proof (induction b x rule: skip_blanks.induct)
  case (1 b x)
  have l: "x < length b" using 1(2) by simp
  show ?case
  proof (cases "b ! x = NUL")
    case True then show ?thesis using l 1(2) by (simp add: skip_blanks.simps [of b x] rd_def unread_NUL char_defs)
  next
    case False
    then show ?thesis
      using l 1(1) [of "b ! x"] 1(2) terminated_Suc [OF 1(2) False]
      by (auto simp: skip_blanks.simps [of b x] rd_def unread_Cons blank_def)
  qed
qed

lemma lead_unread:
  "terminated b x \<Longrightarrow> \<exists>t y. lead b x = Some (t, y) \<and> x \<le> y \<and> terminated b y \<and> lead_scan (unread b x) = (t, unread b y) \<and>
     (t = T_TEXT \<longrightarrow> b ! y \<noteq> NUL)"
proof (induction b x rule: lead.induct)
  case (1 b x)
  have l: "x < length b" using 1(2) by simp
  show ?case
  proof (cases "b ! x = NUL")
    case True then show ?thesis using l 1(2) by (simp add: lead.simps [of b x] rd_def unread_NUL)
  next
    case False
    note t = terminated_Suc [OF 1(2) False]
    show ?thesis
    proof (cases "b ! x = CHR ''#''")
      case True
      obtain y where y: "skip_comment b x = Some y" "terminated b y" "x \<le> y"
        "unread b y = dropWhile (\<lambda>c. c \<noteq> NEWLINE) (unread b (Suc x))"
        using skip_comment_unread [OF 1(2)] unread_Cons [OF l False] True by (auto simp: char_defs)
      show ?thesis
      proof (cases "b ! y = NUL")
        case nul: True
        then show ?thesis using y l True False
          by (simp add: lead.simps [of b x] rd_def unread_Cons char_defs unread_NUL blank_def)
      next
        case nn: False
        note u = unread_Cons [OF terminated_length [OF y(2)] nn]
        have "b ! y = NEWLINE" using u y(4) hd_dropWhile [of "\<lambda>c. c \<noteq> NEWLINE" "unread b (Suc x)"] by fastforce
        then show ?thesis using y(1-3) y(4) [symmetric] l True False u terminated_Suc [OF y(2) nn]
          by (auto simp: lead.simps [of b x] rd_def unread_Cons char_defs blank_def)
      qed
    next
      case h: False
      then show ?thesis
        using l False 1(1) [of "b ! x"] 1(2) t
        by (auto simp: lead.simps [of b x] rd_def unread_Cons blank_def)
    qed
  qed
qed

text \<open>
  The text read so far is \<open>acc\<close>, written from \<open>t\<close> up to \<open>s\<close>; nothing is written at or after
  the index \<open>x\<close> that is read next.
\<close>

definition token_at :: "string \<Rightarrow> nat \<Rightarrow> nat \<Rightarrow> nat \<Rightarrow> string \<Rightarrow> bool" where
  "token_at b t s x acc \<longleftrightarrow> t \<le> s \<and> s \<le> x \<and> terminated b x \<and> is_cstr acc \<and> take (s - t) (drop t b) = acc"

lemma token_at_start: "terminated b x \<Longrightarrow> token_at b x x x []"
  by (simp add: token_at_def)

lemma token_at_write:
  assumes "token_at b t s x acc" and "c \<noteq> NUL" and "terminated b x'" and "x < x'"
  shows "token_at (b[s := c]) t (Suc s) x' (acc @ [c])"
proof -
  have l: "t \<le> s" "s \<le> x" "x < length b" using assms(1) by (auto simp: token_at_def)
  have "take (Suc s - t) (drop t (b[s := c])) = take (s - t) (drop t b) @ [c]"
    using l by (simp add: drop_update_swap Suc_diff_le take_Suc_conv_app_nth)
  then show ?thesis using assms l by (simp add: token_at_def)
qed

lemma token_at_skip: "token_at b t s x acc \<Longrightarrow> terminated b x' \<Longrightarrow> x \<le> x' \<Longrightarrow> token_at b t s x' acc"
  by (simp add: token_at_def)

text \<open>What next_token may change of the buffer.\<close>

definition only_between :: "nat \<Rightarrow> nat \<Rightarrow> string \<Rightarrow> string \<Rightarrow> bool" where
  "only_between t x b b' \<longleftrightarrow> length b' = length b \<and> (\<forall>i. i < t \<or> x \<le> i \<longrightarrow> b' ! i = b ! i)"

lemma only_between_refl [simp]: "only_between t x b b"
  by (simp add: only_between_def)

lemma only_between_trans:
  "only_between t x b b' \<Longrightarrow> only_between t y b' b'' \<Longrightarrow> x \<le> y \<Longrightarrow> only_between t y b b''"
  by (simp add: only_between_def)

lemma only_between_wr: "t \<le> s \<Longrightarrow> s < x \<Longrightarrow> only_between t x b (b[s := c])"
  by (auto simp: only_between_def nth_list_update)

lemma quoted_scan:
  assumes "token_at b t s x acc"
  shows "\<exists>ok b' x' s'. quoted b x s = Some (ok, b', x', s') \<and> x \<le> x' \<and> only_between t x' b b' \<and> terminated b' x' \<and>
    (case quote_scan (unread b x) of
       None \<Rightarrow> \<not> ok \<and> unread b' x' = []
     | Some (q, r) \<Rightarrow> ok \<and> token_at b' t s' x' (acc @ q) \<and> unread b' x' = r)"
  using assms
proof (induction b x s arbitrary: acc rule: quoted.induct)
  case (1 b x s)
  have tb: "terminated b x" using 1(2) by (simp add: token_at_def)
  then have l: "x < length b" by simp
  show ?case
  proof (cases "b ! x = NUL")
    case True
    then show ?thesis using l tb by (auto simp: quoted.simps [of b x s] rd_def unread_NUL)
  next
    case False
    note t = terminated_Suc [OF tb False] and u = unread_Cons [OF l False]
    show ?thesis
    proof (cases "b ! x = QUOTE")
      case True
      then show ?thesis using l t u False token_at_skip [OF 1(2) t] by (auto simp: quoted.simps [of b x s] rd_def)
    next
      case nq: False
      let ?b = "b[s := b ! x]"
      have s: "t \<le> s" "s \<le> x" using 1(2) by (simp_all add: token_at_def)
      then have s: "t \<le> s" "s \<le> x" "s < length b" using l by simp_all
      have w: "wr b s (b ! x) = Some ?b" using s by simp
      note tk = token_at_write [OF 1(2) False t lessI]
      obtain ok b' x' s' where IH: "quoted ?b (Suc x) (Suc s) = Some (ok, b', x', s')" "Suc x \<le> x'"
        "only_between t x' ?b b'" "terminated b' x'"
        "case quote_scan (unread ?b (Suc x)) of None \<Rightarrow> \<not> ok \<and> unread b' x' = []
         | Some (q, r) \<Rightarrow> ok \<and> token_at b' t s' x' ((acc @ [b ! x]) @ q) \<and> unread b' x' = r"
        using 1(1) [OF _ False nq w tk] l by auto
      have "only_between t x' b b'" using IH(2,3) s by (intro only_between_trans [OF only_between_wr [of t s "Suc x"] IH(3)]) simp_all
      moreover have "unread ?b (Suc x) = unread b (Suc x)" using s by simp
      moreover have "quoted b x s = quoted ?b (Suc x) (Suc s)"
        using l s False nq by (simp add: quoted.simps [of b x s] rd_def wr_def)
      ultimately show ?thesis using IH u nq by (auto split: option.splits)
    qed
  qed
qed

text \<open>The result of the loop, for a token that starts at \<open>t\<close>.\<close>

definition reads_token ::
  "nat \<Rightarrow> string \<Rightarrow> nat \<Rightarrow> parse_state \<Rightarrow> (token \<times> parse_state) option \<Rightarrow> token \<times> string \<times> scan_state \<Rightarrow> bool" where
  "reads_token t b x st r spec \<longleftrightarrow> (\<exists>tok st' txt. r = Some (tok, st') \<and> spec = (tok, txt, scan_of st') \<and>
     x \<le> ptr st' \<and> only_between t (ptr st') b (buf st') \<and> terminated (buf st') (ptr st') \<and>
     token_text st' = token_text st \<and> (tok = T_TEXT \<longrightarrow> unread (buf st') t = txt))"

lemma reads_token_mono:
  assumes "reads_token t b' x' st' r spec" and "only_between t x' b b'" and "x \<le> x'" and "token_text st' = token_text st"
  shows "reads_token t b x st r spec"
  using assms only_between_trans [OF assms(2)] unfolding reads_token_def by fastforce

lemma textdone_reads:
  assumes tk: "token_at b t s x acc" and x: "x \<le> x'" "terminated b x'" and w: "s < x' \<or> b ! x' = NUL"
    and sc: "sc = \<lparr>rest = unread b x', scan_line = line st, pending = nexttoken st\<rparr>"
  shows "reads_token t b x st (textdone b x' s st) (T_TEXT, acc, sc)"
proof -
  let ?b = "b[s := NUL]"
  have s: "t \<le> s" "s \<le> x" "x' < length b" using tk x by (auto simp: token_at_def)
  have same: "drop x' ?b = drop x' b"
  proof (cases "s < x'")
    case False
    then have "s = x'" using s x by simp
    then show ?thesis using w by (metis list_update_id less_irrefl)
  qed simp
  have "b ! s = NUL" if "s = x'" using w that by simp
  moreover have sl: "s < length b" using s x(1) by linarith
  moreover have "i = s \<Longrightarrow> x' \<le> i \<Longrightarrow> s = x'" for i using s x(1) by simp
  ultimately have ob: "only_between t x' b ?b" using s(1) by (auto simp: only_between_def nth_list_update)
  have "drop t ?b = take (s - t) (drop t b) @ NUL # drop (Suc s) b"
    using s(1) sl by (simp add: drop_update_swap upd_conv_take_nth_drop drop_take)
  then have "unread ?b t = acc" using tk by (simp add: unread_def token_at_def cstr_append)
  moreover have "textdone b x' s st = Some (T_TEXT, st\<lparr>buf := ?b, ptr := x'\<rparr>)" using sl by (simp add: textdone_def wr_def)
  moreover have "terminated ?b x'" "unread ?b x' = unread b x'" using same x(2) by (simp_all add: terminated_def unread_def)
  ultimately show ?thesis using x(1) ob sc by (simp add: reads_token_def scan_of_def)
qed

text \<open>The induction hypothesis: the claim for a later index.\<close>

definition resumes :: "nat \<Rightarrow> nat \<Rightarrow> nat \<Rightarrow> bool" where
  "resumes t n x \<longleftrightarrow> (\<forall>b s x' st acc. token_at b t s x' acc \<and> nexttoken st = T_EOF \<and> x < x' \<and> length b = n \<longrightarrow>
     reads_token t b x' st (textresume b x' s st) (text_scan acc (unread b x') (line st)))"

lemma resumes_after:
  assumes "resumes t (length b) x" and "token_at b' t s' x' acc'" and "nexttoken st' = T_EOF" and "x < x'"
    and "only_between t x' b b'" and "token_text st' = token_text st"
  shows "reads_token t b x st (textresume b' x' s' st') (text_scan acc' (unread b' x') (line st'))"
proof (rule reads_token_mono)
  show "reads_token t b' x' st' (textresume b' x' s' st') (text_scan acc' (unread b' x') (line st'))"
    using assms by (simp add: resumes_def only_between_def)
qed (use assms in simp_all)

lemma resumes_write:
  assumes "resumes t (length b) x" and "token_at b t s x acc" and "c \<noteq> NUL" and "terminated b x'" and "x < x'"
    and "nexttoken st = T_EOF"
  shows "reads_token t b x st (textresume (b[s := c]) x' (Suc s) st) (text_scan (acc @ [c]) (unread b x') (line st))"
proof -
  have "t \<le> s" "s < x'" using assms(2,5) by (auto simp: token_at_def)
  then show ?thesis
    using resumes_after [OF assms(1) token_at_write [OF assms(2-5)] assms(6,5) only_between_wr refl] by simp
qed

lemma textresume_quote:
  assumes IH: "resumes t (length b) x" and tk: "token_at b t s x acc" and nx: "nexttoken st = T_EOF"
    and a: "b ! x = QUOTE"
  shows "reads_token t b x st (textresume b x s st) (text_scan acc (unread b x) (line st))"
proof -
  have tb: "terminated b x" using tk by (simp add: token_at_def)
  then have l: "x < length b" by simp
  have c: "\<not> blank QUOTE" "QUOTE \<noteq> CR" "QUOTE \<noteq> NEWLINE" "QUOTE \<noteq> NUL" "QUOTE \<noteq> TAB" "QUOTE \<noteq> CHR '' ''"
    by (simp_all add: blank_def char_defs)
  have t1: "terminated b (Suc x)" and u1: "unread b x = QUOTE # unread b (Suc x)"
    using terminated_Suc [OF tb] unread_Cons [OF l] a c by simp_all
  obtain ok b' x' s' where q: "quoted b (Suc x) s = Some (ok, b', x', s')" "Suc x \<le> x'" "only_between t x' b b'"
    "terminated b' x'" "case quote_scan (unread b (Suc x)) of None \<Rightarrow> \<not> ok \<and> unread b' x' = []
      | Some (q, r) \<Rightarrow> ok \<and> token_at b' t s' x' (acc @ q) \<and> unread b' x' = r"
    using quoted_scan [OF token_at_skip [OF tk t1]] by auto
  have E: "textresume b x s st = (if ok then textresume b' x' s' st else Some (T_EOF, st\<lparr>buf := b', ptr := x'\<rparr>))"
    using a c l q(1) by (simp add: textresume.simps [of b x s st] rd_def)
  show ?thesis
  proof (cases "quote_scan (unread b (Suc x))")
    case None
    then show ?thesis
      using q c u1 nx by (auto simp: E text_scan.simps(2) reads_token_def scan_of_def)
  next
    case (Some p)
    obtain qq r where p: "p = (qq, r)" by (cases p)
    show ?thesis
      using resumes_after [OF IH, of b' s' x' "acc @ qq" st st] q Some p c u1 nx by (auto simp: E text_scan.simps(2) [of acc])
  qed
qed

lemma textresume_escape:
  assumes IH: "resumes t (length b) x" and tk: "token_at b t s x acc" and nx: "nexttoken st = T_EOF"
    and a: "b ! x = BACKSLASH"
  shows "reads_token t b x st (textresume b x s st) (text_scan acc (unread b x) (line st))"
proof -
  let ?d = "b ! Suc x"
  have tb: "terminated b x" and ts: "t \<le> s" "s \<le> x" using tk by (simp_all add: token_at_def)
  have l: "x < length b" using tb by simp
  then have sl: "s < length b" using ts by simp
  have c: "\<not> blank BACKSLASH" "BACKSLASH \<noteq> CR" "BACKSLASH \<noteq> NEWLINE" "BACKSLASH \<noteq> QUOTE" "BACKSLASH \<noteq> NUL"
    "BACKSLASH \<noteq> TAB" "BACKSLASH \<noteq> CHR '' ''" "BACKSLASH \<noteq> CHR ''n''" "BACKSLASH \<noteq> CHR ''r''" "BACKSLASH \<noteq> CHR ''t''"
    by (simp_all add: blank_def char_defs)
  have t1: "terminated b (Suc x)" and u1: "unread b x = BACKSLASH # unread b (Suc x)"
    using terminated_Suc [OF tb] unread_Cons [OF l] a c by simp_all
  have l1: "Suc x < length b" using t1 by simp
  note E = textresume.simps [of b x s st] and T = text_scan.simps(2) [of acc]
  show ?thesis
  proof (cases "?d = NUL")
    case True
    then show ?thesis
      using textdone_reads [OF tk _ t1 _ refl, of st] nx l l1 ts u1 a c by (simp add: E T rd_def unread_NUL)
  next
    case dn: False
    note t2 = terminated_Suc [OF t1 dn] and u2 = unread_Cons [OF l1 dn]
    have l2: "Suc (Suc x) < length b" using t2 by simp
    have lf: "unread b (Suc (Suc x)) = [] \<or> hd (unread b (Suc (Suc x))) \<noteq> NEWLINE \<longleftrightarrow> b ! Suc (Suc x) \<noteq> NEWLINE"
      using l2 by (cases "b ! Suc (Suc x) = NUL") (simp_all add: unread_NUL unread_Cons char_defs)
    have lf': "CR \<noteq> NEWLINE" "NEWLINE \<noteq> CR" by (simp_all add: char_defs)
    consider e where "escape ?d = Some e" | "escape ?d = None" "?d = CR" "b ! Suc (Suc x) \<noteq> NEWLINE"
      | "escape ?d = None" "?d = CR \<and> b ! Suc (Suc x) = NEWLINE \<or> ?d = NEWLINE"
      | "escape ?d = None" "?d \<noteq> CR" "?d \<noteq> NEWLINE" by fastforce
    then show ?thesis
    proof cases
      case (1 e)
      then have d: "?d = CHR ''n'' \<and> e = NEWLINE \<or> ?d = CHR ''r'' \<and> e = CR \<or> ?d = CHR ''t'' \<and> e = TAB \<or>
          ?d = BACKSLASH \<and> e = BACKSLASH" by (auto simp: escape_def split: if_splits)
      then have "textresume b x s st = textresume (b[s := e]) (Suc x) (Suc s) st"
        using a c l l1 sl dn by (elim disjE) (simp_all add: E rd_def wr_def)
      moreover have "e \<noteq> NUL" using d by (auto simp: char_defs)
      ultimately show ?thesis using resumes_write [OF IH tk _ t1 lessI nx, of e] c u1 u2 1 by (simp add: T)
    next
      case 2
      then show ?thesis
        using resumes_after [OF IH token_at_skip [OF tk t2] nx, of st] a c l l1 l2 u1 u2 lf
        by (simp add: E T rd_def escape_def split: if_splits) (simp add: char_defs)
    next
      case 3
      obtain y where y: "skip_blanks b (Suc (Suc x)) = Some y" "Suc (Suc x) \<le> y" "terminated b y"
        "unread b y = dropWhile blank (unread b (Suc (Suc x)))"
        using skip_blanks_unread [OF t2] by blast
      have "textresume b x s st = textresume b y s (st\<lparr>line := line st + 1\<rparr>)"
        using a c l l1 l2 dn 3 y(1) by (auto simp: E rd_def char_defs)
      moreover have "text_scan acc (unread b x) (line st) = text_scan acc (unread b y) (line st + 1)"
        using c 3 lf u1 u2 y(4) lf' by (auto simp: T)
      ultimately show ?thesis
        using resumes_after [OF IH token_at_skip [OF tk y(3)], of "st\<lparr>line := line st + 1\<rparr>" st] y(2) nx by simp
    next
      case 4
      then have "textresume b x s st = textresume (b[s := ?d]) (Suc (Suc x)) (Suc s) st"
        using a c l l1 sl dn by (auto simp: E rd_def wr_def escape_def split: if_splits)
      then show ?thesis using resumes_write [OF IH tk dn t2 _ nx] c u1 u2 4 by (simp add: T)
    qed
  qed
qed

lemma textresume_reads:
  assumes "token_at b t s x acc" and "nexttoken st = T_EOF"
  shows "reads_token t b x st (textresume b x s st) (text_scan acc (unread b x) (line st))"
  using assms
proof (induction "length b - x" arbitrary: b x s st acc rule: less_induct)
  case less
  note tk = less.prems(1) and nx = less.prems(2)
  have tb: "terminated b x" and ts: "t \<le> s" "s \<le> x" using tk by (simp_all add: token_at_def)
  have l: "x < length b" using tb by simp
  then have sl: "s < length b" using ts by simp
  have IH: "resumes t (length b) x" using l by (auto simp: resumes_def intro!: less.hyps)
  note E = textresume.simps [of b x s st] and T = text_scan.simps(2) [of acc]
  show ?case
  proof (cases "b ! x = NUL")
    case True
    then show ?thesis
      using textdone_reads [OF tk order_refl tb _ refl, of st] nx l by (simp add: E rd_def unread_NUL)
  next
    case nn: False
    let ?c = "b ! x"
    note t1 = terminated_Suc [OF tb nn] and u1 = unread_Cons [OF l nn]
    consider "blank ?c \<or> ?c = CR" | "?c = NEWLINE" | "?c = QUOTE" | "?c = BACKSLASH"
      | "\<not> blank ?c" "?c \<noteq> CR" "?c \<noteq> NEWLINE" "?c \<noteq> QUOTE" "?c \<noteq> BACKSLASH" by blast
    then show ?thesis
    proof cases
      case 1
      then show ?thesis
        using textdone_reads [OF tk _ t1 _ refl, of st] nx l nn ts u1 by (auto simp: E T rd_def blank_def)
    next
      case 2
      have "reads_token t b x (st\<lparr>nexttoken := T_NEWLINE\<rparr>) (textdone b (Suc x) s (st\<lparr>nexttoken := T_NEWLINE\<rparr>))
          (T_TEXT, acc, \<lparr>rest = unread b (Suc x), scan_line = line st, pending = T_NEWLINE\<rparr>)"
        using ts by (intro textdone_reads [OF tk _ t1]) simp_all
      then show ?thesis
        using 2 l nn u1 by (auto simp: E T rd_def blank_def char_defs reads_token_def)
    next
      case 5
      then have "textresume b x s st = textresume (b[s := ?c]) (Suc x) (Suc s) st"
        using l sl nn by (simp add: E rd_def wr_def blank_def)
      then show ?thesis using resumes_write [OF IH tk nn t1 lessI nx] 5 u1 by (simp add: T)
    qed (use textresume_quote [OF IH tk nx] textresume_escape [OF IH tk nx] in simp_all)
  qed
qed

text \<open>
  C23: on a NUL-terminated buffer next_token never reads or writes outside the buffer,
  terminates, and behaves as the tokenizer on strings: it returns the same kind of token,
  the string at the pointer it sets is the token's text, and what remains to be read, the
  line counter and the pending token are the same. Although the text is written over the
  buffer, nothing before the old read pointer (the earlier tokens) and nothing from the
  new read pointer on (the input still to be read) is changed.
\<close>

theorem next_token_in_place:
  assumes "terminated (buf st) (ptr st)"
  shows "\<exists>tok st' txt. next_token st = Some (tok, st') \<and> scan_token (scan_of st) = (tok, txt, scan_of st') \<and>
    terminated (buf st') (ptr st') \<and> ptr st \<le> ptr st' \<and> length (buf st') = length (buf st) \<and>
    (\<forall>i. i < ptr st \<or> ptr st' \<le> i \<longrightarrow> buf st' ! i = buf st ! i) \<and>
    (tok = T_TEXT \<and> nexttoken st = T_EOF \<longrightarrow> unread (buf st') (token_text st') = txt)"
proof (cases "nexttoken st = T_EOF")
  case False
  then show ?thesis using assms by (auto simp: next_token_def scan_token_def scan_of_def)
next
  case nx: True
  obtain t y where y: "lead (buf st) (ptr st) = Some (t, y)" "ptr st \<le> y" "terminated (buf st) y"
    "lead_scan (unread (buf st) (ptr st)) = (t, unread (buf st) y)"
    using lead_unread [OF assms] by blast
  show ?thesis
  proof (cases "t = T_TEXT")
    case False
    then show ?thesis using y nx by (auto simp: next_token_def scan_token_def scan_of_def)
  next
    case True
    have "reads_token y (buf st) y (st\<lparr>token_text := y\<rparr>) (textresume (buf st) y y (st\<lparr>token_text := y\<rparr>))
        (text_scan [] (unread (buf st) y) (line st))"
      using textresume_reads [OF token_at_start [OF y(3)], of "st\<lparr>token_text := y\<rparr>"] nx by simp
    then show ?thesis
      using y nx True by (fastforce simp: reads_token_def next_token_def scan_token_def scan_of_def only_between_def)
  qed
qed

theorem next_token_in_place_witness:
  "\<exists>st'. next_token \<lparr>buf = ''a\"b c\" d'' @ [NUL], ptr = 0, token_text = 0, line = 0, nexttoken = T_EOF\<rparr> = Some (T_TEXT, st') \<and>
     unread (buf st') (token_text st') = ''ab c'' \<and> unread (buf st') (ptr st') = ''d''"
proof -
  let ?st = "\<lparr>buf = ''a\"b c\" d'' @ [NUL], ptr = 0, token_text = 0, line = 0, nexttoken = T_EOF\<rparr>"
  have t: "terminated (buf ?st) (ptr ?st)" by (simp add: terminated_def)
  have s: "scan_token (scan_of ?st) = (T_TEXT, ''ab c'', \<lparr>rest = ''d'', scan_line = 0, pending = T_EOF\<rparr>)"
    by (simp add: scan_of_def scan_token_def unread_def text_scan.simps(2) blank_def char_defs)
  obtain st' where "next_token ?st = Some (T_TEXT, st')" "scan_of st' = \<lparr>rest = ''d'', scan_line = 0, pending = T_EOF\<rparr>"
    "unread (buf st') (token_text st') = ''ab c''"
    using next_token_in_place [OF t] unfolding s by auto
  then show ?thesis by (auto simp: scan_of_def)
qed

subsection \<open>Progress\<close>

definition scan_size :: "scan_state \<Rightarrow> nat" where
  "scan_size st = 2 * length (rest st) + (if pending st = T_EOF then 0 else 1)"

lemma lead_scan_length: "lead_scan cs = (t, r) \<Longrightarrow> length r \<le> length cs \<and> (t = T_NEWLINE \<longrightarrow> length r < length cs) \<and> (t = T_TEXT \<longrightarrow> r \<noteq> [])"
proof (induction cs rule: lead_scan.induct)
  case (2 c cs)
  have "length (dropWhile P cs) \<le> length cs" for P by (rule length_dropWhile_le)
  then show ?case using 2
    by (auto split: if_splits list.splits) (metis Suc_le_lessD length_Cons less_imp_le_nat le_imp_less_Suc)+
qed simp

lemma text_scan_length: "length (rest (snd (snd (text_scan acc cs ln)))) \<le> length cs - 1"
proof (induction acc cs ln rule: text_scan.induct)
  case (2 acc c cs ln)
  note T = text_scan.simps(2) [of acc]
  consider "blank c \<or> c = CR \<or> c = NEWLINE" | "c = QUOTE" | "c = BACKSLASH"
    | "\<not> blank c" "c \<noteq> CR" "c \<noteq> NEWLINE" "c \<noteq> QUOTE" "c \<noteq> BACKSLASH" by blast
  then show ?case
  proof cases
    case 2
    have n: "\<not> (blank c \<or> c = CR)" "c \<noteq> NEWLINE" using 2 by (simp_all add: blank_def char_defs)
    show ?thesis
    proof (cases "quote_scan cs")
      case (Some p)
      obtain q r where p: "p = (q, r)" by (cases p)
      have "length (rest (snd (snd (text_scan (acc @ q) r ln)))) \<le> length r - 1"
        using "2.IH"(1) [OF n 2 _ p [symmetric] ] Some by simp
      then show ?thesis using 2 n Some p quote_scan_length [of cs q r] by (simp add: T)
    qed (use 2 n in \<open>simp add: T\<close>)
  next
    case 3
    have n: "\<not> (blank c \<or> c = CR)" "c \<noteq> NEWLINE" "c \<noteq> QUOTE" using 3 by (simp_all add: blank_def char_defs)
    show ?thesis
    proof (cases cs)
      case (Cons d ds)
      have dl: "length (dropWhile blank ds) \<le> length ds" by (rule length_dropWhile_le)
      note IH = "2.IH"(2-5) [OF n 3 Cons]
      show ?thesis
      proof (cases "escape d")
        case None
        then show ?thesis
          using IH(1-3) dl 3 n Cons
          by (cases "d = CR \<and> (ds = [] \<or> hd ds \<noteq> NEWLINE)"; cases "d = CR \<or> d = NEWLINE") (auto simp: T)
      qed (use IH(4) 3 n Cons in \<open>auto simp: T\<close>)
    qed (use 3 n in \<open>simp add: T\<close>)
  next
    case 4
    then show ?thesis using "2.IH"(6) by (simp add: T)
  qed (auto simp: T)
qed simp

lemma scan_token_progress:
  assumes "scan_token st = (tok, x, st')" and "tok \<noteq> T_EOF"
  shows "scan_size st' < scan_size st"
proof (cases "pending st = T_EOF")
  case False
  then show ?thesis using assms by (auto simp: scan_token_def scan_size_def)
next
  case True
  obtain t r where l: "lead_scan (rest st) = (t, r)" by (cases "lead_scan (rest st)")
  note L = lead_scan_length [OF l]
  show ?thesis
  proof (cases "t = T_TEXT")
    case False
    then show ?thesis using assms True l L by (auto simp: scan_token_def scan_size_def)
        (metis token.exhaust)
  next
    case True
    then have "st' = snd (snd (text_scan [] r (scan_line st)))" "r \<noteq> []"
      using assms \<open>pending st = T_EOF\<close> l L by (simp_all add: scan_token_def)
    then have "length (rest st') < length (rest st)"
      using text_scan_length [of "[]" r "scan_line st"] L by (cases r) auto
    then show ?thesis using \<open>pending st = T_EOF\<close> by (simp add: scan_size_def)
  qed
qed

text \<open>
  The escapes of n, r and t put the character they stand for into the text, and then the
  letter as well, since the letter is read again. An escaped backslash starts an escape.
\<close>

lemma escape_read_twice:
  assumes "escape d = Some e" and "d \<noteq> BACKSLASH"
  shows "text_scan acc (BACKSLASH # d # ds) ln = text_scan (acc @ [e, d]) ds ln"
proof -
  have c: "\<not> blank BACKSLASH" "BACKSLASH \<noteq> CR" "BACKSLASH \<noteq> NEWLINE" "BACKSLASH \<noteq> QUOTE"
    by (simp_all add: blank_def char_defs)
  have "\<not> blank d" "d \<noteq> CR" "d \<noteq> NEWLINE" "d \<noteq> QUOTE"
    using assms by (auto simp: escape_def blank_def char_defs split: if_splits)
  then show ?thesis using assms c by (simp add: text_scan.simps(2))
qed

end
