(* ===== verification/Init_Keywords.thy ===== *)
theory Init_Keywords
  imports C_String
begin

text \<open>
  The keywords of rc files: the table of \<^verbatim>\<open>init/init/keywords.h\<close> and lookup_keyword of
  \<^verbatim>\<open>init/init/init_parser.c\<close>.
\<close>

datatype (plugins only: code size) keyword =
    K_UNKNOWN | K_capability | K_chdir | K_chroot | K_class | K_class_start | K_class_stop
    | K_class_reset | K_console | K_critical | K_disabled | K_domainname | K_exec | K_export
    | K_group | K_hostname | K_ifup | K_insmod | K_import | K_keycodes | K_mkdir | K_mount_all
    | K_mount | K_on | K_oneshot | K_onrestart | K_powerctl | K_restart | K_restorecon | K_rm
    | K_rmdir | K_seclabel | K_service | K_setcon | K_setenforce | K_setenv | K_setkey | K_setprop
    | K_setrlimit | K_setsebool | K_socket | K_start | K_stop | K_swapon_all | K_trigger | K_symlink
    | K_sysclktz | K_user | K_wait | K_write | K_copy | K_chown | K_chmod | K_loglevel
    | K_load_persist_props | K_ioprio

text \<open>The functions of \<^verbatim>\<open>builtins.c\<close> the table points to, and the actions init itself queues.\<close>

datatype (plugins only: code size) command_func =
    Do_chdir | Do_chroot | Do_class_start | Do_class_stop | Do_class_reset | Do_domainname | Do_exec
    | Do_export | Do_hostname | Do_ifup | Do_insmod | Do_mkdir | Do_mount_all | Do_mount
    | Do_powerctl | Do_restart | Do_restorecon | Do_rm | Do_rmdir | Do_setcon | Do_setenforce
    | Do_setkey | Do_setprop | Do_setrlimit | Do_setsebool | Do_start | Do_stop | Do_swapon_all
    | Do_trigger | Do_symlink | Do_sysclktz | Do_wait | Do_write | Do_copy | Do_chown | Do_chmod
    | Do_loglevel | Do_load_persist_props | Wait_for_coldboot_done_action
    | Mix_hwrng_into_linux_rng_action | Keychord_init_action | Console_init_action
    | Property_service_init_action | Signal_init_action | Check_startup_action
    | Queue_property_triggers_action | Bootchart_init_action

datatype keyword_flag = SECTION | COMMAND | OPTION

record keyword_entry =
  ki_name :: string
  ki_func :: "command_func option"
  ki_nargs :: nat
  ki_flags :: "keyword_flag option"

text \<open>An entry of the table: KEYWORD stores one argument more, for the keyword itself.\<close>

definition KEYWORD :: "string \<Rightarrow> keyword_flag \<Rightarrow> nat \<Rightarrow> command_func option \<Rightarrow> keyword_entry" where
  "KEYWORD symbol flags nargs func =
     \<lparr>ki_name = symbol, ki_func = func, ki_nargs = nargs + 1, ki_flags = Some flags\<rparr>"

fun keyword_info :: "keyword \<Rightarrow> keyword_entry" where
  "keyword_info K_UNKNOWN = \<lparr>ki_name = ''unknown'', ki_func = None, ki_nargs = 0, ki_flags = None\<rparr>"
| "keyword_info K_capability = KEYWORD ''capability'' OPTION 0 None"
| "keyword_info K_chdir = KEYWORD ''chdir'' COMMAND 1 (Some Do_chdir)"
| "keyword_info K_chroot = KEYWORD ''chroot'' COMMAND 1 (Some Do_chroot)"
| "keyword_info K_class = KEYWORD ''class'' OPTION 0 None"
| "keyword_info K_class_start = KEYWORD ''class_start'' COMMAND 1 (Some Do_class_start)"
| "keyword_info K_class_stop = KEYWORD ''class_stop'' COMMAND 1 (Some Do_class_stop)"
| "keyword_info K_class_reset = KEYWORD ''class_reset'' COMMAND 1 (Some Do_class_reset)"
| "keyword_info K_console = KEYWORD ''console'' OPTION 0 None"
| "keyword_info K_critical = KEYWORD ''critical'' OPTION 0 None"
| "keyword_info K_disabled = KEYWORD ''disabled'' OPTION 0 None"
| "keyword_info K_domainname = KEYWORD ''domainname'' COMMAND 1 (Some Do_domainname)"
| "keyword_info K_exec = KEYWORD ''exec'' COMMAND 1 (Some Do_exec)"
| "keyword_info K_export = KEYWORD ''export'' COMMAND 2 (Some Do_export)"
| "keyword_info K_group = KEYWORD ''group'' OPTION 0 None"
| "keyword_info K_hostname = KEYWORD ''hostname'' COMMAND 1 (Some Do_hostname)"
| "keyword_info K_ifup = KEYWORD ''ifup'' COMMAND 1 (Some Do_ifup)"
| "keyword_info K_insmod = KEYWORD ''insmod'' COMMAND 1 (Some Do_insmod)"
| "keyword_info K_import = KEYWORD ''import'' SECTION 1 None"
| "keyword_info K_keycodes = KEYWORD ''keycodes'' OPTION 0 None"
| "keyword_info K_mkdir = KEYWORD ''mkdir'' COMMAND 1 (Some Do_mkdir)"
| "keyword_info K_mount_all = KEYWORD ''mount_all'' COMMAND 1 (Some Do_mount_all)"
| "keyword_info K_mount = KEYWORD ''mount'' COMMAND 3 (Some Do_mount)"
| "keyword_info K_on = KEYWORD ''on'' SECTION 0 None"
| "keyword_info K_oneshot = KEYWORD ''oneshot'' OPTION 0 None"
| "keyword_info K_onrestart = KEYWORD ''onrestart'' OPTION 0 None"
| "keyword_info K_powerctl = KEYWORD ''powerctl'' COMMAND 1 (Some Do_powerctl)"
| "keyword_info K_restart = KEYWORD ''restart'' COMMAND 1 (Some Do_restart)"
| "keyword_info K_restorecon = KEYWORD ''restorecon'' COMMAND 1 (Some Do_restorecon)"
| "keyword_info K_rm = KEYWORD ''rm'' COMMAND 1 (Some Do_rm)"
| "keyword_info K_rmdir = KEYWORD ''rmdir'' COMMAND 1 (Some Do_rmdir)"
| "keyword_info K_seclabel = KEYWORD ''seclabel'' OPTION 0 None"
| "keyword_info K_service = KEYWORD ''service'' SECTION 0 None"
| "keyword_info K_setcon = KEYWORD ''setcon'' COMMAND 1 (Some Do_setcon)"
| "keyword_info K_setenforce = KEYWORD ''setenforce'' COMMAND 1 (Some Do_setenforce)"
| "keyword_info K_setenv = KEYWORD ''setenv'' OPTION 2 None"
| "keyword_info K_setkey = KEYWORD ''setkey'' COMMAND 0 (Some Do_setkey)"
| "keyword_info K_setprop = KEYWORD ''setprop'' COMMAND 2 (Some Do_setprop)"
| "keyword_info K_setrlimit = KEYWORD ''setrlimit'' COMMAND 3 (Some Do_setrlimit)"
| "keyword_info K_setsebool = KEYWORD ''setsebool'' COMMAND 2 (Some Do_setsebool)"
| "keyword_info K_socket = KEYWORD ''socket'' OPTION 0 None"
| "keyword_info K_start = KEYWORD ''start'' COMMAND 1 (Some Do_start)"
| "keyword_info K_stop = KEYWORD ''stop'' COMMAND 1 (Some Do_stop)"
| "keyword_info K_swapon_all = KEYWORD ''swapon_all'' COMMAND 1 (Some Do_swapon_all)"
| "keyword_info K_trigger = KEYWORD ''trigger'' COMMAND 1 (Some Do_trigger)"
| "keyword_info K_symlink = KEYWORD ''symlink'' COMMAND 1 (Some Do_symlink)"
| "keyword_info K_sysclktz = KEYWORD ''sysclktz'' COMMAND 1 (Some Do_sysclktz)"
| "keyword_info K_user = KEYWORD ''user'' OPTION 0 None"
| "keyword_info K_wait = KEYWORD ''wait'' COMMAND 1 (Some Do_wait)"
| "keyword_info K_write = KEYWORD ''write'' COMMAND 2 (Some Do_write)"
| "keyword_info K_copy = KEYWORD ''copy'' COMMAND 2 (Some Do_copy)"
| "keyword_info K_chown = KEYWORD ''chown'' COMMAND 2 (Some Do_chown)"
| "keyword_info K_chmod = KEYWORD ''chmod'' COMMAND 2 (Some Do_chmod)"
| "keyword_info K_loglevel = KEYWORD ''loglevel'' COMMAND 1 (Some Do_loglevel)"
| "keyword_info K_load_persist_props = KEYWORD ''load_persist_props'' COMMAND 0 (Some Do_load_persist_props)"
| "keyword_info K_ioprio = KEYWORD ''ioprio'' OPTION 0 None"

definition kw_is :: "keyword \<Rightarrow> keyword_flag \<Rightarrow> bool" where
  "kw_is kw f \<longleftrightarrow> ki_flags (keyword_info kw) = Some f"

definition kw_name :: "keyword \<Rightarrow> string" where "kw_name kw = ki_name (keyword_info kw)"
definition kw_func :: "keyword \<Rightarrow> command_func option" where "kw_func kw = ki_func (keyword_info kw)"
definition kw_nargs :: "keyword \<Rightarrow> nat" where "kw_nargs kw = ki_nargs (keyword_info kw)"

text \<open>A sequence of comparisons; the keyword after the last one that applies.\<close>

fun first_match :: "string \<Rightarrow> (string \<times> keyword) list \<Rightarrow> keyword" where
  "first_match s [] = K_UNKNOWN"
| "first_match s ((t, kw) # r) = (if \<not> strcmp s t then kw else first_match s r)"

text \<open>The cases of the switch on the first letter. The case of p has no break and goes on
  with the case of r.\<close>

fun keyword_case :: "char \<Rightarrow> (string \<times> keyword) list" where
  "keyword_case c =
     (if c = CHR ''c'' then
       [(''opy'', K_copy), (''apability'', K_capability), (''hdir'', K_chdir), (''hroot'', K_chroot)
    , (''lass'', K_class), (''lass_start'', K_class_start), (''lass_stop'', K_class_stop)
    , (''lass_reset'', K_class_reset), (''onsole'', K_console), (''hown'', K_chown)
    , (''hmod'', K_chmod), (''ritical'', K_critical)]
     else if c = CHR ''d'' then
       [(''isabled'', K_disabled), (''omainname'', K_domainname)]
     else if c = CHR ''e'' then
       [(''xec'', K_exec), (''xport'', K_export)]
     else if c = CHR ''g'' then
       [(''roup'', K_group)]
     else if c = CHR ''h'' then
       [(''ostname'', K_hostname)]
     else if c = CHR ''i'' then
       [(''oprio'', K_ioprio), (''fup'', K_ifup), (''nsmod'', K_insmod), (''mport'', K_import)]
     else if c = CHR ''k'' then
       [(''eycodes'', K_keycodes)]
     else if c = CHR ''l'' then
       [(''oglevel'', K_loglevel), (''oad_persist_props'', K_load_persist_props)]
     else if c = CHR ''m'' then
       [(''kdir'', K_mkdir), (''ount_all'', K_mount_all), (''ount'', K_mount)]
     else if c = CHR ''o'' then
       [(''n'', K_on), (''neshot'', K_oneshot), (''nrestart'', K_onrestart)]
     else if c = CHR ''p'' then
       [(''owerctl'', K_powerctl), (''estart'', K_restart), (''estorecon'', K_restorecon)
    , (''mdir'', K_rmdir), (''m'', K_rm)]
     else if c = CHR ''r'' then
       [(''estart'', K_restart), (''estorecon'', K_restorecon), (''mdir'', K_rmdir), (''m'', K_rm)]
     else if c = CHR ''s'' then
       [(''eclabel'', K_seclabel), (''ervice'', K_service), (''etcon'', K_setcon)
    , (''etenforce'', K_setenforce), (''etenv'', K_setenv), (''etkey'', K_setkey)
    , (''etprop'', K_setprop), (''etrlimit'', K_setrlimit), (''etsebool'', K_setsebool)
    , (''ocket'', K_socket), (''tart'', K_start), (''top'', K_stop), (''wapon_all'', K_swapon_all)
    , (''ymlink'', K_symlink), (''ysclktz'', K_sysclktz)]
     else if c = CHR ''t'' then
       [(''rigger'', K_trigger)]
     else if c = CHR ''u'' then
       [(''ser'', K_user)]
     else if c = CHR ''w'' then
       [(''rite'', K_write), (''ait'', K_wait)]
      else [])"

fun lookup_keyword :: "string \<Rightarrow> keyword" where
  "lookup_keyword [] = K_UNKNOWN"
| "lookup_keyword (c # s) = first_match s (keyword_case c)"

lemma first_match_Some: "first_match s ps = kw \<Longrightarrow> kw \<noteq> K_UNKNOWN \<Longrightarrow> (s, kw) \<in> set ps"
  by (induction ps rule: first_match.induct) (auto simp: strcmp_def split: if_splits)

lemma keyword_case_names:
  "(s, kw) \<in> set (keyword_case c) \<Longrightarrow> kw_name kw = c # s \<or>
     c = CHR ''p'' \<and> kw \<in> {K_restart, K_restorecon, K_rmdir, K_rm} \<and> kw_name kw = CHR ''r'' # s"
  by (auto simp: kw_name_def KEYWORD_def split: if_splits)

lemma lookup_keyword_name: "kw \<noteq> K_UNKNOWN \<Longrightarrow> lookup_keyword (kw_name kw) = kw"
  by (cases kw) (simp_all add: kw_name_def KEYWORD_def strcmp_def)

text \<open>
  C24: lookup_keyword finds every keyword of the table under its name, and nothing else,
  with one exception: because the case of the letter p falls through to the case of r, the
  words pestart, pestorecon, pmdir and pm are taken for restart, restorecon, rmdir and rm.
\<close>

theorem lookup_keyword_correct:
  "kw \<noteq> K_UNKNOWN \<and> lookup_keyword s = kw \<longleftrightarrow>
     kw \<noteq> K_UNKNOWN \<and> (s = kw_name kw \<or>
       kw \<in> {K_restart, K_restorecon, K_rmdir, K_rm} \<and> s = CHR ''p'' # tl (kw_name kw))"
proof
  assume a: "kw \<noteq> K_UNKNOWN \<and> lookup_keyword s = kw"
  then obtain c r where s: "s = c # r" by (cases s) auto
  then have "(r, kw) \<in> set (keyword_case c)" using a first_match_Some [of r "keyword_case c" kw] by simp
  then show "kw \<noteq> K_UNKNOWN \<and> (s = kw_name kw \<or>
      kw \<in> {K_restart, K_restorecon, K_rmdir, K_rm} \<and> s = CHR ''p'' # tl (kw_name kw))"
    using keyword_case_names [of r kw c] s a by auto
next
  assume a: "kw \<noteq> K_UNKNOWN \<and> (s = kw_name kw \<or>
      kw \<in> {K_restart, K_restorecon, K_rmdir, K_rm} \<and> s = CHR ''p'' # tl (kw_name kw))"
  then consider "s = kw_name kw" | "kw \<in> {K_restart, K_restorecon, K_rmdir, K_rm}" "s = CHR ''p'' # tl (kw_name kw)" by blast
  then show "kw \<noteq> K_UNKNOWN \<and> lookup_keyword s = kw"
  proof cases
    case 1
    then show ?thesis using a lookup_keyword_name [of kw] by simp
  next
    case 2
    then show ?thesis by (elim insertE) (simp_all add: kw_name_def KEYWORD_def strcmp_def)
  qed
qed

text \<open>Every command has a function and is an argument count of at least one.\<close>

lemma kw_command:
  assumes "kw_is kw COMMAND"
  obtains f where "kw_func kw = Some f" "kw_nargs kw \<ge> 1"
  using assms by (cases kw) (auto simp: kw_is_def kw_func_def kw_nargs_def KEYWORD_def)

end
