(* ===== verification/Init_State.thy ===== *)
theory Init_State
  imports Init_Keywords
begin

text \<open>
  The data of Android's init (\<^verbatim>\<open>init/init/init.h\<close> and the global variables of its files),
  and what lies outside its sources: the property area and the constants of the C library
  and of the system's headers, and the operating system. These are the fields of
  \<open>platform\<close>, an argument of every definition that uses them. The results of a system
  call may differ from call to call, so they depend on the number of calls made before.
\<close>

subsection \<open>The platform\<close>

text \<open>\<open>'p\<close> is the property area. A failing open, stat or read is None or False;
  fstat gives the mode, the owner, the group and the number of links.\<close>

record 'p platform =
  PROP_NAME_MAX :: nat
  PROP_VALUE_MAX :: nat
  AID_ROOT :: u32
  AID_SYSTEM :: u32
  AID_RADIO :: u32
  AID_SHELL :: u32
  AID_BLUETOOTH :: u32
  AID_DHCP :: u32
  AID_LOG :: u32
  android_ids :: "(string \<times> u32) list"
  multiuser_get_app_id :: "u32 \<Rightarrow> u32"
  system_property_find :: "'p \<Rightarrow> string \<Rightarrow> string option"
  system_property_update :: "'p \<Rightarrow> string \<Rightarrow> string \<Rightarrow> 'p"
  system_property_add :: "'p \<Rightarrow> string \<Rightarrow> string \<Rightarrow> int \<times> 'p"
  is_selinux_enabled :: bool
  selabel_lookup_prop :: "string \<Rightarrow> string option"
  selinux_check_access :: "string \<Rightarrow> string \<Rightarrow> string \<Rightarrow> string \<Rightarrow> string \<Rightarrow> bool"
  exec_context :: "string \<Rightarrow> string option"
  sys_gettime :: "nat \<Rightarrow> int"
  sys_fork :: "nat \<Rightarrow> int"
  sys_stat :: "nat \<Rightarrow> string \<Rightarrow> bool"
  sys_open :: "nat \<Rightarrow> string \<Rightarrow> int"
  sys_read :: "nat \<Rightarrow> string \<Rightarrow> (u32 \<times> string) option"
  sys_readdir :: "nat \<Rightarrow> string \<Rightarrow> string list option"
  sys_fstat :: "nat \<Rightarrow> string \<Rightarrow> (u32 \<times> u32 \<times> u32 \<times> u32) option"
  sys_mkstemp :: "nat \<Rightarrow> string option"
  sys_waitpid :: "nat \<Rightarrow> int option"
  sys_result :: "nat \<Rightarrow> int"
  sys_errno :: "nat \<Rightarrow> int"
  sys_peercred :: "nat \<Rightarrow> (u32 \<times> u32) option"
  sys_peercon :: "nat \<Rightarrow> string option"
  sys_recv :: "nat \<Rightarrow> (u32 \<times> string \<times> string) option"
  sys_read_u16 :: "nat \<Rightarrow> int option"
  sys_read_chunk :: "nat \<Rightarrow> nat \<Rightarrow> string option"
  sys_readlink :: "nat \<Rightarrow> string \<Rightarrow> string option"
  sys_poll :: "nat \<Rightarrow> int list \<Rightarrow> int list"
  selabel_lookup_file :: "string \<Rightarrow> string option"
  fs_mgr_mount_all :: "nat \<Rightarrow> string \<Rightarrow> int option"
  fb_var_screeninfo :: "nat \<Rightarrow> (u32 \<times> u32) option"
  ANDROID_SOCKET_DIR :: string
  ANDROID_SOCKET_ENV_PREFIX :: string
  PROP_SERVICE_NAME :: string
  PROP_PATH_RAMDISK_DEFAULT :: string
  PROP_PATH_SYSTEM_BUILD :: string
  PROP_PATH_SYSTEM_DEFAULT :: string
  PROP_MSG_SETPROP :: u32
  sizeof_input_keychord :: int
  sizeof_keycode :: int

subsection \<open>Services and actions\<close>

definition SVC_DISABLED :: u32 where "SVC_DISABLED = 0x01"
definition SVC_ONESHOT :: u32 where "SVC_ONESHOT = 0x02"
definition SVC_RUNNING :: u32 where "SVC_RUNNING = 0x04"
definition SVC_RESTARTING :: u32 where "SVC_RESTARTING = 0x08"
definition SVC_CONSOLE :: u32 where "SVC_CONSOLE = 0x10"
definition SVC_CRITICAL :: u32 where "SVC_CRITICAL = 0x20"
definition SVC_RESET :: u32 where "SVC_RESET = 0x40"
definition SVC_RC_DISABLED :: u32 where "SVC_RC_DISABLED = 0x80"
definition SVC_RESTART :: u32 where "SVC_RESTART = 0x100"

lemmas svc_flags = SVC_DISABLED_def SVC_ONESHOT_def SVC_RUNNING_def SVC_RESTARTING_def SVC_CONSOLE_def
  SVC_CRITICAL_def SVC_RESET_def SVC_RC_DISABLED_def SVC_RESTART_def

definition NR_SVC_SUPP_GIDS :: nat where "NR_SVC_SUPP_GIDS = 12"
definition COMMAND_RETRY_TIMEOUT :: int where "COMMAND_RETRY_TIMEOUT = 5"
definition INIT_PARSER_MAXARGS :: nat where "INIT_PARSER_MAXARGS = 64"

record command =
  cmd_func :: command_func
  cmd_nargs :: nat
  cmd_args :: "string list"

record action =
  act_name :: string
  commands :: "command list"

record socketinfo =
  si_name :: string
  si_type :: string
  si_perm :: u32
  si_uid :: u32
  si_gid :: u32

datatype IoSchedClass = IoSchedClass_NONE | IoSchedClass_RT | IoSchedClass_BE | IoSchedClass_IDLE

text \<open>The chains of sockets and environment variables are lists, the newest first. The
  arrays of supplementary groups and key codes are the lists of their used entries.\<close>

record service =
  svc_name :: string
  classname :: string
  flags :: u32
  pid :: int
  time_started :: int
  time_crashed :: int
  nr_crashed :: int
  uid :: u32
  gid :: u32
  supp_gids :: "u32 list"
  seclabel :: "string option"
  sockets :: "socketinfo list"
  envvars :: "(string \<times> string) list"
  onrestart :: "command list"
  keycodes :: "int list option"
  keychord_id :: int
  ioprio_class :: IoSchedClass
  ioprio_pri :: int
  svc_args :: "string list"

definition zero_service :: service where
  "zero_service = \<lparr>svc_name = [], classname = [], flags = 0, pid = 0, time_started = 0, time_crashed = 0,
     nr_crashed = 0, uid = 0, gid = 0, supp_gids = [], seclabel = None, sockets = [], envvars = [], onrestart = [],
     keycodes = None, keychord_id = 0, ioprio_class = IoSchedClass_NONE, ioprio_pri = 0, svc_args = []\<rparr>"

text \<open>What init does to the outside, in the order it does it. The effects of a child process
  are the argument of Spawn; a byte that was never initialised is None.\<close>

datatype sys_arg = Str string | Num int

datatype effect =
    Error_log string
  | Kill int
  | Unlink string
  | Rename string string
  | Write_file string string
  | Spawn "effect list"
  | Execve string "string list" "string list"
  | Exit int
  | Android_reboot string string
  | Reload_policy
  | Keychord_write "(int \<times> int list) list"
  | Write_fd int "char option list"
  | Syscall string "sys_arg list"

subsection \<open>The state\<close>

text \<open>Services and actions are addressed by their position in their list, which only grows;
  a command by its position in its action. The node of an action in the queue is linked
  when the action is in \<open>action_queue\<close>.\<close>

record 'p init_state =
  service_list :: "service list"
  action_list :: "action list"
  action_queue :: "nat list"
  cur_action :: "nat option"
  cur_command :: "nat option"
  props :: 'p
  persistent_properties_loaded :: bool
  property_area_inited :: bool
  property_triggers_enabled :: bool
  property_set_fd :: int
  signal_recv_fd :: int
  keychord_fd :: int
  have_console :: bool
  console_name :: string
  console :: string
  bootmode :: string
  hardware :: string
  qemu :: string
  revision :: u32
  process_needs_restart :: int
  keychords :: "(int \<times> int list) list"
  keychords_count :: int
  mtd_part_map :: "(string \<times> int) list"
  mtd_part_count :: int
  sehandle :: bool
  pa_workspace_fd :: int
  ENV :: "string list"
  nsys :: nat
  effects :: "effect list"

definition emit :: "effect \<Rightarrow> 'p init_state \<Rightarrow> 'p init_state" where
  "emit e s = s\<lparr>effects := effects s @ [e]\<rparr>"

definition ERROR :: "string \<Rightarrow> 'p init_state \<Rightarrow> 'p init_state" where
  "ERROR msg = emit (Error_log msg)"

definition sys :: "(nat \<Rightarrow> 'a) \<Rightarrow> 'p init_state \<Rightarrow> 'a \<times> 'p init_state" where
  "sys f s = (f (nsys s), s\<lparr>nsys := Suc (nsys s)\<rparr>)"

definition upd_svc :: "nat \<Rightarrow> (service \<Rightarrow> service) \<Rightarrow> 'p init_state \<Rightarrow> 'p init_state" where
  "upd_svc i f s = s\<lparr>service_list := (service_list s)[i := f (service_list s ! i)]\<rparr>"

abbreviation svc :: "'p init_state \<Rightarrow> nat \<Rightarrow> service" where
  "svc s i \<equiv> service_list s ! i"

definition set_flags :: "u32 \<Rightarrow> service \<Rightarrow> service" where
  "set_flags f x = x\<lparr>flags := flags x OR f\<rparr>"

definition clear_flags :: "u32 \<Rightarrow> service \<Rightarrow> service" where
  "clear_flags f x = x\<lparr>flags := flags x AND NOT f\<rparr>"

definition has_flag :: "service \<Rightarrow> u32 \<Rightarrow> bool" where
  "has_flag x f \<longleftrightarrow> flags x AND f \<noteq> 0"

text \<open>Logging and counting system calls change nothing else.\<close>

lemma emit_simps [simp]:
  "service_list (emit e s) = service_list s" "action_list (emit e s) = action_list s"
  "action_queue (emit e s) = action_queue s" "cur_action (emit e s) = cur_action s"
  "cur_command (emit e s) = cur_command s" "props (emit e s) = props s"
  "persistent_properties_loaded (emit e s) = persistent_properties_loaded s"
  "property_area_inited (emit e s) = property_area_inited s"
  "property_triggers_enabled (emit e s) = property_triggers_enabled s"
  "have_console (emit e s) = have_console s" "process_needs_restart (emit e s) = process_needs_restart s"
  "ENV (emit e s) = ENV s" "nsys (emit e s) = nsys s" "effects (emit e s) = effects s @ [e]"
  by (simp_all add: emit_def)

lemma ERROR_simps [simp]:
  "service_list (ERROR m s) = service_list s" "action_list (ERROR m s) = action_list s"
  "action_queue (ERROR m s) = action_queue s" "cur_action (ERROR m s) = cur_action s"
  "cur_command (ERROR m s) = cur_command s" "props (ERROR m s) = props s"
  "persistent_properties_loaded (ERROR m s) = persistent_properties_loaded s"
  "property_area_inited (ERROR m s) = property_area_inited s"
  "property_triggers_enabled (ERROR m s) = property_triggers_enabled s"
  "have_console (ERROR m s) = have_console s" "process_needs_restart (ERROR m s) = process_needs_restart s"
  "ENV (ERROR m s) = ENV s" "nsys (ERROR m s) = nsys s" "effects (ERROR m s) = effects s @ [Error_log m]"
  by (simp_all add: ERROR_def)

lemma upd_svc_simps [simp]:
  "service_list (upd_svc i f s) = (service_list s)[i := f (service_list s ! i)]"
  "action_list (upd_svc i f s) = action_list s" "action_queue (upd_svc i f s) = action_queue s"
  "cur_action (upd_svc i f s) = cur_action s" "cur_command (upd_svc i f s) = cur_command s"
  "props (upd_svc i f s) = props s"
  "persistent_properties_loaded (upd_svc i f s) = persistent_properties_loaded s"
  "property_area_inited (upd_svc i f s) = property_area_inited s"
  "property_triggers_enabled (upd_svc i f s) = property_triggers_enabled s"
  "have_console (upd_svc i f s) = have_console s" "process_needs_restart (upd_svc i f s) = process_needs_restart s"
  "ENV (upd_svc i f s) = ENV s" "nsys (upd_svc i f s) = nsys s" "effects (upd_svc i f s) = effects s"
  by (simp_all add: upd_svc_def)

lemma sys_simps [simp]:
  "fst (sys f s) = f (nsys s)"
  "service_list (snd (sys f s)) = service_list s" "action_list (snd (sys f s)) = action_list s"
  "action_queue (snd (sys f s)) = action_queue s" "cur_action (snd (sys f s)) = cur_action s"
  "cur_command (snd (sys f s)) = cur_command s" "props (snd (sys f s)) = props s"
  "persistent_properties_loaded (snd (sys f s)) = persistent_properties_loaded s"
  "property_area_inited (snd (sys f s)) = property_area_inited s"
  "property_triggers_enabled (snd (sys f s)) = property_triggers_enabled s"
  "have_console (snd (sys f s)) = have_console s" "process_needs_restart (snd (sys f s)) = process_needs_restart s"
  "ENV (snd (sys f s)) = ENV s" "effects (snd (sys f s)) = effects s"
  by (simp_all add: sys_def)

subsection \<open>Finding services\<close>

fun find_index :: "('a \<Rightarrow> bool) \<Rightarrow> 'a list \<Rightarrow> nat option" where
  "find_index P [] = None"
| "find_index P (x # xs) = (if P x then Some 0 else map_option Suc (find_index P xs))"

lemma find_index_Some: "find_index P xs = Some i \<Longrightarrow> i < length xs \<and> P (xs ! i) \<and> (\<forall>j<i. \<not> P (xs ! j))"
proof (induction xs arbitrary: i)
  case (Cons x xs)
  show ?case
  proof (cases "P x")
    case False
    then obtain j where "find_index P xs = Some j" "i = Suc j" using Cons.prems by auto
    then show ?thesis using Cons.IH [of j] False by (auto simp: less_Suc_eq_0_disj)
  qed (use Cons.prems in simp)
qed simp

lemma find_index_None: "find_index P xs = None \<longleftrightarrow> (\<forall>x\<in>set xs. \<not> P x)"
  by (induction xs) auto

definition service_find_by_name :: "string \<Rightarrow> 'p init_state \<Rightarrow> nat option" where
  "service_find_by_name name s = find_index (\<lambda>x. \<not> strcmp (svc_name x) name) (service_list s)"

definition service_find_by_pid :: "int \<Rightarrow> 'p init_state \<Rightarrow> nat option" where
  "service_find_by_pid p s = find_index (\<lambda>x. pid x = p) (service_list s)"

definition service_find_by_keychord :: "int \<Rightarrow> 'p init_state \<Rightarrow> nat option" where
  "service_find_by_keychord k s = find_index (\<lambda>x. keychord_id x = k) (service_list s)"

text \<open>The loops over the service list call a function that may change the state; the test
  is made when the loop reaches the service.\<close>

fun service_loop ::
  "(service \<Rightarrow> bool) \<Rightarrow> (nat \<Rightarrow> 'p init_state \<Rightarrow> 'p init_state) \<Rightarrow> nat list \<Rightarrow> 'p init_state \<Rightarrow> 'p init_state" where
  "service_loop P f [] s = s"
| "service_loop P f (i # is) s = service_loop P f is (if P (svc s i) then f i s else s)"

definition service_for_each :: "(nat \<Rightarrow> 'p init_state \<Rightarrow> 'p init_state) \<Rightarrow> 'p init_state \<Rightarrow> 'p init_state" where
  "service_for_each f s = service_loop (\<lambda>_. True) f [0..<length (service_list s)] s"

definition service_for_each_class ::
  "string \<Rightarrow> (nat \<Rightarrow> 'p init_state \<Rightarrow> 'p init_state) \<Rightarrow> 'p init_state \<Rightarrow> 'p init_state" where
  "service_for_each_class c f s = service_loop (\<lambda>x. \<not> strcmp (classname x) c) f [0..<length (service_list s)] s"

definition service_for_each_flags ::
  "u32 \<Rightarrow> (nat \<Rightarrow> 'p init_state \<Rightarrow> 'p init_state) \<Rightarrow> 'p init_state \<Rightarrow> 'p init_state" where
  "service_for_each_flags m f s = service_loop (\<lambda>x. has_flag x m) f [0..<length (service_list s)] s"

subsection \<open>Users, files and the environment\<close>

fun android_name_to_id :: "(string \<times> u32) list \<Rightarrow> string \<Rightarrow> u32" where
  "android_name_to_id [] name = - 1"
| "android_name_to_id ((n, aid) # ids) name = (if \<not> strcmp n name then aid else android_name_to_id ids name)"

text \<open>errno is set by strtoul exactly when the value is out of range.\<close>

definition decode_uid :: "'p platform \<Rightarrow> string \<Rightarrow> u32" where
  "decode_uid P s =
     (case s of [] \<Rightarrow> - 1
      | c # _ \<Rightarrow> if isalpha c then android_name_to_id (android_ids P) s else strtoul s 0)"

definition gettime :: "'p platform \<Rightarrow> 'p init_state \<Rightarrow> int \<times> 'p init_state" where
  "gettime P s = sys (sys_gettime P) s"

text \<open>The mode bits that make a file writable for the group or for others.\<close>

definition S_IWGRP :: u32 where "S_IWGRP = 0x10"
definition S_IWOTH :: u32 where "S_IWOTH = 0x02"

text \<open>The data of a file, up to its first NUL, is what the callers see.\<close>

definition read_file :: "'p platform \<Rightarrow> string \<Rightarrow> 'p init_state \<Rightarrow> string option \<times> 'p init_state" where
  "read_file P fn s =
     (let (r, s) = sys (\<lambda>n. sys_read P n fn) s in
      case r of
        None \<Rightarrow> (None, s)
      | Some (mode, data) \<Rightarrow>
          if mode AND (S_IWGRP OR S_IWOTH) \<noteq> 0 then (None, ERROR ''skipping insecure file'' s)
          else (Some (data @ [NEWLINE, NUL]), s))"

definition add_environment :: "string \<Rightarrow> string \<Rightarrow> string list \<Rightarrow> int \<times> string list" where
  "add_environment key val env =
     (if length env < 31 then (0, env @ [key @ ''='' @ val]) else (1, env))"

end
