(* ===== verification/Init_Action.thy ===== *)
theory Init_Action
  imports Init_State
begin

text \<open>
  The queue of pending actions and the triggers that fill it, from
  \<^verbatim>\<open>init/init/init_parser.c\<close>, and the reading of properties they depend on.
\<close>

text \<open>property_get leaves an empty value when the property does not exist.\<close>

definition property_get :: "'p platform \<Rightarrow> string \<Rightarrow> 'p init_state \<Rightarrow> string" where
  "property_get P name s = (case system_property_find P (props s) name of None \<Rightarrow> [] | Some v \<Rightarrow> v)"

subsection \<open>The queue\<close>

definition action_add_queue_tail :: "nat \<Rightarrow> 'p init_state \<Rightarrow> 'p init_state" where
  "action_add_queue_tail a s =
     (if a \<notin> set (action_queue s) then s\<lparr>action_queue := action_queue s @ [a]\<rparr> else s)"

definition action_queue_empty :: "'p init_state \<Rightarrow> bool" where
  "action_queue_empty s \<longleftrightarrow> action_queue s = []"

definition action_remove_queue_head :: "'p init_state \<Rightarrow> nat option \<times> 'p init_state" where
  "action_remove_queue_head s =
     (case action_queue s of [] \<Rightarrow> (None, s) | a # q \<Rightarrow> (Some a, s\<lparr>action_queue := q\<rparr>))"

text \<open>The loops over the action list, in the list's order.\<close>

fun action_loop ::
  "(action \<Rightarrow> bool) \<Rightarrow> (nat \<Rightarrow> 'p init_state \<Rightarrow> 'p init_state) \<Rightarrow> nat list \<Rightarrow> 'p init_state \<Rightarrow> 'p init_state" where
  "action_loop Q f [] s = s"
| "action_loop Q f (a # as) s = action_loop Q f as (if Q (action_list s ! a) then f a s else s)"

definition action_for_each_trigger ::
  "string \<Rightarrow> (nat \<Rightarrow> 'p init_state \<Rightarrow> 'p init_state) \<Rightarrow> 'p init_state \<Rightarrow> 'p init_state" where
  "action_for_each_trigger trigger f s =
     action_loop (\<lambda>act. \<not> strcmp (act_name act) trigger) f [0..<length (action_list s)] s"

text \<open>The test of queue_property_triggers on the name of an action.\<close>

definition property_trigger :: "string \<Rightarrow> string \<Rightarrow> string \<Rightarrow> bool" where
  "property_trigger n name value \<longleftrightarrow> \<not> strncmp n ''property:'' 9 \<and>
     (let test = drop 9 n; l = length name in
      \<not> strncmp name test l \<and> l < length test \<and> test ! l = CHR ''='' \<and>
      (\<not> strcmp (drop (l + 1) test) value \<or> \<not> strcmp (drop (l + 1) test) ''*''))"

definition queue_property_triggers :: "string \<Rightarrow> string \<Rightarrow> 'p init_state \<Rightarrow> 'p init_state" where
  "queue_property_triggers name value s =
     action_loop (\<lambda>act. property_trigger (act_name act) name value) action_add_queue_tail
       [0..<length (action_list s)] s"

definition queue_all_body :: "'p platform \<Rightarrow> nat \<Rightarrow> 'p init_state \<Rightarrow> 'p init_state" where
  "queue_all_body P a s =
     (let n = act_name (action_list s ! a) in
      if strncmp n ''property:'' 9 then s
      else let name = drop 9 n in
        case strchr name (CHR ''='') of
          None \<Rightarrow> s
        | Some equals \<Rightarrow>
            let len = length name - length equals in
            if len > PROP_NAME_MAX P then ERROR ''property name too long in trigger'' s
            else let value = property_get P (take len name) s in
              if \<not> strcmp (tl equals) value \<or> \<not> strcmp (tl equals) ''*'' then action_add_queue_tail a s else s)"

fun queue_all_loop :: "'p platform \<Rightarrow> nat list \<Rightarrow> 'p init_state \<Rightarrow> 'p init_state" where
  "queue_all_loop P [] s = s"
| "queue_all_loop P (a # as) s = queue_all_loop P as (queue_all_body P a s)"

definition queue_all_property_triggers :: "'p platform \<Rightarrow> 'p init_state \<Rightarrow> 'p init_state" where
  "queue_all_property_triggers P s = queue_all_loop P [0..<length (action_list s)] s"

text \<open>The command of a built-in action is made with calloc: its argument count is 0.\<close>

definition queue_builtin_action :: "command_func \<Rightarrow> string \<Rightarrow> 'p init_state \<Rightarrow> 'p init_state" where
  "queue_builtin_action func name s =
     (let cmd = \<lparr>cmd_func = func, cmd_nargs = 0, cmd_args = [name]\<rparr>;
          s' = s\<lparr>action_list := action_list s @ [\<lparr>act_name = name, commands = [cmd]\<rparr>]\<rparr>
      in action_add_queue_tail (length (action_list s)) s')"

text \<open>Stepping through the commands of an action.\<close>

definition get_first_command :: "action \<Rightarrow> nat option" where
  "get_first_command act = (if commands act = [] then None else Some 0)"

definition get_next_command :: "action \<Rightarrow> nat \<Rightarrow> nat option" where
  "get_next_command act c = (if Suc c < length (commands act) then Some (Suc c) else None)"

definition is_last_command :: "action \<Rightarrow> nat \<Rightarrow> bool" where
  "is_last_command act c \<longleftrightarrow> Suc c = length (commands act)"

subsection \<open>The queue is a set kept in order\<close>

definition queue_ok :: "'p init_state \<Rightarrow> bool" where
  "queue_ok s \<longleftrightarrow> distinct (action_queue s) \<and> set (action_queue s) \<subseteq> {..<length (action_list s)}"

lemma action_add_queue_tail_simps [simp]:
  "action_list (action_add_queue_tail a s) = action_list s"
  "service_list (action_add_queue_tail a s) = service_list s"
  "props (action_add_queue_tail a s) = props s"
  "cur_action (action_add_queue_tail a s) = cur_action s" "cur_command (action_add_queue_tail a s) = cur_command s"
  "effects (action_add_queue_tail a s) = effects s" "nsys (action_add_queue_tail a s) = nsys s"
  "property_triggers_enabled (action_add_queue_tail a s) = property_triggers_enabled s"
  "persistent_properties_loaded (action_add_queue_tail a s) = persistent_properties_loaded s"
  "property_area_inited (action_add_queue_tail a s) = property_area_inited s"
  "have_console (action_add_queue_tail a s) = have_console s"
  "process_needs_restart (action_add_queue_tail a s) = process_needs_restart s"
  "ENV (action_add_queue_tail a s) = ENV s"
  by (simp_all add: action_add_queue_tail_def)

lemma action_add_queue_tail_queue:
  "action_queue (action_add_queue_tail a s) = action_queue s @ (if a \<in> set (action_queue s) then [] else [a])"
  by (simp add: action_add_queue_tail_def)

lemma queue_ok_add: "queue_ok s \<Longrightarrow> a < length (action_list s) \<Longrightarrow> queue_ok (action_add_queue_tail a s)"
  by (auto simp: queue_ok_def action_add_queue_tail_queue)

text \<open>Queueing the actions that pass a test appends those that are not queued yet.\<close>

lemma action_loop_add:
  assumes "distinct as"
  shows "action_loop Q action_add_queue_tail as s =
    s\<lparr>action_queue := action_queue s @ filter (\<lambda>a. Q (action_list s ! a) \<and> a \<notin> set (action_queue s)) as\<rparr>"
  using assms
proof (induction as arbitrary: s)
  case (Cons a as)
  show ?case
  proof (cases "Q (action_list s ! a) \<and> a \<notin> set (action_queue s)")
    case True
    have "filter (\<lambda>x. Q (action_list s ! x) \<and> x \<notin> set (action_queue s @ [a])) as =
        filter (\<lambda>x. Q (action_list s ! x) \<and> x \<notin> set (action_queue s)) as"
      using Cons.prems by (intro filter_cong) auto
    then show ?thesis using Cons True by (simp add: action_add_queue_tail_def)
  next
    case False
    then have "(if Q (action_list s ! a) then action_add_queue_tail a s else s) = s"
      by (simp add: action_add_queue_tail_def)
    then show ?thesis using Cons False by auto
  qed
qed simp

subsection \<open>Triggers\<close>

lemma property_prefix:
  assumes "\<not> strncmp n ''property:'' 9"
  shows "n = ''property:'' @ drop 9 n"
proof -
  have "take 9 n = ''property:''" using assms by (simp add: strncmp_def)
  then show ?thesis by (metis append_take_drop_id)
qed

lemma property_trigger_iff:
  "property_trigger n name value \<longleftrightarrow>
     n = ''property:'' @ name @ ''='' @ value \<or> n = ''property:'' @ name @ ''=*''"
proof
  assume a: "property_trigger n name value"
  define test where "test = drop 9 n"
  have n: "n = ''property:'' @ test"
    using a property_prefix [of n] unfolding property_trigger_def test_def by blast
  have "take (length name) test = name" "length name < length test" "test ! length name = CHR ''=''"
    and v: "drop (length name + 1) test = value \<or> drop (length name + 1) test = ''*''"
    using a by (auto simp: property_trigger_def strncmp_def strcmp_def test_def Let_def)
  then have "test = name @ CHR ''='' # drop (length name + 1) test"
    by (metis Suc_eq_plus1 append_take_drop_id Cons_nth_drop_Suc)
  then show "n = ''property:'' @ name @ ''='' @ value \<or> n = ''property:'' @ name @ ''=*''"
    using n v by auto
next
  assume a: "n = ''property:'' @ name @ ''='' @ value \<or> n = ''property:'' @ name @ ''=*''"
  then have "drop 9 n = name @ CHR ''='' # value \<or> drop 9 n = name @ ''=*''" by auto
  then obtain v where v: "drop 9 n = name @ CHR ''='' # v" "v = value \<or> v = ''*''" by auto
  then show "property_trigger n name value"
    using a unfolding property_trigger_def Let_def v(1) by (auto simp: strncmp_def strcmp_def)
qed

text \<open>
  C25: a change of a property queues exactly the actions whose trigger is
  property:name=value or property:name=* and that are not waiting already, in the order of
  the rc files, and changes nothing else.
\<close>

theorem queue_property_triggers_exact:
  "queue_property_triggers name value s = s\<lparr>action_queue := action_queue s @
     filter (\<lambda>a. act_name (action_list s ! a) \<in> {''property:'' @ name @ ''='' @ value, ''property:'' @ name @ ''=*''} \<and>
                a \<notin> set (action_queue s)) [0..<length (action_list s)]\<rparr>"
  by (simp add: queue_property_triggers_def action_loop_add property_trigger_iff)

text \<open>The actions queue_all_property_triggers looks for.\<close>

definition fires :: "'p platform \<Rightarrow> 'p init_state \<Rightarrow> string \<Rightarrow> bool" where
  "fires P s n \<longleftrightarrow> (\<exists>name value. n = ''property:'' @ name @ ''='' @ value \<and> CHR ''='' \<notin> set name \<and>
     length name \<le> PROP_NAME_MAX P \<and> (value = property_get P name s \<or> value = ''*''))"

lemma queue_all_body_queue:
  "action_queue (queue_all_body P a s) =
     action_queue s @ (if fires P s (act_name (action_list s ! a)) \<and> a \<notin> set (action_queue s) then [a] else [])"
  (is "_ = ?rhs")
proof (cases "strncmp (act_name (action_list s ! a)) ''property:'' 9")
  case True
  then have "\<not> fires P s (act_name (action_list s ! a))" by (auto simp: fires_def strncmp_def)
  then show ?thesis using True by (simp add: queue_all_body_def)
next
  case False
  define name where "name = drop 9 (act_name (action_list s ! a))"
  have n: "act_name (action_list s ! a) = ''property:'' @ name"
    using property_prefix [OF False] unfolding name_def .
  show ?thesis
  proof (cases "strchr name (CHR ''='')")
    case None
    then have "CHR ''='' \<notin> set name" by (simp add: strchr_None)
    then have "\<not> fires P s (act_name (action_list s ! a))" by (auto simp: fires_def n)
    then show ?thesis using False None by (simp add: queue_all_body_def Let_def name_def)
  next
    case (Some r)
    obtain p v where pv: "name = p @ CHR ''='' # v" "r = CHR ''='' # v" "CHR ''='' \<notin> set p"
      using strchr_Some [OF Some] by auto
    have "p' = p \<and> v' = v" if "p @ CHR ''='' # v = p' @ CHR ''='' # v'" "CHR ''='' \<notin> set p'" for p' v'
      using append_Cons_eq_iff [of "CHR ''=''" p v p' v'] that pv(3) strchr_append [OF pv(3), of v]
        strchr_append [OF that(2), of v'] by auto
    then have f: "fires P s (act_name (action_list s ! a)) \<longleftrightarrow>
        length p \<le> PROP_NAME_MAX P \<and> (v = property_get P p s \<or> v = ''*'')"
      unfolding fires_def n pv(1) using pv(3) by fastforce
    have "queue_all_body P a s =
        (if length p > PROP_NAME_MAX P then ERROR ''property name too long in trigger'' s
         else if v = property_get P p s \<or> v = ''*'' then action_add_queue_tail a s else s)"
      using False Some unfolding queue_all_body_def Let_def name_def [symmetric] by (simp add: pv strcmp_def)
    then show ?thesis using f by (auto simp: action_add_queue_tail_queue)
  qed
qed

lemma queue_all_body_rest [simp]:
  "action_list (queue_all_body P a s) = action_list s" "props (queue_all_body P a s) = props s"
  by (simp_all add: queue_all_body_def Let_def split: option.split)

lemma queue_all_loop_queue:
  assumes "distinct as"
  shows "action_queue (queue_all_loop P as s) = action_queue s @
    filter (\<lambda>a. fires P s (act_name (action_list s ! a)) \<and> a \<notin> set (action_queue s)) as"
  using assms
proof (induction as arbitrary: s)
  case (Cons a as)
  let ?b = "queue_all_body P a s"
  have f: "fires P ?b n = fires P s n" for n by (simp add: fires_def property_get_def)
  have "filter (\<lambda>x. fires P s (act_name (action_list s ! x)) \<and> x \<notin> set (action_queue ?b)) as =
      filter (\<lambda>x. fires P s (act_name (action_list s ! x)) \<and> x \<notin> set (action_queue s)) as"
    using Cons.prems by (intro filter_cong) (auto simp: queue_all_body_queue)
  then show ?case using Cons by (simp add: f) (simp add: queue_all_body_queue)
qed simp

text \<open>
  At the end of the boot sequence exactly those property actions are queued, in the
  order of the rc files, that name the current value of the property, or any value, and
  are not waiting already. A property that does not exist counts as one with an empty
  value, and \<open>*\<close> matches it.
\<close>

theorem queue_all_property_triggers_exact:
  "action_queue (queue_all_property_triggers P s) = action_queue s @
     filter (\<lambda>a. (\<exists>name value. act_name (action_list s ! a) = ''property:'' @ name @ ''='' @ value \<and>
                CHR ''='' \<notin> set name \<and> length name \<le> PROP_NAME_MAX P \<and>
                (value = property_get P name s \<or> value = ''*'')) \<and> a \<notin> set (action_queue s))
       [0..<length (action_list s)]"
  by (simp add: queue_all_property_triggers_def queue_all_loop_queue fires_def)

lemma queue_ok_loop:
  assumes "queue_ok s" and "distinct as" and "set as \<subseteq> {..<length (action_list s)}"
  shows "queue_ok (action_loop Q action_add_queue_tail as s)"
  using assms by (auto simp: queue_ok_def action_loop_add)

lemma queue_ok_all: "queue_ok s \<Longrightarrow> queue_ok (queue_all_property_triggers P s)"
proof -
  have "action_list (queue_all_loop P as s) = action_list s" for as by (induction as arbitrary: s) simp_all
  then show "queue_ok s \<Longrightarrow> queue_ok (queue_all_property_triggers P s)"
    by (auto simp: queue_ok_def queue_all_property_triggers_def queue_all_loop_queue)
qed

lemma queue_ok_trigger:
  "queue_ok s \<Longrightarrow> queue_ok (action_for_each_trigger t action_add_queue_tail s)"
  "queue_ok s \<Longrightarrow> queue_ok (queue_property_triggers name value s)"
  by (auto simp: action_for_each_trigger_def queue_property_triggers_def intro!: queue_ok_loop)

lemma queue_ok_builtin: "queue_ok s \<Longrightarrow> queue_ok (queue_builtin_action f n s)"
  by (auto simp: queue_builtin_action_def queue_ok_def action_add_queue_tail_def Let_def)

end
