(* ===== verification/Init_Property.thy ===== *)
theory Init_Property
  imports Init_Action
begin

text \<open>
  The property service: names, permissions, setting and loading properties
  (\<^verbatim>\<open>init/init/property_service.c\<close>) and the expansion of properties in arguments
  (expand_props of \<^verbatim>\<open>init/init/init_parser.c\<close>).
\<close>

subsection \<open>Names\<close>

text \<open>The loop of is_legal_property_name, with previous_was_dot.\<close>

fun legal_chars :: "bool \<Rightarrow> string \<Rightarrow> bool" where
  "legal_chars previous_was_dot [] = True"
| "legal_chars previous_was_dot (c # cs) =
     (if c = CHR ''.'' then (if previous_was_dot then False else legal_chars True cs)
      else if c = CHR ''_'' \<or> c = CHR ''-'' \<or> islower c \<or> isupper c \<or> isdigit c then legal_chars False cs
      else False)"

definition is_legal_property_name :: "'p platform \<Rightarrow> string \<Rightarrow> bool" where
  "is_legal_property_name P name =
     (if length name \<ge> PROP_NAME_MAX P then False
      else if length name < 1 then False
      else if name ! 0 = CHR ''.'' then False
      else if name ! (length name - 1) = CHR ''.'' then False
      else legal_chars False name)"

subsection \<open>Permissions\<close>

definition check_mac_perms :: "'p platform \<Rightarrow> string \<Rightarrow> string option \<Rightarrow> bool" where
  "check_mac_perms P name sctx =
     (if \<not> is_selinux_enabled P then True
      else case sctx of None \<Rightarrow> False
        | Some c \<Rightarrow> (case selabel_lookup_prop P name of None \<Rightarrow> False
            | Some t \<Rightarrow> selinux_check_access P c t ''property_service'' ''set'' name))"

definition check_control_mac_perms :: "'p platform \<Rightarrow> string \<Rightarrow> string option \<Rightarrow> bool" where
  "check_control_mac_perms P name sctx =
     (if length name + 4 \<ge> PROP_VALUE_MAX P + 4 then False else check_mac_perms P (''ctl.'' @ name) sctx)"

definition property_perms :: "'p platform \<Rightarrow> (string \<times> u32 \<times> u32) list" where
  "property_perms P =
     [(''net.rmnet0.'', AID_RADIO P, 0), (''net.gprs.'', AID_RADIO P, 0), (''net.ppp'', AID_RADIO P, 0),
      (''net.qmi'', AID_RADIO P, 0), (''net.lte'', AID_RADIO P, 0), (''net.cdma'', AID_RADIO P, 0),
      (''ril.'', AID_RADIO P, 0), (''gsm.'', AID_RADIO P, 0), (''persist.radio'', AID_RADIO P, 0),
      (''net.dns'', AID_RADIO P, 0), (''sys.usb.config'', AID_RADIO P, 0), (''net.'', AID_SYSTEM P, 0),
      (''dev.'', AID_SYSTEM P, 0), (''runtime.'', AID_SYSTEM P, 0), (''hw.'', AID_SYSTEM P, 0),
      (''sys.'', AID_SYSTEM P, 0), (''sys.powerctl'', AID_SHELL P, 0), (''service.'', AID_SYSTEM P, 0),
      (''wlan.'', AID_SYSTEM P, 0), (''bluetooth.'', AID_BLUETOOTH P, 0), (''dhcp.'', AID_SYSTEM P, 0),
      (''dhcp.'', AID_DHCP P, 0), (''debug.'', AID_SYSTEM P, 0), (''debug.'', AID_SHELL P, 0),
      (''log.'', AID_SHELL P, 0), (''service.adb.root'', AID_SHELL P, 0),
      (''service.adb.tcp.port'', AID_SHELL P, 0), (''persist.sys.'', AID_SYSTEM P, 0),
      (''persist.service.'', AID_SYSTEM P, 0), (''persist.security.'', AID_SYSTEM P, 0),
      (''persist.service.bdroid.'', AID_BLUETOOTH P, 0), (''selinux.'', AID_SYSTEM P, 0)]"

definition control_perms :: "'p platform \<Rightarrow> (string \<times> u32 \<times> u32) list" where
  "control_perms P = [(''dumpstate'', AID_SHELL P, AID_LOG P), (''ril-daemon'', AID_RADIO P, AID_RADIO P)]"

fun search_acl :: "(string \<Rightarrow> bool) \<Rightarrow> u32 \<Rightarrow> u32 \<Rightarrow> (string \<times> u32 \<times> u32) list \<Rightarrow> bool" where
  "search_acl m cuid cgid [] = False"
| "search_acl m cuid cgid ((n, u, g) # acl) =
     (if m n \<and> (cuid \<noteq> 0 \<and> u = cuid \<or> cgid \<noteq> 0 \<and> g = cgid) then True else search_acl m cuid cgid acl)"

definition check_control_perms :: "'p platform \<Rightarrow> string \<Rightarrow> u32 \<Rightarrow> u32 \<Rightarrow> string option \<Rightarrow> bool" where
  "check_control_perms P name cuid cgid sctx =
     (if cuid = AID_SYSTEM P \<or> cuid = AID_ROOT P then check_control_mac_perms P name sctx
      else if search_acl (\<lambda>n. \<not> strcmp n name) cuid cgid (control_perms P) then check_control_mac_perms P name sctx
      else False)"

definition check_perms :: "'p platform \<Rightarrow> string \<Rightarrow> u32 \<Rightarrow> u32 \<Rightarrow> string option \<Rightarrow> bool" where
  "check_perms P name cuid cgid sctx =
     (let name = (if \<not> strncmp name ''ro.'' 3 then drop 3 name else name) in
      if cuid = 0 then check_mac_perms P name sctx
      else
        let app_id = multiuser_get_app_id P cuid;
            cuid = (if app_id = AID_BLUETOOTH P then app_id else cuid)
        in if search_acl (\<lambda>n. \<not> strncmp n name (length n)) cuid cgid (property_perms P)
           then check_mac_perms P name sctx else False)"

subsection \<open>Setting properties\<close>

text \<open>The file of a persistent property.\<close>

definition persistent_path :: "string \<Rightarrow> string" where
  "persistent_path name = ''/data/property/'' @ name"

definition write_persistent_property :: "'p platform \<Rightarrow> string \<Rightarrow> string \<Rightarrow> 'p init_state \<Rightarrow> 'p init_state" where
  "write_persistent_property P name value s =
     (let (t, s) = sys (sys_mkstemp P) s in
      case t of
        None \<Rightarrow> ERROR ''Unable to write persistent property to temp file'' s
      | Some temp \<Rightarrow>
          let s = emit (Write_file temp value) s;
              (r, s) = sys (sys_result P) (emit (Rename temp (persistent_path name)) s)
          in if r \<noteq> 0 then ERROR ''Unable to rename persistent property file'' (emit (Unlink temp) s) else s)"

definition selinux_is_disabled :: "'p platform \<Rightarrow> 'p init_state \<Rightarrow> bool \<times> 'p init_state" where
  "selinux_is_disabled P s =
     (let (present, s) = sys (\<lambda>n. sys_stat P n ''/sys/fs/selinux'') s in
      if \<not> present then (True, s)
      else (property_get P ''ro.boot.selinux'' s \<noteq> [] \<and> \<not> strcmp (property_get P ''ro.boot.selinux'' s) ''disabled'', s))"

text \<open>The reloading of the policy and of its handles, by libselinux, is one effect.\<close>

definition selinux_reload_policy :: "'p platform \<Rightarrow> 'p init_state \<Rightarrow> 'p init_state" where
  "selinux_reload_policy P s =
     (let (disabled, s) = selinux_is_disabled P s in if disabled then s else emit Reload_policy s)"

definition property_changed :: "string \<Rightarrow> string \<Rightarrow> 'p init_state \<Rightarrow> 'p init_state" where
  "property_changed name value s =
     (if property_triggers_enabled s then queue_property_triggers name value s else s)"

text \<open>The first half of property_set, up to the change of the property area. A negative
  result is what property_set returns.\<close>

definition store_property :: "'p platform \<Rightarrow> string \<Rightarrow> string \<Rightarrow> 'p init_state \<Rightarrow> int \<times> 'p init_state" where
  "store_property P name value s =
     (if \<not> is_legal_property_name P name then (- 1, s)
      else if length value \<ge> PROP_VALUE_MAX P then (- 1, s)
      else case system_property_find P (props s) name of
          Some _ \<Rightarrow> if \<not> strncmp name ''ro.'' 3 then (- 1, s)
                     else (0, s\<lparr>props := system_property_update P (props s) name value\<rparr>)
        | None \<Rightarrow>
            let (ret, p) = system_property_add P (props s) name value in
            if ret < 0 then (ret, ERROR ''Failed to set'' (s\<lparr>props := p\<rparr>)) else (0, s\<lparr>props := p\<rparr>))"

definition net_prefix :: "string \<Rightarrow> bool" where "net_prefix name \<longleftrightarrow> \<not> strncmp ''net.'' name 4"
definition persist_prefix :: "string \<Rightarrow> bool" where "persist_prefix name \<longleftrightarrow> \<not> strncmp ''persist.'' name 8"

text \<open>The property net.change records the last change of a net property; setting it ends
  without a further change.\<close>

function property_set :: "'p platform \<Rightarrow> string \<Rightarrow> string \<Rightarrow> 'p init_state \<Rightarrow> int \<times> 'p init_state" where
  "property_set P name value s =
     (let (ret, s) = store_property P name value s in
      if ret < 0 then (ret, s)
      else if net_prefix name \<and> \<not> strcmp ''net.change'' name then (0, s)
      else
        let s = (if net_prefix name then snd (property_set P ''net.change'' name s)
                 else if persistent_properties_loaded s \<and> persist_prefix name
                 then write_persistent_property P name value s
                 else if \<not> strcmp ''selinux.reload_policy'' name \<and> \<not> strcmp ''1'' value
                 then selinux_reload_policy P s else s)
        in (0, property_changed name value s))"
  by pat_completeness auto
termination by (relation "measure (\<lambda>(P, name, _). if name = ''net.change'' then 0 else 1)") (auto simp: strcmp_def)

declare property_set.simps [simp del]

definition notify_service_state :: "'p platform \<Rightarrow> string \<Rightarrow> string \<Rightarrow> 'p init_state \<Rightarrow> 'p init_state" where
  "notify_service_state P name st s =
     (if length name + 10 > PROP_NAME_MAX P then s
      else snd (property_set P (''init.svc.'' @ name) st s))"

subsection \<open>What setting a property does\<close>

text \<open>What the code relies on of the property area: an update or a successful add makes the
  property's value the new one and leaves the others, a failed add leaves all of them.\<close>

definition prop_area_ok :: "'p platform \<Rightarrow> bool" where
  "prop_area_ok P \<longleftrightarrow>
     (\<forall>p n v m. system_property_find P p n \<noteq> None \<longrightarrow>
        system_property_find P (system_property_update P p n v) m =
          (if m = n then Some v else system_property_find P p m)) \<and>
     (\<forall>p n v m. system_property_find P p n = None \<longrightarrow>
        system_property_find P (snd (system_property_add P p n v)) m =
          (if m = n \<and> fst (system_property_add P p n v) \<ge> 0 then Some v else system_property_find P p m))"

lemma prop_area_okD:
  assumes "prop_area_ok P"
  shows "system_property_find P p n \<noteq> None \<Longrightarrow>
      system_property_find P (system_property_update P p n v) m = (if m = n then Some v else system_property_find P p m)"
    and "system_property_find P p n = None \<Longrightarrow>
      system_property_find P (snd (system_property_add P p n v)) m =
        (if m = n \<and> fst (system_property_add P p n v) \<ge> 0 then Some v else system_property_find P p m)"
  using assms unfolding prop_area_ok_def by blast+

lemma props_write_persistent [simp]: "props (write_persistent_property P n v s) = props s"
  by (simp add: write_persistent_property_def Let_def case_prod_unfold split: option.split)

lemma props_reload [simp]: "props (selinux_reload_policy P s) = props s"
  by (simp add: selinux_reload_policy_def selinux_is_disabled_def Let_def case_prod_unfold)

lemma props_changed [simp]: "props (property_changed n v s) = props s"
  by (simp add: property_changed_def queue_property_triggers_def action_loop_add)

lemma store_property_find:
  assumes "prop_area_ok P"
  shows "system_property_find P (props (snd (store_property P n v s))) m =
    (if m = n \<and> fst (store_property P n v s) \<ge> 0 then Some v else system_property_find P (props s) m)"
  using prop_area_okD [OF assms, of "props s" n v m]
  by (auto simp: store_property_def Let_def case_prod_unfold split: option.splits)

lemma store_property_ro:
  "\<not> strncmp n ''ro.'' 3 \<Longrightarrow> system_property_find P (props s) n = Some u \<Longrightarrow> store_property P n v s = (- 1, s)"
  by (auto simp: store_property_def)

text \<open>The effect of property_set on the property area: the store, and for a net property
  the store of net.change.\<close>

definition stores_change :: "string \<Rightarrow> bool" where
  "stores_change n \<longleftrightarrow> net_prefix n \<and> n \<noteq> ''net.change''"

lemma property_set_change:
  "property_set P ''net.change'' v s = (let (r, s) = store_property P ''net.change'' v s in (if r < 0 then r else 0, s))"
  by (simp add: property_set.simps [of P "''net.change''"] net_prefix_def strncmp_def strcmp_def case_prod_unfold Let_def prod_eq_iff)

lemma fst_property_set: "fst (property_set P n v s) = (if fst (store_property P n v s) < 0 then fst (store_property P n v s) else 0)"
  by (simp add: property_set.simps [of P n] case_prod_unfold Let_def)

lemma props_property_set:
  "props (snd (property_set P n v s)) =
     (let (r, s') = store_property P n v s in
      if r \<ge> 0 \<and> stores_change n then props (snd (store_property P ''net.change'' n s')) else props s')"
  by (simp add: property_set.simps [of P n] case_prod_unfold Let_def stores_change_def strcmp_def property_set_change not_le)

lemma property_set_find:
  assumes "prop_area_ok P"
  shows "system_property_find P (props (snd (property_set P n v s))) m =
    (if fst (store_property P n v s) < 0 then system_property_find P (props s) m
     else if m = n then Some v
     else if stores_change n \<and> m = ''net.change'' \<and>
       fst (store_property P ''net.change'' n (snd (store_property P n v s))) \<ge> 0 then Some n
     else system_property_find P (props s) m)"
  using store_property_find [OF assms, of n v s m]
    store_property_find [OF assms, of "''net.change''" n "snd (store_property P n v s)" m]
  by (auto simp: props_property_set case_prod_unfold Let_def stores_change_def)

lemma property_set_ro:
  assumes "prop_area_ok P" and "n = ''ro.'' @ x" and "system_property_find P (props s) n = Some v"
  shows "system_property_find P (props (snd (property_set P a b s))) n = Some v"
proof (cases "a = n")
  case True
  have "\<not> strncmp n ''ro.'' 3" using assms(2) by (simp add: strncmp_def)
  then show ?thesis using True store_property_ro [of n P s v b] assms(3) by (simp add: props_property_set)
next
  case False
  have "n \<noteq> ''net.change''" using assms(2) by simp
  then show ?thesis using property_set_find [OF assms(1), of a b s n] False assms(3) by simp
qed

text \<open>
  Read-only properties are immutable: once a property whose name begins with ro. has a
  value, no sequence of property_set calls changes it.
\<close>

theorem ro_properties_immutable:
  assumes "prop_area_ok P" and "n = ''ro.'' @ x" and "system_property_find P (props s) n = Some v"
  shows "system_property_find P (props (fold (\<lambda>(a, b) s. snd (property_set P a b s)) sets s)) n = Some v"
  using assms(3)
proof (induction sets arbitrary: s)
  case (Cons ab sets)
  obtain a b where ab: "ab = (a, b)" by (cases ab)
  have "system_property_find P (props (snd (property_set P a b s))) n = Some v"
    using property_set_ro [OF assms(1,2) Cons.prems] .
  then show ?case using Cons.IH ab by simp
qed simp

text \<open>A platform whose property area is a map with room for every property.\<close>

definition map_platform :: "(string \<Rightarrow> string option) platform" where
  "map_platform = \<lparr>PROP_NAME_MAX = 32, PROP_VALUE_MAX = 92, AID_ROOT = 0, AID_SYSTEM = 1000, AID_RADIO = 1001,
     AID_SHELL = 2000, AID_BLUETOOTH = 1002, AID_DHCP = 1014, AID_LOG = 1007, android_ids = [(''system'', 1000)],
     multiuser_get_app_id = id, system_property_find = (\<lambda>p. p), system_property_update = (\<lambda>p n v. p(n \<mapsto> v)),
     system_property_add = (\<lambda>p n v. (0, p(n \<mapsto> v))), is_selinux_enabled = False, selabel_lookup_prop = (\<lambda>_. None),
     selinux_check_access = (\<lambda>_ _ _ _ _. False), exec_context = (\<lambda>_. None), sys_gettime = int, sys_fork = (\<lambda>n. int n + 100),
     sys_stat = (\<lambda>_ _. True), sys_open = (\<lambda>_ _. 3), sys_read = (\<lambda>_ _. None), sys_readdir = (\<lambda>_ _. None), sys_fstat = (\<lambda>_ _. None),
     sys_mkstemp = (\<lambda>_. Some ''/data/property/.temp.000000''),
     sys_waitpid = (\<lambda>_. None), sys_result = (\<lambda>_. 0), sys_errno = (\<lambda>_. 0), sys_peercred = (\<lambda>_. Some (0, 0)),
     sys_peercon = (\<lambda>_. None), sys_recv = (\<lambda>_. None), sys_read_u16 = (\<lambda>_. None), sys_read_chunk = (\<lambda>_ _. None),
     sys_readlink = (\<lambda>_ _. None), sys_poll = (\<lambda>_ _. []), selabel_lookup_file = (\<lambda>_. None), fs_mgr_mount_all = (\<lambda>_ _. Some 0),
     fb_var_screeninfo = (\<lambda>_. None), ANDROID_SOCKET_DIR = ''/dev/socket'', ANDROID_SOCKET_ENV_PREFIX = ''ANDROID_SOCKET_'',
     PROP_SERVICE_NAME = ''property_service'', PROP_PATH_RAMDISK_DEFAULT = ''/default.prop'',
     PROP_PATH_SYSTEM_BUILD = ''/system/build.prop'', PROP_PATH_SYSTEM_DEFAULT = ''/system/default.prop'', PROP_MSG_SETPROP = 1,
     sizeof_input_keychord = 6, sizeof_keycode = 2\<rparr>"

lemma map_platform_ok: "prop_area_ok map_platform"
  by (simp add: prop_area_ok_def map_platform_def)

definition empty_init :: "(string \<Rightarrow> string option) init_state" where
  "empty_init = \<lparr>service_list = [], action_list = [], action_queue = [], cur_action = None, cur_command = None,
     props = Map.empty, persistent_properties_loaded = False, property_area_inited = True, property_triggers_enabled = False,
     property_set_fd = - 1, signal_recv_fd = - 1, keychord_fd = - 1, have_console = False, console_name = ''/dev/console'',
     console = [], bootmode = [], hardware = [], qemu = [], revision = 0, process_needs_restart = 0, keychords = [],
     keychords_count = 0, mtd_part_map = [], mtd_part_count = - 1, sehandle = False, pa_workspace_fd = - 1, ENV = [], nsys = 0,
     effects = []\<rparr>"

theorem ro_properties_immutable_witness:
  "system_property_find map_platform (props (fold (\<lambda>(a, b) s. snd (property_set map_platform a b s))
     [(''ro.hardware'', ''evil''), (''net.dns1'', ''8.8.8.8'')] (empty_init\<lparr>props := [''ro.hardware'' \<mapsto> ''mako'']\<rparr>))) ''ro.hardware'' =
   Some ''mako''"
proof -
  have "''ro.hardware'' = ''ro.'' @ ''hardware''"
    "system_property_find map_platform (props (empty_init\<lparr>props := [''ro.hardware'' \<mapsto> ''mako'']\<rparr>)) ''ro.hardware'' = Some ''mako''"
    by (simp_all add: map_platform_def)
  then show ?thesis by (rule ro_properties_immutable [OF map_platform_ok])
qed

text \<open>
  C28: property_set succeeds exactly when the name is legal, the value fits, the property
  is not an existing read-only one and the area has room. On success the property has the
  value; on failure no property changes. No other property changes either way, except that
  net.change names the last net property set.
\<close>

theorem property_set_correct:
  assumes "prop_area_ok P"
  shows "(let (r, s') = property_set P n v s; old = system_property_find P (props s); new = system_property_find P (props s') in
    (r \<ge> 0 \<longleftrightarrow> is_legal_property_name P n \<and> length v < PROP_VALUE_MAX P \<and>
       (if old n = None then fst (system_property_add P (props s) n v) \<ge> 0 else strncmp n ''ro.'' 3)) \<and>
    (if r \<ge> 0 then new n = Some v else new = old) \<and>
    (\<forall>m. m \<noteq> n \<and> m \<noteq> ''net.change'' \<longrightarrow> new m = old m))"
proof -
  have r: "fst (store_property P n v s) \<ge> 0 \<longleftrightarrow> is_legal_property_name P n \<and> length v < PROP_VALUE_MAX P \<and>
      (if system_property_find P (props s) n = None then fst (system_property_add P (props s) n v) \<ge> 0 else strncmp n ''ro.'' 3)"
    by (auto simp: store_property_def Let_def case_prod_unfold split: option.split)
  show ?thesis
    using r property_set_find [OF assms, of n v s] by (auto simp: Let_def case_prod_unfold fst_property_set fun_eq_iff not_le)
qed

theorem property_set_correct_witness:
  "system_property_find map_platform (props (snd (property_set map_platform ''net.dns1'' ''8.8.8.8'' empty_init))) ''net.dns1'' =
     Some ''8.8.8.8''"
proof -
  have "is_legal_property_name map_platform ''net.dns1''" "length ''8.8.8.8'' < PROP_VALUE_MAX map_platform"
    "system_property_find map_platform (props empty_init) ''net.dns1'' = None"
    "fst (system_property_add map_platform (props empty_init) ''net.dns1'' ''8.8.8.8'') \<ge> 0"
    by (simp_all add: is_legal_property_name_def map_platform_def empty_init_def islower_def isupper_def isdigit_def code_def)
  then show ?thesis
    using property_set_correct [OF map_platform_ok, of "''net.dns1''" "''8.8.8.8''" empty_init]
    by (simp add: Let_def case_prod_unfold)
qed

subsection \<open>Legal names\<close>

definition name_char :: "char \<Rightarrow> bool" where
  "name_char c \<longleftrightarrow> isalnum c \<or> c = CHR ''.'' \<or> c = CHR ''-'' \<or> c = CHR ''_''"

definition double_dot :: "string \<Rightarrow> bool" where
  "double_dot cs \<longleftrightarrow> (\<exists>xs ys. cs = xs @ ''..'' @ ys)"

lemma double_dot_Nil [simp]: "\<not> double_dot []"
  by (simp add: double_dot_def)

lemma double_dot_Cons:
  "double_dot (c # cs) \<longleftrightarrow> c = CHR ''.'' \<and> cs \<noteq> [] \<and> hd cs = CHR ''.'' \<or> double_dot cs"
proof
  assume "double_dot (c # cs)"
  then show "c = CHR ''.'' \<and> cs \<noteq> [] \<and> hd cs = CHR ''.'' \<or> double_dot cs"
    by (auto simp: double_dot_def Cons_eq_append_conv)
next
  assume "c = CHR ''.'' \<and> cs \<noteq> [] \<and> hd cs = CHR ''.'' \<or> double_dot cs"
  then show "double_dot (c # cs)"
  proof
    assume "c = CHR ''.'' \<and> cs \<noteq> [] \<and> hd cs = CHR ''.''"
    then have "c # cs = [] @ ''..'' @ tl cs" by (cases cs) auto
    then show ?thesis unfolding double_dot_def by blast
  next
    assume "double_dot cs"
    then obtain xs ys where "c # cs = (c # xs) @ ''..'' @ ys" by (auto simp: double_dot_def)
    then show ?thesis unfolding double_dot_def by blast
  qed
qed

lemma legal_chars_iff:
  "legal_chars d cs \<longleftrightarrow> (\<forall>c\<in>set cs. name_char c) \<and> \<not> (d \<and> cs \<noteq> [] \<and> hd cs = CHR ''.'') \<and> \<not> double_dot cs"
proof (induction d cs rule: legal_chars.induct)
  case (2 d c cs)
  show ?case
  proof (cases "c = CHR ''.''")
    case True
    then show ?thesis using 2(1) by (cases d) (auto simp: double_dot_Cons name_char_def)
  next
    case False
    then have "name_char c \<longleftrightarrow> c = CHR ''_'' \<or> c = CHR ''-'' \<or> islower c \<or> isupper c \<or> isdigit c"
      by (auto simp: name_char_def isalnum_def isalpha_def)
    then show ?thesis using 2(2) False by (simp add: double_dot_Cons)
  qed
qed simp

text \<open>
  C29: is_legal_property_name accepts exactly the names that are neither empty nor too
  long, consist of letters, digits, dots, dashes and underscores, neither begin nor end
  with a dot and contain no two dots in a row.
\<close>

theorem is_legal_property_name_iff:
  "is_legal_property_name P n \<longleftrightarrow> n \<noteq> [] \<and> length n < PROP_NAME_MAX P \<and> (\<forall>c\<in>set n. name_char c) \<and>
     hd n \<noteq> CHR ''.'' \<and> last n \<noteq> CHR ''.'' \<and> (\<forall>xs ys. n \<noteq> xs @ ''..'' @ ys)"
  by (cases n) (auto simp: is_legal_property_name_def legal_chars_iff double_dot_def last_conv_nth)

theorem is_legal_property_name_iff_witness:
  "\<not> is_legal_property_name map_platform ''a..b'' \<and> \<not> is_legal_property_name map_platform ''a/../b''"
proof -
  have "''a..b'' = ''a'' @ ''..'' @ ''b''" "''a/../b'' = ''a/'' @ ''..'' @ ''/b''" by simp_all
  then show ?thesis using is_legal_property_name_iff [of map_platform] by metis
qed

subsection \<open>Who may set a property\<close>

lemma search_acl_iff:
  "search_acl m u g acl \<longleftrightarrow> (\<exists>n u' g'. (n, u', g') \<in> set acl \<and> m n \<and> (u \<noteq> 0 \<and> u' = u \<or> g \<noteq> 0 \<and> g' = g))"
proof (induction acl)
  case (Cons e acl)
  obtain n u' g' where e: "e = (n, u', g')" by (cases e)
  show ?case
  proof (cases "m n \<and> (u \<noteq> 0 \<and> u' = u \<or> g \<noteq> 0 \<and> g' = g)")
    case False
    then have "search_acl m u g (e # acl) = search_acl m u g acl" by (simp only: e search_acl.simps if_False)
    then show ?thesis using Cons.IH False e by auto
  qed (auto simp: e)
qed simp

lemma property_perms_gid: "(n, u, g) \<in> set (property_perms P) \<Longrightarrow> g = 0"
  by (auto simp: property_perms_def)

text \<open>
  C30: a process that is not root can set a property only through an entry of the table:
  an entry whose prefix begins the name (after ro., if there is one) names its user, or
  the Bluetooth user for each of its multi-user ids. The group never gives access, and
  SELinux has the last word.
\<close>

theorem check_perms_sound:
  assumes "check_perms P name u g sctx" and "u \<noteq> 0"
  shows "\<exists>prefix rest u'. (prefix, u', 0) \<in> set (property_perms P) \<and>
    (name = prefix @ rest \<or> name = ''ro.'' @ prefix @ rest) \<and>
    (u' = u \<or> u' = AID_BLUETOOTH P \<and> multiuser_get_app_id P u = AID_BLUETOOTH P) \<and>
    check_mac_perms P (prefix @ rest) sctx"
proof -
  define n where "n = (if \<not> strncmp name ''ro.'' 3 then drop 3 name else name)"
  define u' where "u' = (if multiuser_get_app_id P u = AID_BLUETOOTH P then multiuser_get_app_id P u else u)"
  have nm: "name = n \<or> name = ''ro.'' @ n"
  proof (cases "strncmp name ''ro.'' 3")
    case False
    then have "take 3 name = ''ro.''" by (simp add: strncmp_def)
    then show ?thesis using False append_take_drop_id [of 3 name] by (simp add: n_def)
  qed (simp add: n_def)
  have c: "search_acl (\<lambda>x. \<not> strncmp x n (length x)) u' g (property_perms P)" "check_mac_perms P n sctx"
    using assms unfolding check_perms_def Let_def n_def [symmetric] u'_def [symmetric] by (auto split: if_splits)
  then obtain p v w where e: "(p, v, w) \<in> set (property_perms P)" "\<not> strncmp p n (length p)"
    "u' \<noteq> 0 \<and> v = u' \<or> g \<noteq> 0 \<and> w = g" by (auto simp: search_acl_iff)
  have "take (length p) n = p" using e(2) by (simp add: strncmp_def)
  then have "n = p @ drop (length p) n" using append_take_drop_id [of "length p" n] by simp
  then show ?thesis using e property_perms_gid [OF e(1)] c(2) nm
    by (intro exI [of _ p] exI [of _ "drop (length p) n"] exI [of _ v]) (auto simp: u'_def split: if_splits)
qed

theorem check_perms_sound_witness:
  "check_perms map_platform ''net.dns1'' 1001 0 None \<and>
   (\<exists>prefix rest. ''net.dns1'' = prefix @ rest \<and> (prefix, 1001, 0) \<in> set (property_perms map_platform))"
proof -
  have c: "check_perms map_platform ''net.dns1'' 1001 0 None"
    by (simp add: check_perms_def property_perms_def check_mac_perms_def map_platform_def strncmp_def)
  then show ?thesis using check_perms_sound [OF c] by (auto simp: map_platform_def)
qed

end
