(* ===== verification/Init_Util.thy ===== *)
theory Init_Util
  imports Init_State
begin

text \<open>
  The helpers of \<^verbatim>\<open>init/init/util.c\<close> around system calls: sockets, directories, links,
  waiting for files, the names of flash partitions and the labels of files.

  A system call draws its result from the platform and leaves a trace in the list of
  effects; errno depends on the number of calls made so far.
\<close>

definition syscall :: "'p platform \<Rightarrow> string \<Rightarrow> sys_arg list \<Rightarrow> 'p init_state \<Rightarrow> int \<times> 'p init_state" where
  "syscall P name a s = (let (r, s) = sys (sys_result P) s in (r, emit (Syscall name a) s))"

definition errno :: "'p platform \<Rightarrow> 'p init_state \<Rightarrow> int" where
  "errno P s = sys_errno P (nsys s)"

definition ENOENT :: int where "ENOENT = 2"
definition ENXIO :: int where "ENXIO = 6"
definition EEXIST :: int where "EEXIST = 17"
definition EINVAL :: int where "EINVAL = 22"

definition SOCK_STREAM :: int where "SOCK_STREAM = 1"
definition SOCK_DGRAM :: int where "SOCK_DGRAM = 2"
definition SOCK_SEQPACKET :: int where "SOCK_SEQPACKET = 5"

text \<open>A step that only makes system calls and logs.\<close>

definition quiet :: "'p init_state \<Rightarrow> 'p init_state \<Rightarrow> bool" where
  "quiet s s' \<longleftrightarrow> s' = s\<lparr>nsys := nsys s', effects := effects s'\<rparr>"

lemma quiet_refl [simp]: "quiet s s" by (simp add: quiet_def)

lemma quiet_trans: "quiet s t \<Longrightarrow> quiet t u \<Longrightarrow> quiet s u"
  by (cases s; cases t; cases u) (simp add: quiet_def)

lemma quiet_emit [simp]: "quiet s (emit e s)" "quiet s (ERROR m s)"
  by (cases s; simp add: quiet_def ERROR_def emit_def)+

lemma quiet_sys [simp]: "quiet s (snd (sys f s))"
  by (cases s) (simp add: quiet_def sys_def)

lemma quiet_syscall [simp]: "quiet s (snd (syscall P n a s))"
  by (cases s) (simp add: quiet_def syscall_def sys_def emit_def)

lemma quiet_emitI: "quiet s t \<Longrightarrow> quiet s (emit e t)" "quiet s t \<Longrightarrow> quiet s (ERROR m t)"
  using quiet_trans quiet_emit by blast+

lemma quiet_sysI: "quiet s t \<Longrightarrow> quiet s (snd (sys f t))" "quiet s t \<Longrightarrow> quiet s (snd (syscall P n a t))"
  using quiet_trans quiet_sys quiet_syscall by blast+

lemma quiet_sysD: "sys f t = (r, t') \<Longrightarrow> quiet s t \<Longrightarrow> quiet s t'" "syscall P n a t = (i, t') \<Longrightarrow> quiet s t \<Longrightarrow> quiet s t'"
  using quiet_sysI(1) [of s t f] quiet_sysI(2) [of s t P n a] by simp_all

lemma quiet_same:
  assumes "quiet s t"
  shows "service_list t = service_list s" "action_list t = action_list s" "action_queue t = action_queue s"
    "cur_action t = cur_action s" "cur_command t = cur_command s" "props t = props s"
    "persistent_properties_loaded t = persistent_properties_loaded s" "property_area_inited t = property_area_inited s"
    "property_triggers_enabled t = property_triggers_enabled s" "have_console t = have_console s"
    "process_needs_restart t = process_needs_restart s" "ENV t = ENV s" "sehandle t = sehandle s"
  using assms by (cases s; cases t; simp add: quiet_def)+

subsection \<open>Sockets\<close>

definition create_socket :: "'p platform \<Rightarrow> string \<Rightarrow> int \<Rightarrow> u32 \<Rightarrow> u32 \<Rightarrow> u32 \<Rightarrow> 'p init_state \<Rightarrow> int \<times> 'p init_state" where
  "create_socket P name type perm u g s =
     (let (fd, s) = syscall P ''socket'' [Num type] s in
      if fd < 0 then (- 1, ERROR ''Failed to open socket'' s)
      else
        let path = take 107 (ANDROID_SOCKET_DIR P @ ''/'' @ name);
            (ret, s) = syscall P ''unlink'' [Str path] s
        in if ret \<noteq> 0 \<and> errno P s \<noteq> ENOENT
           then (- 1, snd (syscall P ''close'' [Num fd] (ERROR ''Failed to unlink old socket'' s)))
           else
             let s = (if sehandle s
                      then case selabel_lookup_file P path of
                          None \<Rightarrow> s | Some secon \<Rightarrow> snd (syscall P ''setfscreatecon'' [Str secon] s)
                      else s);
                 (ret, s) = syscall P ''bind'' [Num fd, Str path] s
             in if ret \<noteq> 0
                then (- 1, snd (syscall P ''close'' [Num fd] (snd (syscall P ''unlink'' [Str path] (ERROR ''Failed to bind socket'' s)))))
                else
                  let s = snd (syscall P ''setfscreatecon'' [] s);
                      s = snd (syscall P ''chown'' [Str path, Num (uint u), Num (uint g)] s);
                      s = snd (syscall P ''chmod'' [Str path, Num (uint perm)] s)
                  in (fd, s))"

lemma quiet_create_socket [simp]: "quiet s (snd (create_socket P n ty perm u g s))"
  by (auto simp: create_socket_def Let_def split: prod.splits option.splits
      intro!: quiet_emitI quiet_sysI elim!: quiet_sysD(2))

subsection \<open>Directories and links\<close>

definition make_dir :: "'p platform \<Rightarrow> string \<Rightarrow> u32 \<Rightarrow> 'p init_state \<Rightarrow> int \<times> 'p init_state" where
  "make_dir P path mode s =
     (let secontext = (if sehandle s then selabel_lookup_file P path else None);
          s = (if sehandle s
               then snd (syscall P ''setfscreatecon'' (case secontext of None \<Rightarrow> [] | Some c \<Rightarrow> [Str c]) s) else s);
          (rc, s) = syscall P ''mkdir'' [Str path, Num (uint mode)] s;
          s = (if secontext \<noteq> None then emit (Syscall ''setfscreatecon'' []) s else s)
      in (rc, s))"

lemma quiet_make_dir [simp]: "quiet s (snd (make_dir P path mode s))"
  by (auto simp: make_dir_def Let_def split: prod.splits intro!: quiet_emitI quiet_sysI elim!: quiet_sysD(2))

lemma strchr_drop_width:
  assumes "strchr (drop i cs) c = Some r"
  shows "i \<le> length cs - length r \<and> length cs - length r < length cs"
proof -
  obtain p where "drop i cs = p @ r" "r \<noteq> []" using strchr_Some [OF assms] by auto
  then have "length cs - i = length p + length r" "0 < length r" by (auto dest: arg_cong [of _ _ length])
  then show ?thesis by linarith
qed

text \<open>The loop over the slashes: \<open>i\<close> is the position after the last one.\<close>

function mkdir_loop :: "'p platform \<Rightarrow> string \<Rightarrow> u32 \<Rightarrow> nat \<Rightarrow> 'p init_state \<Rightarrow> int \<times> 'p init_state" where
  "mkdir_loop P pathname mode i s =
     (case strchr (drop i pathname) (CHR ''/'') of
        None \<Rightarrow>
          let (ret, s) = make_dir P pathname mode s in
          if ret \<noteq> 0 \<and> errno P s \<noteq> EEXIST then (ret, s) else (0, s)
      | Some slash \<Rightarrow>
          let width = length pathname - length slash in
          if width = 0 then mkdir_loop P pathname mode (width + 1) s
          else if width > 127 then (- 1, ERROR ''path too long for mkdir_recursive'' s)
          else
            let buf = take width pathname;
                (present, s) = sys (\<lambda>n. sys_stat P n buf) s
            in if \<not> present then
                 let (ret, s) = make_dir P buf mode s in
                 if ret \<noteq> 0 \<and> errno P s \<noteq> EEXIST then (ret, s) else mkdir_loop P pathname mode (width + 1) s
               else mkdir_loop P pathname mode (width + 1) s)"
  by pat_completeness auto
termination
  by (relation "measure (\<lambda>(P, pathname, mode, i, s). length pathname - i)") (auto dest!: strchr_drop_width)

declare mkdir_loop.simps [simp del]

definition mkdir_recursive :: "'p platform \<Rightarrow> string \<Rightarrow> u32 \<Rightarrow> 'p init_state \<Rightarrow> int \<times> 'p init_state" where
  "mkdir_recursive P pathname mode s = mkdir_loop P pathname mode 0 s"

lemma quiet_mkdir_loop: "quiet s t \<Longrightarrow> quiet s (snd (mkdir_loop P pathname mode i t))"
proof (induction P pathname mode i t rule: mkdir_loop.induct)
  case (1 P pathname mode i t)
  show ?case
  proof (cases "strchr (drop i pathname) (CHR ''/'')")
    case None
    then show ?thesis using quiet_trans [OF 1(4) quiet_make_dir [of t P pathname mode]]
      by (auto simp: mkdir_loop.simps [of P pathname mode i t] split: prod.splits)
  next
    case (Some slash)
    define width where "width = length pathname - length slash"
    define buf where "buf = take width pathname"
    obtain pr t1 where t1: "sys (\<lambda>n. sys_stat P n buf) t = (pr, t1)" by fastforce
    obtain ret t2 where t2: "make_dir P buf mode t1 = (ret, t2)" by fastforce
    have q1: "quiet s t1" using quiet_sysD(1) [OF t1 1(4)] .
    have q2: "quiet s t2" using quiet_trans [OF q1 quiet_make_dir [of t1 P buf mode]] t2 by simp
    note IH = 1(1) [OF Some width_def] 1(2) [OF Some width_def _ _ buf_def t1 [symmetric] _ _ t2 [symmetric]]
      1(3) [OF Some width_def _ _ buf_def t1 [symmetric]]
    show ?thesis using IH 1(4) q1 q2
      by (simp add: mkdir_loop.simps [of P pathname mode i t] Some Let_def width_def [symmetric] buf_def [symmetric] t1 t2 quiet_emitI)
  qed
qed

lemma quiet_mkdir_recursive [simp]: "quiet s (snd (mkdir_recursive P pathname mode s))"
  by (simp add: mkdir_recursive_def quiet_mkdir_loop)

text \<open>strrchr: the string from the last occurrence on.\<close>

definition strrchr :: "string \<Rightarrow> char \<Rightarrow> string option" where
  "strrchr s c = (if c \<in> set s then Some (c # rev (takeWhile (\<lambda>x. x \<noteq> c) (rev s))) else None)"

definition make_link :: "'p platform \<Rightarrow> string \<Rightarrow> string \<Rightarrow> 'p init_state \<Rightarrow> 'p init_state" where
  "make_link P oldpath newpath s =
     (case strrchr newpath (CHR ''/'') of
        None \<Rightarrow> s
      | Some slash \<Rightarrow>
          let width = length newpath - length slash in
          if width = 0 \<or> width > 255 then s
          else
            let (ret, s) = mkdir_recursive P (take width newpath) 0x1ED s;
                s = (if ret \<noteq> 0 then ERROR ''Failed to create directory'' s else s);
                (ret, s) = syscall P ''symlink'' [Str oldpath, Str newpath] s
            in if ret \<noteq> 0 \<and> errno P s \<noteq> EEXIST then ERROR ''Failed to symlink'' s else s)"

definition remove_link :: "'p platform \<Rightarrow> string \<Rightarrow> string \<Rightarrow> 'p init_state \<Rightarrow> 'p init_state" where
  "remove_link P oldpath newpath s =
     (let (r, s) = sys (\<lambda>n. sys_readlink P n newpath) s in
      case r of
        None \<Rightarrow> s
      | Some path \<Rightarrow>
          let path = take 255 path in
          if path = [] then s else if \<not> strcmp (cstr path) oldpath then emit (Unlink newpath) s else s)"

subsection \<open>Names\<close>

text \<open>sanitize on the buffer that holds the string. None is an access outside of it.\<close>

definition acceptable :: "char \<Rightarrow> bool" where
  "acceptable c \<longleftrightarrow> isalnum c \<or> c = CHR ''_'' \<or> c = CHR ''-'' \<or> c = CHR ''.''"

function sanitize_loop :: "string \<Rightarrow> nat \<Rightarrow> string option" where
  "sanitize_loop b i =
     (if i \<ge> length b then None
      else if b ! i = NUL then Some b
      else
        let i = i + length (takeWhile acceptable (drop i b)) in
        if i \<ge> length b then None
        else sanitize_loop (if b ! i \<noteq> NUL then b[i := CHR ''_''] else b) (i + 1))"
  by pat_completeness auto
termination by (relation "measure (\<lambda>(b, i). length b - i)") auto

declare sanitize_loop.simps [simp del]

definition sanitize :: "string \<Rightarrow> string option" where
  "sanitize b = sanitize_loop b 0"

lemma acceptable_NUL [simp]: "\<not> acceptable NUL"
  by (simp add: acceptable_def isalnum_def isalpha_def isupper_def islower_def isdigit_def code_def NUL_def)

lemma sanitize_step:
  assumes "is_cstr s" and "list_all acceptable ok" and "s = ok @ r" and "r = [] \<or> \<not> acceptable (hd r)" and "s \<noteq> []"
  shows "sanitize_loop (p @ s @ [NUL]) (length p) =
    (case r of [] \<Rightarrow> None | c # t \<Rightarrow> sanitize_loop (p @ ok @ [CHR ''_''] @ t @ [NUL]) (length p + length ok + 1))"
proof -
  let ?b = "p @ s @ [NUL]"
  have "?b ! length p \<noteq> NUL" using assms(1,5) by (cases s) (auto simp: nth_append)
  moreover have tw: "takeWhile acceptable (drop (length p) ?b) = ok"
    using assms(2-4) by (cases r) (auto simp: list_all_iff takeWhile_append)
  ultimately have e: "sanitize_loop ?b (length p) =
      sanitize_loop (if ?b ! (length p + length ok) \<noteq> NUL then ?b[length p + length ok := CHR ''_''] else ?b) (length p + length ok + 1)"
    using assms(3) by (subst sanitize_loop.simps) (simp add: Let_def)
  show ?thesis
  proof (cases r)
    case Nil
    then have "?b ! (length p + length ok) = NUL" "length ?b = length p + length ok + 1" using assms(3) by (simp_all add: nth_append)
    then show ?thesis using e Nil by (simp add: sanitize_loop.simps)
  next
    case (Cons c t)
    then have "?b ! (length p + length ok) = c" "c \<noteq> NUL" "?b[length p + length ok := CHR ''_''] = p @ ok @ [CHR ''_''] @ t @ [NUL]"
      using assms(1,3) by (auto simp: nth_append list_update_append)
    then show ?thesis using e Cons by simp
  qed
qed

definition clean :: "char \<Rightarrow> char" where
  "clean c = (if acceptable c then c else CHR ''_'')"

lemma sanitize_loop_result:
  assumes "is_cstr s"
  shows "sanitize_loop (p @ s @ [NUL]) (length p) =
    (if s = [] \<or> \<not> acceptable (last s) then Some (p @ map clean s @ [NUL]) else None)"
  using assms
proof (induction "length s" arbitrary: p s rule: less_induct)
  case less
  show ?case
  proof (cases "s = []")
    case True
    then show ?thesis by (simp add: sanitize_loop.simps nth_append)
  next
    case False
    let ?ok = "takeWhile acceptable s" and ?r = "dropWhile acceptable s"
    have ok: "list_all acceptable ?ok" by (auto simp: list_all_iff dest: set_takeWhileD)
    have hd: "?r = [] \<or> \<not> acceptable (hd ?r)" using hd_dropWhile by blast
    note step = sanitize_step [OF less.prems ok takeWhile_dropWhile_id [symmetric] hd False, of p]
    have okc: "map clean ?ok = ?ok" by (rule map_idI) (auto simp: clean_def dest: set_takeWhileD)
    show ?thesis
    proof (cases ?r)
      case Nil
      then have "acceptable (last s)" using False by (auto simp: dropWhile_eq_Nil_conv)
      then show ?thesis using step Nil False by simp
    next
      case (Cons c t)
      have s: "s = ?ok @ c # t" using Cons takeWhile_dropWhile_id [of acceptable s] by simp
      have len: "length t < length s" by (subst s) simp
      have "is_cstr t" using less.prems s by (metis is_cstr_simps(2,3))
      note IH = less.hyps [OF len this, of "p @ ?ok @ [CHR ''_'']"]
      have "clean c = CHR ''_''" using hd Cons by (simp add: clean_def)
      then have m: "map clean s = ?ok @ CHR ''_'' # map clean t" by (subst s) (simp add: okc)
      have l: "(s = [] \<or> \<not> acceptable (last s)) = (t = [] \<or> \<not> acceptable (last t))"
        by (subst (1 2) s) (use hd Cons in auto)
      show ?thesis using step Cons IH by (simp add: m l)
    qed
  qed
qed

text \<open>sanitize replaces every unacceptable character by an underscore and nothing else,
  but only of strings that are empty or end in an unacceptable character: on every other
  string the loop steps over the terminator and reads outside of the buffer.\<close>

theorem sanitize_correct:
  assumes "is_cstr s"
  shows "sanitize (s @ [NUL]) =
    (if s = [] \<or> \<not> acceptable (last s) then Some (map (\<lambda>c. if acceptable c then c else CHR ''_'') s @ [NUL]) else None)"
  using sanitize_loop_result [OF assms, of "[]"] by (simp add: sanitize_def clean_def [abs_def])

theorem sanitize_correct_witness:
  "sanitize (''a b:'' @ [NUL]) = Some (''a_b_'' @ [NUL]) \<and> sanitize (''mmcblk0'' @ [NUL]) = None"
proof -
  have "is_cstr ''a b:''" "is_cstr ''mmcblk0''" by (simp_all add: NUL_def)
  from this [THEN sanitize_correct] show ?thesis
    by (simp add: acceptable_def isalnum_def isalpha_def isupper_def islower_def isdigit_def code_def)
qed

subsection \<open>Waiting\<close>

text \<open>None is waiting for ever.\<close>

partial_function (option) wait_loop ::
  "'p platform \<Rightarrow> string \<Rightarrow> int \<Rightarrow> int \<Rightarrow> 'p init_state \<Rightarrow> (int \<times> 'p init_state) option" where
  "wait_loop P filename timeout_time ret s =
     (let (now, s) = gettime P s in
      if now < timeout_time then
        let (present, s) = sys (\<lambda>n. sys_stat P n filename) s in
        if \<not> present then wait_loop P filename timeout_time (- 1) (emit (Syscall ''usleep'' [Num 10000]) s)
        else Some (0, s)
      else Some (ret, s))"

definition wait_for_file :: "'p platform \<Rightarrow> string \<Rightarrow> int \<Rightarrow> 'p init_state \<Rightarrow> (int \<times> 'p init_state) option" where
  "wait_for_file P filename timeout s =
     (let (now, s) = gettime P s in wait_loop P filename (now + timeout) (- 1) s)"

text \<open>The clock passes every point of time.\<close>

definition clock_advances :: "'p platform \<Rightarrow> bool" where
  "clock_advances P \<longleftrightarrow> (\<forall>t. \<exists>n. \<forall>m\<ge>n. t \<le> sys_gettime P m)"

lemma wait_loop_ends:
  assumes "\<And>m. n \<le> m \<Longrightarrow> t \<le> sys_gettime P m"
  shows "\<exists>r s'. wait_loop P fn t ret s = Some (r, s') \<and> quiet s s' \<and> (r = ret \<or> r = - 1 \<or> r = 0)"
proof (induction "n - nsys s" arbitrary: s ret rule: less_induct)
  case less
  define s1 where "s1 = s\<lparr>nsys := Suc (nsys s)\<rparr>"
  define s2 where "s2 = s1\<lparr>nsys := Suc (nsys s1)\<rparr>"
  define s3 where "s3 = emit (Syscall ''usleep'' [Num 10000]) s2"
  have q: "quiet s s1" "quiet s s2" "quiet s s3" by (cases s; simp add: s1_def s2_def s3_def quiet_def emit_def)+
  have step: "wait_loop P fn t ret s =
      (if sys_gettime P (nsys s) < t then
         (if \<not> sys_stat P (nsys s1) fn then wait_loop P fn t (- 1) s3 else Some (0, s2))
       else Some (ret, s1))"
    by (subst wait_loop.simps) (simp add: gettime_def sys_def s1_def s2_def s3_def)
  show ?case
  proof (cases "sys_gettime P (nsys s) < t \<and> \<not> sys_stat P (nsys s1) fn")
    case True
    have "nsys s < n" using assms [of "nsys s"] True by (metis linorder_not_less)
    then have "n - nsys s3 < n - nsys s" by (simp add: s3_def s2_def s1_def)
    from less [OF this, of "- 1"] obtain r s' where "wait_loop P fn t (- 1) s3 = Some (r, s')" "quiet s3 s'" "r = - 1 \<or> r = 0" by auto
    then show ?thesis using step True quiet_trans [OF q(3)] by auto
  qed (use step q in auto)
qed

lemma wait_for_file_ends:
  assumes "clock_advances P"
  shows "\<exists>r s'. wait_for_file P fn timeout s = Some (r, s') \<and> quiet s s' \<and> (r = - 1 \<or> r = 0)"
proof -
  define s1 where "s1 = s\<lparr>nsys := Suc (nsys s)\<rparr>"
  obtain n where n: "\<And>m. n \<le> m \<Longrightarrow> sys_gettime P (nsys s) + timeout \<le> sys_gettime P m"
    using assms unfolding clock_advances_def by blast
  have "quiet s s1" by (cases s) (simp add: s1_def quiet_def)
  then show ?thesis
    using wait_loop_ends [of n _ P, OF n, where fn = fn and ret = "- 1" and s = s1] quiet_trans
    by (auto simp: wait_for_file_def gettime_def sys_def s1_def)
qed

subsection \<open>Flash partitions\<close>

text \<open>
  The conversions of sscanf. The text is the part of the buffer that read filled; the bytes
  behind it were never initialised, and a conversion that gets there is None. Otherwise the
  conversion fails, Some None, or gives a value and the rest of the text.
\<close>

type_synonym 'a conversion = "('a \<times> string) option option"

definition scan_literal :: "string \<Rightarrow> string \<Rightarrow> unit conversion" where
  "scan_literal l t =
     (if take (length l) t = l then Some (Some ((), drop (length l) t))
      else if length t < length l \<and> take (length t) l = t then None else Some None)"

definition scan_number :: "nat \<Rightarrow> string \<Rightarrow> int conversion" where
  "scan_number base t =
     (let t = dropWhile isspace t;
          neg = (t \<noteq> [] \<and> hd t = CHR ''-'');
          t = (if t \<noteq> [] \<and> (hd t = CHR ''-'' \<or> hd t = CHR ''+'') then tl t else t);
          t = (if base = 16 \<and> length t \<ge> 2 \<and> hd t = CHR ''0'' \<and> (t ! 1 = CHR ''x'' \<or> t ! 1 = CHR ''X'') then drop 2 t else t);
          ds = takeWhile (\<lambda>c. digit base c \<noteq> None) t;
          r = drop (length ds) t
      in if r = [] then None
         else if ds = [] then Some None
         else Some (Some (if neg then - int (digits base 0 ds) else int (digits base 0 ds), r)))"

definition scan_word15 :: "string \<Rightarrow> string conversion" where
  "scan_word15 t =
     (let t = dropWhile isspace t;
          w = take 15 (takeWhile (\<lambda>c. \<not> isspace c \<and> c \<noteq> NUL) t);
          r = drop (length w) t
      in if length w < 15 \<and> r = [] then None else if w = [] then Some None else Some (Some (w, r)))"

text \<open>The conversion \<open>mtd%d: %x %x %15s\<close>: the number and the word when all four succeed.\<close>

definition scan_mtd_line :: "string \<Rightarrow> (int \<times> string) option option" where
  "scan_mtd_line t =
     (case scan_literal ''mtd'' t of
        None \<Rightarrow> None
      | Some None \<Rightarrow> Some None
      | Some (Some (_, t)) \<Rightarrow>
     (case scan_number 10 t of
        None \<Rightarrow> None
      | Some None \<Rightarrow> Some None
      | Some (Some (mtdnum, t)) \<Rightarrow>
     (case scan_literal '':'' t of
        None \<Rightarrow> None
      | Some None \<Rightarrow> Some None
      | Some (Some (_, t)) \<Rightarrow>
     (case scan_number 16 t of
        None \<Rightarrow> None
      | Some None \<Rightarrow> Some None
      | Some (Some (_, t)) \<Rightarrow>
     (case scan_number 16 t of
        None \<Rightarrow> None
      | Some None \<Rightarrow> Some None
      | Some (Some (_, t)) \<Rightarrow> map_option (map_option (\<lambda>(w, _). (mtdnum, w))) (scan_word15 t))))))"

definition MAX_MTD_PARTITIONS :: int where "MAX_MTD_PARTITIONS = 16"

definition add_mtd_partition :: "int \<Rightarrow> string \<Rightarrow> 'p init_state \<Rightarrow> 'p init_state" where
  "add_mtd_partition mtdnum mtdname s =
     (let name = takeWhile (\<lambda>c. c \<noteq> QUOTE) (tl mtdname) in
      if mtd_part_count s < MAX_MTD_PARTITIONS
      then s\<lparr>mtd_part_map := mtd_part_map s @ [(name, mtdnum)], mtd_part_count := mtd_part_count s + 1\<rparr>
      else ERROR ''too many mtd partitions'' s)"

function find_mtd_loop :: "string \<Rightarrow> 'p init_state \<Rightarrow> 'p init_state option" where
  "find_mtd_loop t s =
     (if t = [] then Some s
      else
        let next = tl (dropWhile (\<lambda>c. c \<noteq> NEWLINE) t) in
        case scan_mtd_line t of
          None \<Rightarrow> None
        | Some (Some (mtdnum, mtdname)) \<Rightarrow>
            find_mtd_loop next (if hd mtdname = QUOTE then add_mtd_partition mtdnum mtdname s else s)
        | Some None \<Rightarrow> find_mtd_loop next s)"
  by pat_completeness auto
termination
proof (relation "measure (\<lambda>(t, s). length t)", goal_cases)
  case (2 t s x)
  then show ?case using length_dropWhile_le [of "\<lambda>c. c \<noteq> NEWLINE" t] by (cases t) (auto simp: less_Suc_eq_le)
next
  case (3 t s x)
  then show ?case using length_dropWhile_le [of "\<lambda>c. c \<noteq> NEWLINE" t] by (cases t) (auto simp: less_Suc_eq_le)
qed simp

declare find_mtd_loop.simps [simp del]

definition find_mtd_partitions :: "'p platform \<Rightarrow> 'p init_state \<Rightarrow> 'p init_state option" where
  "find_mtd_partitions P s =
     (let (r, s) = sys (\<lambda>n. sys_read P n ''/proc/mtd'') s in
      case r of None \<Rightarrow> Some s | Some (_, data) \<Rightarrow> find_mtd_loop (take 1023 data) s)"

definition mtd_name_to_number :: "'p platform \<Rightarrow> string \<Rightarrow> 'p init_state \<Rightarrow> (int \<times> 'p init_state) option" where
  "mtd_name_to_number P name s = do {
     s \<leftarrow> (if mtd_part_count s < 0 then find_mtd_partitions P (s\<lparr>mtd_part_count := 0\<rparr>) else Some s);
     Some (case find (\<lambda>(n, _). \<not> strcmp name n) (mtd_part_map s) of None \<Rightarrow> - 1 | Some (_, number) \<Rightarrow> number, s) }"

text \<open>The map holds as many entries as the counter says, and never more than the array.\<close>

definition mtd_ok :: "'p init_state \<Rightarrow> bool" where
  "mtd_ok s \<longleftrightarrow> (mtd_part_count s = - 1 \<and> mtd_part_map s = []) \<or>
     mtd_part_count s = int (length (mtd_part_map s)) \<and> mtd_part_count s \<le> MAX_MTD_PARTITIONS \<and>
     list_all (\<lambda>(n, _). length n < 15) (mtd_part_map s)"

lemma scan_word15_length: "scan_word15 t = Some (Some (w, r)) \<Longrightarrow> w \<noteq> [] \<and> length w \<le> 15"
  by (auto simp: scan_word15_def Let_def split: if_splits)

lemma scan_mtd_line_length: "scan_mtd_line t = Some (Some (i, w)) \<Longrightarrow> w \<noteq> [] \<and> length w \<le> 15"
  unfolding scan_mtd_line_def using scan_word15_length by (fastforce split: option.splits prod.splits)

lemma mtd_ok_add:
  assumes "mtd_ok s" and "0 \<le> mtd_part_count s" and "length w \<le> 15" and "w \<noteq> []"
  shows "mtd_ok (add_mtd_partition i w s) \<and> 0 \<le> mtd_part_count (add_mtd_partition i w s)"
proof -
  have "length (takeWhile (\<lambda>c. c \<noteq> QUOTE) (tl w)) < 15"
    using assms(3,4) length_takeWhile_le [of "\<lambda>c. c \<noteq> QUOTE" "tl w"] by (cases w) simp_all
  then show ?thesis using assms(1,2) by (auto simp: mtd_ok_def add_mtd_partition_def Let_def ERROR_def emit_def)
qed

lemma mtd_ok_loop:
  "find_mtd_loop t s = Some s' \<Longrightarrow> mtd_ok s \<Longrightarrow> 0 \<le> mtd_part_count s \<Longrightarrow> mtd_ok s' \<and> 0 \<le> mtd_part_count s'"
proof (induction t s arbitrary: s' rule: find_mtd_loop.induct)
  case (1 t s)
  consider "t = []" | "t \<noteq> []" "scan_mtd_line t = Some None"
    | i w where "t \<noteq> []" "scan_mtd_line t = Some (Some (i, w))"
    using 1(3) by (cases "t = []"; cases "scan_mtd_line t"; cases "the (scan_mtd_line t)") (auto simp: find_mtd_loop.simps [of t s])
  then show ?case
  proof cases
    case 1
    then show ?thesis using "1.prems" by (simp add: find_mtd_loop.simps)
  next
    case 2
    then show ?thesis using "1.IH"(1) [OF 2(1) refl 2(2)] "1.prems" by (simp add: find_mtd_loop.simps [of t s] Let_def)
  next
    case (3 i w)
    have "mtd_ok (if hd w = QUOTE then add_mtd_partition i w s else s) \<and>
        0 \<le> mtd_part_count (if hd w = QUOTE then add_mtd_partition i w s else s)"
      using mtd_ok_add [OF "1.prems"(2,3), of w i] scan_mtd_line_length [OF 3(2)] "1.prems"(2,3) by simp
    then show ?thesis using "1.IH"(2) [OF 3(1) refl 3(2) refl refl] 3 "1.prems" by (simp add: find_mtd_loop.simps [of t s] Let_def)
  qed
qed

lemma mtd_ok_name_to_number:
  assumes "mtd_name_to_number P name s = Some (n, s')" and "mtd_ok s"
  shows "mtd_ok s'"
proof (cases "mtd_part_count s < 0")
  case True
  define s0 where "s0 = s\<lparr>mtd_part_count := 0, nsys := Suc (nsys s)\<rparr>"
  have s0: "mtd_ok s0" "0 \<le> mtd_part_count s0" using assms(2) True by (auto simp: mtd_ok_def s0_def MAX_MTD_PARTITIONS_def)
  have "s' = s0 \<or> (\<exists>t. find_mtd_loop t s0 = Some s')"
    using assms(1) True by (auto simp: mtd_name_to_number_def find_mtd_partitions_def sys_def s0_def split: option.splits bind_splits)
  then show ?thesis using s0 mtd_ok_loop by blast
qed (use assms in \<open>auto simp: mtd_name_to_number_def split: bind_splits\<close>)

subsection \<open>Labels\<close>

definition restorecon :: "'p platform \<Rightarrow> string \<Rightarrow> 'p init_state \<Rightarrow> int \<times> 'p init_state" where
  "restorecon P pathname s =
     (if \<not> is_selinux_enabled P \<or> \<not> sehandle s then (0, s)
      else
        let (present, s) = sys (\<lambda>n. sys_stat P n pathname) s in
        if \<not> present then (- errno P s, s)
        else case selabel_lookup_file P pathname of
            None \<Rightarrow> (- errno P s, s)
          | Some secontext \<Rightarrow>
              let (r, s) = syscall P ''lsetfilecon'' [Str pathname, Str secontext] s in
              if r < 0 then (- errno P s, s) else (0, s))"

lemma quiet_restorecon [simp]: "quiet s (snd (restorecon P pathname s))"
  by (auto simp: restorecon_def Let_def split: prod.splits option.splits elim!: quiet_sysD)

text \<open>nftw visits the files below a directory, each before the directory that holds it.\<close>

definition restorecon_recursive :: "'p platform \<Rightarrow> (string \<Rightarrow> string list) \<Rightarrow> string \<Rightarrow> 'p init_state \<Rightarrow> 'p init_state" where
  "restorecon_recursive P nftw pathname s = fold (\<lambda>f s. snd (restorecon P f s)) (nftw pathname) s"

end
