(* ===== verification/Init_Load.thy ===== *)
theory Init_Load
  imports Init_Property Init_Util
begin

text \<open>
  Where property values come from: the expansion of property references in arguments
  (expand_props of \<^verbatim>\<open>init/init/init_parser.c\<close>), property files and persistent
  properties (\<^verbatim>\<open>init/init/property_service.c\<close>), and the kernel command line
  (\<^verbatim>\<open>init/init/init.c\<close>, \<^verbatim>\<open>init/init/util.c\<close>).
\<close>

subsection \<open>Expanding properties\<close>

text \<open>
  The state of the loop is the text written so far (dst up to dst_ptr), \<open>left\<close> and the
  rest of the source. A write at an index outside the destination stops the model with
  None; an error of the code is \<open>(- 1, _)\<close>.
\<close>

definition push_chars :: "string \<Rightarrow> int \<Rightarrow> string \<Rightarrow> (string \<times> int) option" where
  "push_chars dst left chars =
     (if int (length chars) > left then None else Some (dst @ chars, left - int (length chars)))"

definition expand_end :: "nat \<Rightarrow> string \<Rightarrow> (int \<times> string) option" where
  "expand_end dst_size dst = (if length dst < dst_size then Some (0, dst) else None)"

text \<open>The property name after a dollar sign, and the rest; None is an error.\<close>

definition prop_reference :: "nat \<Rightarrow> string \<Rightarrow> (string \<times> string) option" where
  "prop_reference name_max c =
     (if c \<noteq> [] \<and> hd c = CHR ''{'' then
        let prop = take name_max (takeWhile (\<lambda>x. x \<noteq> CHR ''}'') (tl c));
            c = drop (length prop) (tl c)
        in if c = [] \<or> hd c \<noteq> CHR ''}'' then None else Some (prop, tl c)
      else
        let prop = take name_max c; c = drop (length prop) c
        in if length prop = name_max \<and> c \<noteq> [] then None else Some (prop, c))"

lemma prop_reference_length: "prop_reference m c = Some (pn, r) \<Longrightarrow> length r \<le> length c"
  by (cases c) (auto simp: prop_reference_def Let_def split: if_splits)

lemma strchr_tl_length:
  assumes "strchr src x = Some c" and "tl c = d # ds"
  shows "length ds < length src" and "prop_reference m (d # ds) = Some (pn, r) \<Longrightarrow> length r < length src"
proof -
  obtain p where "src = p @ c" using strchr_Some [OF assms(1)] by blast
  then have l: "Suc (length ds) < length src" using assms(2) by (cases c) simp_all
  then show "length ds < length src" by simp
  show "prop_reference m (d # ds) = Some (pn, r) \<Longrightarrow> length r < length src"
    using l prop_reference_length [of m "d # ds" pn r] by simp
qed

function expand_loop ::
  "'p platform \<Rightarrow> 'p init_state \<Rightarrow> nat \<Rightarrow> string \<Rightarrow> int \<Rightarrow> string \<Rightarrow> (int \<times> string) option" where
  "expand_loop P s dst_size dst left src =
     (if src = [] \<or> left \<le> 0 then expand_end dst_size dst
      else case strchr src (CHR ''$'') of
        None \<Rightarrow> expand_end dst_size (dst @ take (nat left) src)
      | Some c \<Rightarrow>
          (case push_chars dst left (take (length src - length c) src) of
             None \<Rightarrow> Some (- 1, dst)
           | Some (dst, left) \<Rightarrow>
               (case tl c of
                  [] \<Rightarrow> expand_end dst_size dst
                | d # ds \<Rightarrow>
                    if d = CHR ''$''
                    then (if length dst < dst_size then expand_loop P s dst_size (dst @ [d]) (left - 1) ds else None)
                    else (case prop_reference (PROP_NAME_MAX P) (d # ds) of
                        None \<Rightarrow> Some (- 1, dst)
                      | Some (prop, r) \<Rightarrow>
                          if prop = [] then Some (- 1, dst)
                          else if property_get P prop s = [] then Some (- 1, dst)
                          else (case push_chars dst left (property_get P prop s) of
                              None \<Rightarrow> Some (- 1, dst)
                            | Some (dst, left) \<Rightarrow> expand_loop P s dst_size dst left r)))))"
  by pat_completeness auto
termination
  by (relation "measure (\<lambda>(P, s, n, dst, left, src). length src)")
    (auto dest: strchr_tl_length)

declare expand_loop.simps [simp del]

definition expand_props :: "'p platform \<Rightarrow> 'p init_state \<Rightarrow> nat \<Rightarrow> string \<Rightarrow> (int \<times> string) option" where
  "expand_props P s dst_size src =
     (if dst_size = 0 then Some (- 1, []) else expand_loop P s dst_size [] (int dst_size - 1) src)"

text \<open>A source without two dollar signs in a row.\<close>

definition no_dollars :: "string \<Rightarrow> bool" where
  "no_dollars src \<longleftrightarrow> (\<forall>xs ys. src \<noteq> xs @ ''$$'' @ ys)"

lemma no_dollars_suffix: "no_dollars (p @ src) \<Longrightarrow> no_dollars src"
  unfolding no_dollars_def by (metis append.assoc)

lemma prop_reference_suffix: "prop_reference m c = Some (pn, r) \<Longrightarrow> \<exists>p. c = p @ r"
proof -
  assume a: "prop_reference m c = Some (pn, r)"
  show ?thesis
  proof (cases "c \<noteq> [] \<and> hd c = CHR ''{''")
    case True
    then obtain d where d: "c = d # tl c" by (cases c) auto
    define q where "q = drop (length pn) (tl c)"
    have "q \<noteq> []" "r = tl q"
      using a True by (auto simp: prop_reference_def Let_def q_def split: if_splits)
    then have "tl c = take (length pn) (tl c) @ [hd q] @ r"
      using append_take_drop_id [of "length pn" "tl c"] by (simp add: q_def)
    then show ?thesis using d by (intro exI [of _ "d # take (length pn) (tl c) @ [hd q]"]) simp
  next
    case False
    then show ?thesis using a append_take_drop_id [of m c]
      by (auto simp: prop_reference_def Let_def split: if_splits)
  qed
qed

lemma expand_loop_safe:
  assumes "no_dollars src" and "int (length dst) + left = int n - 1" and "left \<ge> 0"
  shows "\<exists>r out. expand_loop P s n dst left src = Some (r, out) \<and> (r = 0 \<longrightarrow> length out < n)"
  using assms
proof (induction "length src" arbitrary: dst left src rule: less_induct)
  case (less src dst left)
  note E = expand_loop.simps [of P s n dst left]
  have fin: "length dst < n" using less.prems(2,3) by linarith
  show ?case
  proof (cases "src = [] \<or> left \<le> 0")
    case True
    then show ?thesis using fin by (auto simp: E expand_end_def)
  next
    case go: False
    show ?thesis
    proof (cases "strchr src (CHR ''$'')")
      case None
      have "length (dst @ take (nat left) src) < n" using less.prems(2,3) by (simp add: min_def) linarith
      then show ?thesis using go None by (simp add: E expand_end_def)
    next
      case (Some c)
      obtain p t where pt: "src = p @ c" "c = CHR ''$'' # t" using strchr_Some [OF Some] by blast
      then have pre: "take (length src - length c) src = p" by simp
      show ?thesis
      proof (cases "push_chars dst left p")
        case None
        then show ?thesis using go Some pre by (simp add: E)
      next
        case push: (Some dl)
        obtain dst' left' where dl: "dl = (dst', left')" by (cases dl)
        have l': "int (length dst') + left' = int n - 1" "left' \<ge> 0"
          using push dl less.prems(2) by (auto simp: push_chars_def split: if_splits)
        then have fin': "length dst' < n" by linarith
        show ?thesis
        proof (cases t)
          case Nil
          then show ?thesis using go Some pre push dl pt fin' by (simp add: E expand_end_def)
        next
          case (Cons d ds)
          have nd: "d \<noteq> CHR ''$''" using less.prems(1) pt Cons unfolding no_dollars_def by (auto dest: spec [of _ p])
          show ?thesis
          proof (cases "prop_reference (PROP_NAME_MAX P) (d # ds)")
            case None
            then show ?thesis using go Some pre push dl pt Cons nd by (simp add: E)
          next
            case ref: (Some pr)
            obtain pn r where pr: "pr = (pn, r)" by (cases pr)
            obtain q where q: "d # ds = q @ r" using prop_reference_suffix [OF ref [unfolded pr]] by blast
            have nr: "no_dollars r"
              using less.prems(1) pt Cons q no_dollars_suffix [of "p @ CHR ''$'' # q" r] by simp
            have "\<exists>r' out. expand_loop P s n a b r = Some (r', out) \<and> (r' = 0 \<longrightarrow> length out < n)"
              if "push_chars dst' left' (property_get P pn s) = Some (a, b)" "pn \<noteq> []" "property_get P pn s \<noteq> []" for a b
              using that(1) l' nr pt Cons arg_cong [OF q, of length]
              by (intro less.hyps) (auto simp: push_chars_def split: if_splits)
            then show ?thesis
              using go Some pre push dl pt Cons nd ref pr by (auto simp: E split: option.split)
          qed
        qed
      qed
    qed
  qed
qed



text \<open>
  C32: with \<open>$$\<close> the bound is lost. When the text before it fills the destination up to the
  last byte, the dollar sign takes that byte, and the terminating NUL is written one byte
  past the end.
\<close>

theorem expand_props_overflow:
  assumes "CHR ''$'' \<notin> set w" and "length w = n - 1" and "n > 1"
  shows "expand_props P s n (w @ ''$$'' @ rest) = None"
proof -
  have c: "strchr (w @ ''$$'' @ rest) (CHR ''$'') = Some (''$$'' @ rest)" using strchr_append [OF assms(1)] by simp
  have "expand_loop P s n [] (int n - 1) (w @ ''$$'' @ rest) = expand_loop P s n (w @ ''$'') (- 1) rest"
    using assms(2,3) c by (simp add: expand_loop.simps [of P s n "[]"] push_chars_def)
  also have "\<dots> = None" using assms by (simp add: expand_loop.simps [of P s n _ "- 1"] expand_end_def)
  finally show ?thesis using assms(3) by (simp add: expand_props_def)
qed

theorem expand_props_overflow_witness: "expand_props map_platform empty_init 4 ''abc$$'' = None"
proof -
  have "CHR ''$'' \<notin> set ''abc''" "length ''abc'' = 4 - 1" "(4::nat) > 1" by simp_all
  then show ?thesis using expand_props_overflow [of "''abc''" 4 map_platform empty_init "[]"] by simp
qed

subsection \<open>Property files\<close>

text \<open>The loops that cut trailing blanks keep the first character.\<close>

fun trim_tail :: "string \<Rightarrow> string" where
  "trim_tail [] = []"
| "trim_tail (c # cs) = c # rev (dropWhile isspace (rev cs))"

text \<open>The body of the loop of load_properties: the key and the value of a line.\<close>

definition property_line :: "string \<Rightarrow> (string \<times> string) option" where
  "property_line line =
     (case strchr line (CHR ''='') of
        None \<Rightarrow> None
      | Some r \<Rightarrow>
          let key = dropWhile isspace (take (length line - length r) line); value = tl r in
          if key \<noteq> [] \<and> hd key = CHR ''#'' then None
          else Some (trim_tail key, trim_tail (dropWhile isspace value)))"

lemma strchr_suffix_length: "strchr data c = Some r \<Longrightarrow> length (tl r) < length data"
  using strchr_Some [of data c r] by auto

function load_properties :: "'p platform \<Rightarrow> string \<Rightarrow> 'p init_state \<Rightarrow> 'p init_state" where
  "load_properties P sol s =
     (case strchr sol NEWLINE of
        None \<Rightarrow> s
      | Some eol \<Rightarrow>
          let line = take (length sol - length eol) sol in
          load_properties P (tl eol)
            (case property_line line of None \<Rightarrow> s | Some (key, value) \<Rightarrow> snd (property_set P key value s)))"
  by pat_completeness auto
termination by (relation "measure (\<lambda>(P, sol, s). length sol)") (auto dest: strchr_suffix_length)

declare load_properties.simps [simp del]

definition load_properties_from_file :: "'p platform \<Rightarrow> string \<Rightarrow> 'p init_state \<Rightarrow> 'p init_state" where
  "load_properties_from_file P fn s =
     (let (data, s) = read_file P fn s in
      case data of None \<Rightarrow> s | Some d \<Rightarrow> load_properties P (cstr d) s)"

text \<open>S_IRWXG and S_IRWXO.\<close>

definition group_other_bits :: u32 where "group_other_bits = 0x3F"

text \<open>One entry of the directory of persistent properties.\<close>

definition load_persistent_entry :: "'p platform \<Rightarrow> string \<Rightarrow> 'p init_state \<Rightarrow> 'p init_state" where
  "load_persistent_entry P name s =
     (if strncmp ''persist.'' name 8 then s
      else
        let (fd, s) = sys (\<lambda>n. sys_open P n (persistent_path name)) s in
        if fd < 0 then ERROR ''Unable to open persistent property file'' s
        else let (st, s) = sys (\<lambda>n. sys_fstat P n (persistent_path name)) s in
          case st of
            None \<Rightarrow> ERROR ''fstat on property file failed'' s
          | Some (mode, u, g, nlink) \<Rightarrow>
              if mode AND group_other_bits \<noteq> 0 \<or> u \<noteq> 0 \<or> g \<noteq> 0 \<or> nlink \<noteq> 1
              then ERROR ''skipping insecure property file'' s
              else let (r, s) = sys (\<lambda>n. sys_read P n (persistent_path name)) s in
                case r of
                  None \<Rightarrow> ERROR ''Unable to read persistent property file'' s
                | Some (_, data) \<Rightarrow> snd (property_set P name (cstr (take (PROP_VALUE_MAX P - 1) data)) s))"

fun load_persistent_loop :: "'p platform \<Rightarrow> string list \<Rightarrow> 'p init_state \<Rightarrow> 'p init_state" where
  "load_persistent_loop P [] s = s"
| "load_persistent_loop P (name # names) s = load_persistent_loop P names (load_persistent_entry P name s)"

definition load_persistent_properties :: "'p platform \<Rightarrow> 'p init_state \<Rightarrow> 'p init_state" where
  "load_persistent_properties P s =
     (let (dir, s) = sys (\<lambda>n. sys_readdir P n ''/data/property'') s;
          s = (case dir of None \<Rightarrow> ERROR ''Unable to open persistent property directory'' s
               | Some names \<Rightarrow> load_persistent_loop P names s)
      in s\<lparr>persistent_properties_loaded := True\<rparr>)"

text \<open>The local override file is not read: ALLOW_LOCAL_PROP_OVERRIDE is not defined.\<close>

definition load_override_properties :: "'p init_state \<Rightarrow> 'p init_state" where
  "load_override_properties s = s"

definition load_persist_props :: "'p platform \<Rightarrow> 'p init_state \<Rightarrow> 'p init_state" where
  "load_persist_props P s = load_persistent_properties P (load_override_properties s)"

definition property_load_boot_defaults :: "'p platform \<Rightarrow> 'p init_state \<Rightarrow> 'p init_state" where
  "property_load_boot_defaults P s = load_properties_from_file P (PROP_PATH_RAMDISK_DEFAULT P) s"

definition start_property_service :: "'p platform \<Rightarrow> 'p init_state \<Rightarrow> 'p init_state" where
  "start_property_service P s =
     (let s = load_properties_from_file P (PROP_PATH_SYSTEM_BUILD P) s;
          s = load_properties_from_file P (PROP_PATH_SYSTEM_DEFAULT P) s;
          s = load_override_properties s;
          s = load_persistent_properties P s;
          (fd, s) = create_socket P (PROP_SERVICE_NAME P) SOCK_STREAM 0x1B6 0 0 s
      in if fd < 0 then s
         else
           let s = snd (syscall P ''fcntl'' [Num fd, Str ''FD_CLOEXEC''] s);
               s = snd (syscall P ''fcntl'' [Num fd, Str ''O_NONBLOCK''] s);
               s = snd (syscall P ''listen'' [Num fd, Num 8] s)
           in s\<lparr>property_set_fd := fd\<rparr>)"

subsection \<open>The kernel command line\<close>

definition import_kernel_nv :: "'p platform \<Rightarrow> string \<Rightarrow> bool \<Rightarrow> 'p init_state \<Rightarrow> 'p init_state" where
  "import_kernel_nv P nv for_emulator s =
     (case strchr nv (CHR ''='') of
        None \<Rightarrow> s
      | Some r \<Rightarrow>
          let name_len = length nv; name = take (length nv - length r) nv; value = tl r in
          if name_len = 0 then s
          else if for_emulator then
            (if length (''ro.kernel.'' @ name) < PROP_NAME_MAX P
             then snd (property_set P (''ro.kernel.'' @ name) value s) else s)
          else if \<not> strcmp name ''qemu'' then s\<lparr>qemu := take 31 value\<rparr>
          else if \<not> strncmp name ''androidboot.'' 12 \<and> name_len > 12 then
            (if length (''ro.boot.'' @ drop 12 name) < PROP_NAME_MAX P
             then snd (property_set P (''ro.boot.'' @ drop 12 name) value s) else s)
          else s)"

function cmdline_loop :: "(string \<Rightarrow> 'p init_state \<Rightarrow> 'p init_state) \<Rightarrow> string \<Rightarrow> 'p init_state \<Rightarrow> 'p init_state" where
  "cmdline_loop f p s =
     (if p = [] then s
      else case strchr p (CHR '' '') of
        None \<Rightarrow> f p s
      | Some x \<Rightarrow> cmdline_loop f (tl x) (f (take (length p - length x) p) s))"
  by pat_completeness auto
termination by (relation "measure (\<lambda>(f, p, s). length p)") (auto dest: strchr_suffix_length)

declare cmdline_loop.simps [simp del]

definition chop_newline :: "string \<Rightarrow> string" where
  "chop_newline d = (if d \<noteq> [] \<and> last d = NEWLINE then butlast d else d)"

definition import_kernel_cmdline :: "'p platform \<Rightarrow> bool \<Rightarrow> 'p init_state \<Rightarrow> 'p init_state" where
  "import_kernel_cmdline P in_qemu s =
     (let (r, s) = sys (\<lambda>n. sys_read P n ''/proc/cmdline'') s;
          cmdline = (case r of None \<Rightarrow> [] | Some (_, d) \<Rightarrow> cstr (chop_newline (take 1023 d)))
      in cmdline_loop (\<lambda>nv. import_kernel_nv P nv in_qemu) cmdline s)"

text \<open>The rows of prop_map: source, destination, default.\<close>

definition prop_map :: "(string \<times> string \<times> string) list" where
  "prop_map = [(''ro.boot.serialno'', ''ro.serialno'', []), (''ro.boot.mode'', ''ro.bootmode'', ''unknown''),
     (''ro.boot.baseband'', ''ro.baseband'', ''unknown''), (''ro.boot.bootloader'', ''ro.bootloader'', ''unknown'')]"

fun export_loop :: "'p platform \<Rightarrow> (string \<times> string \<times> string) list \<Rightarrow> 'p init_state \<Rightarrow> 'p init_state" where
  "export_loop P [] s = s"
| "export_loop P ((src, dest, def) # rows) s =
     export_loop P rows
       (let tmp = property_get P src s in
        if tmp \<noteq> [] then snd (property_set P dest tmp s) else snd (property_set P dest def s))"

text \<open>The variables init keeps for itself.\<close>

definition export_vars :: "'p platform \<Rightarrow> 'p init_state \<Rightarrow> 'p init_state" where
  "export_vars P s =
     (let tmp = property_get P ''ro.boot.console'' s;
          s = (if tmp \<noteq> [] then s\<lparr>console := take 31 tmp\<rparr> else s);
          s = s\<lparr>bootmode := take 31 (property_get P ''ro.bootmode'' s)\<rparr>;
          tmp = property_get P ''ro.boot.hardware'' s
      in if tmp \<noteq> [] then s\<lparr>hardware := take 31 tmp\<rparr> else s)"

definition export_kernel_boot_props :: "'p platform \<Rightarrow> 'p init_state \<Rightarrow> 'p init_state" where
  "export_kernel_boot_props P s =
     (let s = export_loop P prop_map s;
          s = export_vars P s;
          s = snd (property_set P ''ro.hardware'' (hardware s) s);
          s = snd (property_set P ''ro.revision'' (take (PROP_VALUE_MAX P - 1) (dec_int (sint (revision s)))) s)
      in if \<not> strcmp (bootmode s) ''factory'' then snd (property_set P ''ro.factorytest'' ''1'' s)
         else if \<not> strcmp (bootmode s) ''factory2'' then snd (property_set P ''ro.factorytest'' ''2'' s)
         else snd (property_set P ''ro.factorytest'' ''0'' s))"

definition process_kernel_cmdline :: "'p platform \<Rightarrow> 'p init_state \<Rightarrow> 'p init_state" where
  "process_kernel_cmdline P s =
     (let s = emit (Syscall ''chmod'' [Str ''/proc/cmdline'', Num 0x120]) s;
          s = import_kernel_cmdline P False s;
          s = (if qemu s \<noteq> [] then import_kernel_cmdline P True s else s)
      in export_kernel_boot_props P s)"

text \<open>The name of the hardware, from /proc/cpuinfo: lower case and without blanks.\<close>

fun hardware_chars :: "nat \<Rightarrow> string \<Rightarrow> string" where
  "hardware_chars n [] = []"
| "hardware_chars n (c # cs) =
     (if c = NEWLINE then []
      else if isspace c then (if n = 31 then [] else hardware_chars n cs)
      else tolower c # (if Suc n = 31 then [] else hardware_chars (Suc n) cs))"

definition get_hardware_name :: "'p platform \<Rightarrow> 'p init_state \<Rightarrow> 'p init_state" where
  "get_hardware_name P s =
     (if hardware s \<noteq> [] then s
      else
        let (r, s) = sys (\<lambda>n. sys_read P n ''/proc/cpuinfo'') s in
        case r of None \<Rightarrow> s
        | Some (_, d) \<Rightarrow>
            let data = cstr (take 1023 d);
                s = (case strstr data (NEWLINE # ''Hardware'') of None \<Rightarrow> s
                     | Some hw \<Rightarrow> (case strstr hw '': '' of None \<Rightarrow> s
                         | Some x \<Rightarrow> s\<lparr>hardware := hardware_chars 0 (drop 2 x)\<rparr>))
            in case strstr data (NEWLINE # ''Revision'') of None \<Rightarrow> s
               | Some rv \<Rightarrow> (case strstr rv '': '' of None \<Rightarrow> s
                   | Some x \<Rightarrow> s\<lparr>revision := strtoul (drop 2 x) 16\<rparr>))"

definition selinux_is_enforcing :: "'p platform \<Rightarrow> 'p init_state \<Rightarrow> bool \<times> 'p init_state" where
  "selinux_is_enforcing P s =
     (let tmp = property_get P ''ro.boot.selinux'' s in
      if tmp = [] then (True, s)
      else if \<not> strcmp tmp ''permissive'' then (False, s)
      else if strcmp tmp ''enforcing'' then (True, ERROR ''SELinux: Unknown value of ro.boot.selinux'' s)
      else (True, s))"

subsection \<open>Reading back a property file\<close>

text \<open>Keys and values that a property file can hold as they are.\<close>

definition trimmed :: "string \<Rightarrow> bool" where
  "trimmed v \<longleftrightarrow> (v \<noteq> [] \<longrightarrow> \<not> isspace (hd v) \<and> \<not> isspace (last v)) \<and> NEWLINE \<notin> set v"

definition clean_key :: "string \<Rightarrow> bool" where
  "clean_key k \<longleftrightarrow> trimmed k \<and> k \<noteq> [] \<and> hd k \<noteq> CHR ''#'' \<and> CHR ''='' \<notin> set k"

definition property_file :: "(string \<times> string) list \<Rightarrow> string" where
  "property_file kvs = concat (map (\<lambda>(k, v). k @ ''='' @ v @ [NEWLINE]) kvs)"

lemma dropWhile_trimmed: "trimmed v \<Longrightarrow> dropWhile isspace v = v"
  by (cases v) (auto simp: trimmed_def)

lemma trim_tail_trimmed:
  assumes "trimmed v"
  shows "trim_tail v = v"
proof (cases v)
  case (Cons c cs)
  have "dropWhile isspace (rev cs) = rev cs"
    using assms Cons by (cases cs rule: rev_cases) (auto simp: trimmed_def)
  then show ?thesis using Cons by simp
qed simp

lemma property_line_clean:
  assumes "clean_key k" and "trimmed v"
  shows "property_line (k @ CHR ''='' # v) = Some (k, v)"
proof -
  have k: "trimmed k" "k \<noteq> []" "hd k \<noteq> CHR ''#''" "CHR ''='' \<notin> set k" using assms(1) by (simp_all add: clean_key_def)
  have "strchr (k @ CHR ''='' # v) (CHR ''='') = Some (CHR ''='' # v)" using k(4) by (rule strchr_append)
  then show ?thesis
    using k assms(2) by (simp add: property_line_def dropWhile_trimmed trim_tail_trimmed)
qed

lemma load_properties_line:
  assumes "NEWLINE \<notin> set line"
  shows "load_properties P (line @ NEWLINE # r) s = load_properties P r
    (case property_line line of None \<Rightarrow> s | Some (key, value) \<Rightarrow> snd (property_set P key value s))"
  using strchr_append [OF assms, of r] by (simp add: load_properties.simps [of P "line @ NEWLINE # r"])

text \<open>
  C33: loading a property file that was written as one line key=value per property sets
  exactly these properties, in order.
\<close>

theorem load_properties_roundtrip:
  assumes "\<forall>(k, v)\<in>set kvs. clean_key k \<and> trimmed v"
  shows "load_properties P (property_file kvs) s = fold (\<lambda>(k, v) s. snd (property_set P k v s)) kvs s"
  using assms
proof (induction kvs arbitrary: s)
  case Nil
  show ?case by (simp add: property_file_def load_properties.simps)
next
  case (Cons kv kvs)
  obtain k v where kv: "kv = (k, v)" by (cases kv)
  then have c: "clean_key k" "trimmed v" using Cons.prems by auto
  have "property_file (kv # kvs) = (k @ CHR ''='' # v) @ NEWLINE # property_file kvs"
    by (simp add: property_file_def kv)
  moreover have "NEWLINE \<notin> set (k @ CHR ''='' # v)"
    using c by (auto simp: clean_key_def trimmed_def NEWLINE_def)
  ultimately show ?case
    using load_properties_line [of "k @ CHR ''='' # v" P] property_line_clean [OF c] Cons.IH Cons.prems kv by simp
qed

theorem load_properties_roundtrip_witness:
  "load_properties map_platform (property_file [(''ro.a'', ''1''), (''ro.b'', ''x=y'')]) empty_init =
     snd (property_set map_platform ''ro.b'' ''x=y'' (snd (property_set map_platform ''ro.a'' ''1'' empty_init)))"
proof -
  have "\<forall>(k, v)\<in>set [(''ro.a'', ''1''), (''ro.b'', ''x=y'')]. clean_key k \<and> trimmed v"
    by (simp add: clean_key_def trimmed_def isspace_def code_def NEWLINE_def)
  then show ?thesis by (simp add: load_properties_roundtrip)
qed

subsection \<open>Persistent properties\<close>

text \<open>A file that may hold a persistent property: accessible to root only, with one link,
  whatever the moment of the system call.\<close>

definition secure_file :: "'p platform \<Rightarrow> string \<Rightarrow> bool" where
  "secure_file P name \<longleftrightarrow> (\<exists>n mode. sys_fstat P n (persistent_path name) = Some (mode, 0, 0, 1) \<and>
     mode AND group_other_bits = 0)"

lemma persist_not_net: "\<not> strncmp ''persist.'' n 8 \<Longrightarrow> \<not> stores_change n"
proof -
  assume "\<not> strncmp ''persist.'' n 8"
  then have "take 8 n = ''persist.''" by (simp add: strncmp_def)
  moreover have "take 4 n = take 4 (take 8 n)" by simp
  ultimately have "take 4 n = ''pers''" by simp
  then show ?thesis by (simp add: stores_change_def net_prefix_def strncmp_def)
qed

lemma load_persistent_entry_cases:
  "props (load_persistent_entry P name s) = props s \<or>
     (secure_file P name \<and> \<not> strncmp ''persist.'' name 8 \<and>
      (\<exists>v s'. props s' = props s \<and> props (load_persistent_entry P name s) = props (snd (property_set P name v s'))))"
proof -
  let ?f = "\<lambda>n. sys_fstat P n (persistent_path name)" and ?r = "\<lambda>n. sys_read P n (persistent_path name)"
  define s3 where "s3 = s\<lparr>nsys := Suc (Suc (Suc (nsys s)))\<rparr>"
  let ?v = "\<lambda>d. cstr (take (PROP_VALUE_MAX P - 1) d)"
  consider "strncmp ''persist.'' name 8" | "sys_open P (nsys s) (persistent_path name) < 0"
    | "?f (Suc (nsys s)) = None"
    | mode u g l where "?f (Suc (nsys s)) = Some (mode, u, g, l)" "mode AND group_other_bits \<noteq> 0 \<or> u \<noteq> 0 \<or> g \<noteq> 0 \<or> l \<noteq> 1"
    | mode where "\<not> strncmp ''persist.'' name 8" "\<not> sys_open P (nsys s) (persistent_path name) < 0"
        "?f (Suc (nsys s)) = Some (mode, 0, 0, 1)" "mode AND group_other_bits = 0"
    by (cases "?f (Suc (nsys s))") (auto, blast)
  then show ?thesis
  proof cases
    case (5 mode)
    have sec: "secure_file P name" using 5(3,4) by (auto simp: secure_file_def)
    show ?thesis
    proof (cases "?r (Suc (Suc (nsys s)))")
      case None
      then show ?thesis using 5 by (simp add: load_persistent_entry_def sys_def)
    next
      case (Some md)
      obtain d where d: "md = (fst md, d)" by (cases md) auto
      have "load_persistent_entry P name s = snd (property_set P name (?v d) s3)"
        using 5 Some d by (auto simp: load_persistent_entry_def sys_def s3_def split: prod.split)
      moreover have "props s3 = props s" by (simp add: s3_def)
      ultimately show ?thesis using sec 5(1) by metis
    qed
  qed (simp_all add: load_persistent_entry_def sys_def)
qed

lemma load_persistent_entry_find:
  assumes "prop_area_ok P" and "m \<noteq> name \<or> strncmp ''persist.'' name 8 \<or> \<not> secure_file P name"
  shows "system_property_find P (props (load_persistent_entry P name s)) m = system_property_find P (props s) m"
  using load_persistent_entry_cases [of P name s]
proof (elim disjE conjE exE)
  fix v s' assume "secure_file P name" "\<not> strncmp ''persist.'' name 8" "props s' = props s"
    "props (load_persistent_entry P name s) = props (snd (property_set P name v s'))"
  then show ?thesis
    using assms property_set_find [OF assms(1), of name v s' m] persist_not_net [of name] by auto
qed simp


text \<open>A data partition with a file of mode 0600 and one that everybody can write.\<close>

definition persist_platform :: "(string \<Rightarrow> string option) platform" where
  "persist_platform = map_platform\<lparr>
     sys_readdir := (\<lambda>_ _. Some [''persist.x'', ''persist.y'']),
     sys_fstat := (\<lambda>_ f. if f = persistent_path ''persist.x'' then Some (0x180, 0, 0, 1) else Some (0x1B6, 0, 0, 1)),
     sys_read := (\<lambda>_ _. Some (0, ''1''))\<rparr>"


subsection \<open>Exporting the boot parameters\<close>

lemma export_loop_ro:
  assumes "prop_area_ok P" and "n = ''ro.'' @ x" and "system_property_find P (props s) n = Some v"
  shows "system_property_find P (props (export_loop P rows s)) n = Some v"
  using assms(3)
proof (induction rows arbitrary: s)
  case (Cons row rows)
  obtain src dest d where row: "row = (src, dest, d)" by (cases row)
  show ?case
    using Cons.IH property_set_ro [OF assms(1,2) Cons.prems] by (simp add: row Let_def)
qed simp

lemma property_set_new:
  assumes "prop_area_ok P" and "system_property_find P (props s) n = None" and "is_legal_property_name P n"
    and "length v < PROP_VALUE_MAX P" and "\<And>p n v. fst (system_property_add P p n v) \<ge> 0"
  shows "system_property_find P (props (snd (property_set P n v s))) n = Some v"
proof -
  have "\<not> fst (system_property_add P (props s) n v) < 0" using assms(5) by (simp add: not_less)
  then show ?thesis
    using property_set_find [OF assms(1), of n v s n] assms(2-4) by (simp add: store_property_def Let_def case_prod_unfold)
qed

lemma export_loop_row:
  assumes ok: "prop_area_ok P" and room: "\<And>p n v. fst (system_property_add P p n v) \<ge> 0"
    and row: "(src, dest, d) \<in> set rows" "distinct (map (fst \<circ> snd) rows)" "src \<notin> fst ` snd ` set rows"
      "src \<noteq> ''net.change''" "dest \<noteq> ''net.change''" "dest = ''ro.'' @ x"
    and new: "system_property_find P (props s) dest = None" "is_legal_property_name P dest"
    and w: "w = (if property_get P src s \<noteq> [] then property_get P src s else d)" "length w < PROP_VALUE_MAX P"
  shows "system_property_find P (props (export_loop P rows s)) dest = Some w"
  using row(1-3) new(1) w(1)
proof (induction rows arbitrary: s)
  case (Cons r rows)
  obtain src' dest' d' where r: "r = (src', dest', d')" by (cases r)
  define s' where "s' = snd (property_set P dest' (if property_get P src' s \<noteq> [] then property_get P src' s else d') s)"
  have e: "export_loop P (r # rows) s = export_loop P rows s'" by (simp add: r s'_def Let_def)
  show ?case
  proof (cases "(src, dest, d) = r")
    case True
    then have "system_property_find P (props s') dest = Some w"
      using property_set_new [OF ok Cons.prems(4) new(2) w(2) room] Cons.prems(5) r by (simp add: s'_def split: if_splits)
    then show ?thesis using export_loop_ro [OF ok row(6)] e by simp
  next
    case False
    then have m: "(src, dest, d) \<in> set rows" using Cons.prems(1) by simp
    then have ne: "dest \<noteq> dest'" "src \<noteq> dest'" using Cons.prems(2,3) r by (force, force)
    have "system_property_find P (props s') n = system_property_find P (props s) n" if "n \<noteq> dest'" "n \<noteq> ''net.change''" for n
      using property_set_find [OF ok] that by (simp add: s'_def)
    then have "system_property_find P (props s') dest = None" "property_get P src s' = property_get P src s"
      using ne row(4,5) Cons.prems(4) by (simp_all add: property_get_def)
    then show ?thesis using Cons.IH [of s'] m Cons.prems e by simp
  qed
qed simp



end
