(* ===== verification/Init_Parser.thy ===== *)
theory Init_Parser
  imports Init_Tokenizer Init_Load
begin

text \<open>
  The parser of rc files, \<^verbatim>\<open>init/init/init_parser.c\<close>: sections, the options of services,
  the commands of actions, imports. Its input is read with the tokenizer on strings, which
  the tokenizer of the code implements (theory Init_Tokenizer).

  The array of arguments lives as long as parse_config: a pointer that was not written for
  the current line still points to an argument of an earlier one. It is a list of 64
  entries, None before the first write. A function that reads such an entry stops the
  model with None.
\<close>

type_synonym args = "string option list"

text \<open>The pair of state.parse_line and state.context.\<close>

datatype line_parser = No_op | Service_section nat | Action_section nat

record parser =
  scan :: scan_state
  line_fn :: line_parser
  nargs :: nat
  args :: args
  import_list :: "string list"

definition parse_error :: "string \<Rightarrow> 'p init_state \<Rightarrow> 'p init_state" where
  "parse_error msg = ERROR msg"

subsection \<open>Services\<close>

fun valid_chars :: "string \<Rightarrow> bool" where
  "valid_chars [] = True"
| "valid_chars (c # cs) = (if \<not> isalnum c \<and> c \<noteq> CHR ''_'' \<and> c \<noteq> CHR ''-'' then False else valid_chars cs)"

definition valid_name :: "string \<Rightarrow> bool" where
  "valid_name name = (if length name > 16 then False else valid_chars name)"

definition parse_service :: "nat \<Rightarrow> args \<Rightarrow> 'p init_state \<Rightarrow> (nat option \<times> 'p init_state) option" where
  "parse_service n a s = do {
     v \<leftarrow> those (take n a);
     Some (
       if n < 3 then (None, parse_error ''services must have a name and a program'' s)
       else if \<not> valid_name (v ! 1) then (None, parse_error ''invalid service name'' s)
       else if service_find_by_name (v ! 1) s \<noteq> None
       then (None, parse_error ''ignored duplicate definition of service'' s)
       else
         (Some (length (service_list s)),
          s\<lparr>service_list := service_list s @
              [zero_service\<lparr>svc_name := v ! 1, classname := ''default'', svc_args := drop 2 v\<rparr>]\<rparr>)) }"

text \<open>The command of an onrestart line or of an action: \<open>v\<close> are the arguments, the keyword
  first.\<close>

definition make_command :: "keyword \<Rightarrow> string list \<Rightarrow> command" where
  "make_command kw v = \<lparr>cmd_func = the (kw_func kw), cmd_nargs = length v, cmd_args = v\<rparr>"

definition ioprio_of :: "string \<Rightarrow> IoSchedClass option" where
  "ioprio_of c = (if \<not> strcmp c ''rt'' then Some IoSchedClass_RT else if \<not> strcmp c ''be'' then Some IoSchedClass_BE
     else if \<not> strcmp c ''idle'' then Some IoSchedClass_IDLE else None)"

definition option_ioprio :: "nat \<Rightarrow> string list \<Rightarrow> nat \<Rightarrow> 'p init_state \<Rightarrow> 'p init_state" where
  "option_ioprio n v i s =
     (if n \<noteq> 3 then parse_error ''ioprio optin usage: ioprio <rt|be|idle> <ioprio 0-7>'' s
      else
        let pri = sint (strtoul (v ! 2) 8);
            s = upd_svc i (\<lambda>x. x\<lparr>ioprio_pri := pri\<rparr>) s
        in if pri < 0 \<or> pri > 7 then parse_error ''priority value must be range 0 - 7'' s
           else case ioprio_of (v ! 1) of
               None \<Rightarrow> parse_error ''ioprio option usage: ioprio <rt|be|idle> <0-7>'' s
             | Some c \<Rightarrow> upd_svc i (\<lambda>x. x\<lparr>ioprio_class := c\<rparr>) s)"

definition option_group :: "'p platform \<Rightarrow> nat \<Rightarrow> string list \<Rightarrow> nat \<Rightarrow> 'p init_state \<Rightarrow> 'p init_state" where
  "option_group P n v i s =
     (if n < 2 then parse_error ''group option requires a group id'' s
      else if n > NR_SVC_SUPP_GIDS + 2 then parse_error ''group option accepts at most 12 supp. groups'' s
      else upd_svc i (\<lambda>x. x\<lparr>gid := decode_uid P (v ! 1), supp_gids := map (decode_uid P) (drop 2 v)\<rparr>) s)"

definition option_keycodes :: "nat \<Rightarrow> string list \<Rightarrow> nat \<Rightarrow> 'p init_state \<Rightarrow> 'p init_state" where
  "option_keycodes n v i s =
     (if n < 2 then parse_error ''keycodes option requires atleast one keycode'' s
      else upd_svc i (\<lambda>x. x\<lparr>keycodes := Some (map atoi (tl v))\<rparr>) s)"

text \<open>An onrestart line of one word reads the next, stale entry of the array.\<close>

definition option_onrestart :: "nat \<Rightarrow> args \<Rightarrow> nat \<Rightarrow> 'p init_state \<Rightarrow> 'p init_state option" where
  "option_onrestart n a i s = do {
     a0 \<leftarrow> (if 1 < length a then a ! 1 else None);
     v \<leftarrow> those (take (n - 1) (drop 1 a));
     let kw = lookup_keyword a0;
     Some (
       if \<not> kw_is kw COMMAND then parse_error ''invalid command'' s
       else if n - 1 < kw_nargs kw then parse_error ''command requires arguments'' s
       else upd_svc i (\<lambda>x. x\<lparr>onrestart := onrestart x @ [make_command kw v]\<rparr>) s) }"

text \<open>A setenv line without a value takes the stale entry after its own.\<close>

definition option_setenv :: "nat \<Rightarrow> args \<Rightarrow> nat \<Rightarrow> 'p init_state \<Rightarrow> 'p init_state option" where
  "option_setenv n a i s =
     (if n < 2 then Some (parse_error ''setenv option requires name and value arguments'' s)
      else do {
        name \<leftarrow> (if 1 < length a then a ! 1 else None);
        val \<leftarrow> (if 2 < length a then a ! 2 else None);
        Some (upd_svc i (\<lambda>x. x\<lparr>envvars := (name, val) # envvars x\<rparr>) s) })"

definition option_socket :: "'p platform \<Rightarrow> nat \<Rightarrow> string list \<Rightarrow> nat \<Rightarrow> 'p init_state \<Rightarrow> 'p init_state" where
  "option_socket P n v i s =
     (if n < 4 then parse_error ''socket option requires name, type, perm arguments'' s
      else if strcmp (v ! 2) ''dgram'' \<and> strcmp (v ! 2) ''stream'' \<and> strcmp (v ! 2) ''seqpacket''
      then parse_error ''socket type must be dgram, stream or seqpacket'' s
      else
        let si = \<lparr>si_name = v ! 1, si_type = v ! 2, si_perm = strtoul (v ! 3) 8,
                  si_uid = (if n > 4 then decode_uid P (v ! 4) else 0),
                  si_gid = (if n > 5 then decode_uid P (v ! 5) else 0)\<rparr>
        in upd_svc i (\<lambda>x. x\<lparr>sockets := si # sockets x\<rparr>) s)"

definition parse_line_service :: "'p platform \<Rightarrow> nat \<Rightarrow> nat \<Rightarrow> args \<Rightarrow> 'p init_state \<Rightarrow> 'p init_state option" where
  "parse_line_service P i n a s =
     (if n = 0 then Some s
      else do {
        v \<leftarrow> those (take n a);
        let s = upd_svc i (\<lambda>x. x\<lparr>ioprio_class := IoSchedClass_NONE\<rparr>) s;
        let kw = lookup_keyword (v ! 0);
        if kw = K_capability then Some s
        else if kw = K_class then
          Some (if n \<noteq> 2 then parse_error ''class option requires a classname'' s
                else upd_svc i (\<lambda>x. x\<lparr>classname := v ! 1\<rparr>) s)
        else if kw = K_console then Some (upd_svc i (set_flags SVC_CONSOLE) s)
        else if kw = K_disabled then Some (upd_svc i (set_flags SVC_RC_DISABLED) (upd_svc i (set_flags SVC_DISABLED) s))
        else if kw = K_ioprio then Some (option_ioprio n v i s)
        else if kw = K_group then Some (option_group P n v i s)
        else if kw = K_keycodes then Some (option_keycodes n v i s)
        else if kw = K_oneshot then Some (upd_svc i (set_flags SVC_ONESHOT) s)
        else if kw = K_onrestart then option_onrestart n a i s
        else if kw = K_critical then Some (upd_svc i (set_flags SVC_CRITICAL) s)
        else if kw = K_setenv then option_setenv n a i s
        else if kw = K_socket then Some (option_socket P n v i s)
        else if kw = K_user then
          Some (if n \<noteq> 2 then parse_error ''user option requires a user id'' s
                else upd_svc i (\<lambda>x. x\<lparr>uid := decode_uid P (v ! 1)\<rparr>) s)
        else if kw = K_seclabel then
          Some (if n \<noteq> 2 then parse_error ''seclabel option requires a label string'' s
                else upd_svc i (\<lambda>x. x\<lparr>seclabel := Some (v ! 1)\<rparr>) s)
        else Some (parse_error ''invalid option'' s) })"

subsection \<open>Actions\<close>

definition parse_action :: "nat \<Rightarrow> args \<Rightarrow> 'p init_state \<Rightarrow> (nat option \<times> 'p init_state) option" where
  "parse_action n a s = do {
     v \<leftarrow> those (take n a);
     Some (
       if n < 2 then (None, parse_error ''actions must have a trigger'' s)
       else if n > 2 then (None, parse_error ''actions may not have extra parameters'' s)
       else (Some (length (action_list s)),
             s\<lparr>action_list := action_list s @ [\<lparr>act_name = v ! 1, commands = []\<rparr>]\<rparr>)) }"

definition upd_action :: "nat \<Rightarrow> (action \<Rightarrow> action) \<Rightarrow> 'p init_state \<Rightarrow> 'p init_state" where
  "upd_action i f s = s\<lparr>action_list := (action_list s)[i := f (action_list s ! i)]\<rparr>"

definition parse_line_action :: "nat \<Rightarrow> nat \<Rightarrow> args \<Rightarrow> 'p init_state \<Rightarrow> 'p init_state option" where
  "parse_line_action i n a s =
     (if n = 0 then Some s
      else do {
        v \<leftarrow> those (take n a);
        let kw = lookup_keyword (v ! 0);
        Some (
          if \<not> kw_is kw COMMAND then parse_error ''invalid command'' s
          else if n < kw_nargs kw then parse_error ''command requires arguments'' s
          else upd_action i (\<lambda>x. x\<lparr>commands := commands x @ [make_command kw v]\<rparr>) s) })"

subsection \<open>Sections and files\<close>

definition PATH_MAX :: nat where "PATH_MAX = 4096"

definition parse_import ::
  "'p platform \<Rightarrow> nat \<Rightarrow> args \<Rightarrow> string list \<Rightarrow> 'p init_state \<Rightarrow> (string list \<times> 'p init_state) option" where
  "parse_import P n a imports s =
     (if n \<noteq> 2 then Some (imports, ERROR ''single argument needed for import'' s)
      else do {
        v \<leftarrow> those (take n a);
        (ret, conf_file) \<leftarrow> expand_props P s PATH_MAX (v ! 1);
        Some (if ret \<noteq> 0 then (imports, ERROR ''error while handling import'' s)
              else (imports @ [conf_file], s)) })"

definition parse_line :: "'p platform \<Rightarrow> line_parser \<Rightarrow> nat \<Rightarrow> args \<Rightarrow> 'p init_state \<Rightarrow> 'p init_state option" where
  "parse_line P sec n a s =
     (case sec of No_op \<Rightarrow> Some s
      | Service_section i \<Rightarrow> parse_line_service P i n a s
      | Action_section i \<Rightarrow> parse_line_action i n a s)"

definition parse_new_section ::
  "'p platform \<Rightarrow> keyword \<Rightarrow> parser \<Rightarrow> 'p init_state \<Rightarrow> (parser \<times> 'p init_state) option" where
  "parse_new_section P kw p s =
     (if kw = K_service then do {
        (i, s) \<leftarrow> parse_service (nargs p) (args p) s;
        Some (p\<lparr>line_fn := (case i of None \<Rightarrow> No_op | Some i \<Rightarrow> Service_section i)\<rparr>, s) }
      else if kw = K_on then do {
        (i, s) \<leftarrow> parse_action (nargs p) (args p) s;
        Some (p\<lparr>line_fn := (case i of None \<Rightarrow> No_op | Some i \<Rightarrow> Action_section i)\<rparr>, s) }
      else if kw = K_import then do {
        (imports, s) \<leftarrow> parse_import P (nargs p) (args p) (import_list p) s;
        Some (p\<lparr>line_fn := No_op, import_list := imports\<rparr>, s) }
      else Some (p\<lparr>line_fn := No_op\<rparr>, s))"

text \<open>The handling of a line, at its end.\<close>

definition end_of_line :: "'p platform \<Rightarrow> parser \<Rightarrow> 'p init_state \<Rightarrow> (parser \<times> 'p init_state) option" where
  "end_of_line P p s =
     (if nargs p = 0 then Some (p, s)
      else do {
        a0 \<leftarrow> (if 0 < length (args p) then args p ! 0 else None);
        let kw = lookup_keyword a0;
        (p, s) \<leftarrow> (if kw_is kw SECTION then do {
                     s \<leftarrow> parse_line P (line_fn p) 0 [] s;
                     parse_new_section P kw p s }
                   else do {
                     s \<leftarrow> parse_line P (line_fn p) (nargs p) (args p) s;
                     Some (p, s) });
        Some (p\<lparr>nargs := 0\<rparr>, s) })"

lemma scan_end_of_line:
  assumes "end_of_line P p s = Some (p', s')"
  shows "scan p' = scan p"
proof -
  have "parse_new_section P kw p s = Some (q, t) \<Longrightarrow> scan q = scan p" for kw s q t
    by (auto simp: parse_new_section_def split: if_splits bind_splits)
  then show ?thesis using assms by (auto simp: end_of_line_def Let_def split: if_splits bind_splits)
qed

lemma scan_size_line [simp]: "scan_size (sc\<lparr>scan_line := l\<rparr>) = scan_size sc"
  by (simp add: scan_size_def)

text \<open>The loop of parse_config.\<close>

function parse_loop :: "'p platform \<Rightarrow> parser \<Rightarrow> 'p init_state \<Rightarrow> (parser \<times> 'p init_state) option" where
  "parse_loop P p s =
     (case scan_token (scan p) of
        (T_EOF, _, sc) \<Rightarrow> do {
          s \<leftarrow> parse_line P (line_fn p) 0 [] s;
          Some (p\<lparr>scan := sc\<rparr>, s) }
      | (T_NEWLINE, _, sc) \<Rightarrow>
          (case end_of_line P (p\<lparr>scan := sc\<lparr>scan_line := scan_line sc + 1\<rparr>\<rparr>) s of
             None \<Rightarrow> None
           | Some (p, s) \<Rightarrow> parse_loop P p s)
      | (T_TEXT, txt, sc) \<Rightarrow>
          parse_loop P
            ((if nargs p < INIT_PARSER_MAXARGS
              then p\<lparr>args := (args p)[nargs p := Some txt], nargs := nargs p + 1\<rparr> else p)\<lparr>scan := sc\<rparr>) s)"
  by pat_completeness auto
termination
  by (relation "measure (\<lambda>(P, p, s). scan_size (scan p))")
    (auto simp: scan_size_line dest!: scan_end_of_line dest: scan_token_progress [OF sym])

declare parse_loop.simps [simp del]

definition start_parser :: "string \<Rightarrow> parser" where
  "start_parser data = \<lparr>scan = \<lparr>rest = data, scan_line = 0, pending = T_EOF\<rparr>, line_fn = No_op, nargs = 0,
     args = replicate INIT_PARSER_MAXARGS None, import_list = []\<rparr>"

text \<open>A file that imports itself, directly or through others, is parsed again and again:
  the first argument bounds the depth of imports.\<close>

fun init_parse_config_file :: "nat \<Rightarrow> 'p platform \<Rightarrow> string \<Rightarrow> 'p init_state \<Rightarrow> (int \<times> 'p init_state) option"
  and parse_imports :: "nat \<Rightarrow> 'p platform \<Rightarrow> string list \<Rightarrow> 'p init_state \<Rightarrow> 'p init_state option" where
  "init_parse_config_file 0 P fn s = None"
| "init_parse_config_file (Suc depth) P fn s =
     (case read_file P fn s of
        (None, s) \<Rightarrow> Some (- 1, s)
      | (Some data, s) \<Rightarrow> do {
          (p, s) \<leftarrow> parse_loop P (start_parser (cstr data)) s;
          s \<leftarrow> parse_imports depth P (import_list p) s;
          Some (0, s) })"
| "parse_imports depth P [] s = Some s"
| "parse_imports depth P (fn # fns) s = do {
     (ret, s) \<leftarrow> init_parse_config_file depth P fn s;
     parse_imports depth P fns (if ret \<noteq> 0 then ERROR ''could not import file'' s else s) }"

subsection \<open>Line by line\<close>

text \<open>The words of each line that has any, at most 64 of them.\<close>

function lines_of :: "string list \<Rightarrow> scan_state \<Rightarrow> string list list" where
  "lines_of acc sc =
     (case scan_token sc of
        (T_EOF, _, sc) \<Rightarrow> []
      | (T_NEWLINE, _, sc) \<Rightarrow> (if acc = [] then [] else [acc]) @ lines_of [] (sc\<lparr>scan_line := scan_line sc + 1\<rparr>)
      | (T_TEXT, txt, sc) \<Rightarrow> lines_of (if length acc < INIT_PARSER_MAXARGS then acc @ [txt] else acc) sc)"
  by pat_completeness auto
termination
  by (relation "measure (\<lambda>(acc, sc). scan_size sc)") (auto dest: scan_token_progress [OF sym])

declare lines_of.simps [simp del]

definition load_args :: "string list \<Rightarrow> parser \<Rightarrow> parser" where
  "load_args ws p = p\<lparr>args := map Some ws @ drop (length ws) (args p), nargs := length ws\<rparr>"

fun parse_lines :: "'p platform \<Rightarrow> string list list \<Rightarrow> parser \<Rightarrow> 'p init_state \<Rightarrow> (parser \<times> 'p init_state) option" where
  "parse_lines P [] p s = Some (p, s)"
| "parse_lines P (ws # lines) p s =
     (case end_of_line P (load_args ws p) s of None \<Rightarrow> None | Some (p, s) \<Rightarrow> parse_lines P lines p s)"

text \<open>What parsing leaves behind: the imports and the state.\<close>

definition outcome :: "(parser \<times> 'p init_state) option \<Rightarrow> (string list \<times> 'p init_state) option" where
  "outcome = map_option (\<lambda>(p, s). (import_list p, s))"

lemma scan_nargs_commute: "p\<lparr>scan := sc, nargs := n\<rparr> = p\<lparr>nargs := n, scan := sc\<rparr>" for p :: parser
  by (cases p) simp

lemma end_of_line_scan:
  "end_of_line P (p\<lparr>scan := sc\<rparr>) s = map_option (\<lambda>(p, s). (p\<lparr>scan := sc\<rparr>, s)) (end_of_line P p s)"
proof -
  have "parse_new_section P kw (p\<lparr>scan := sc\<rparr>) s = map_option (\<lambda>(p, s). (p\<lparr>scan := sc\<rparr>, s)) (parse_new_section P kw p s)" for kw s
    by (cases "parse_service (nargs p) (args p) s"; cases "parse_action (nargs p) (args p) s";
        cases "parse_import P (nargs p) (args p) (import_list p) s")
      (auto simp: parse_new_section_def)
  then show ?thesis
    by (cases "args p ! 0"; cases "parse_line P (line_fn p) 0 [] s"; cases "parse_line P (line_fn p) (nargs p) (args p) s")
      (auto simp: end_of_line_def Let_def map_option_bind bind_map_option option.map_comp o_def case_prod_unfold scan_nargs_commute)
qed

lemma parse_lines_scan:
  "outcome (parse_lines P lines (p\<lparr>scan := sc\<rparr>) s) = outcome (parse_lines P lines p s)"
proof (induction lines arbitrary: p s sc)
  case (Cons ws lines)
  have "load_args ws (p\<lparr>scan := sc\<rparr>) = (load_args ws p)\<lparr>scan := sc\<rparr>" by (simp add: load_args_def)
  then show ?case using Cons.IH by (auto simp: end_of_line_scan outcome_def split: option.split)
qed (simp add: outcome_def)

lemma length_args_end_of_line:
  assumes "end_of_line P p s = Some (p', s')"
  shows "args p' = args p" and "nargs p' = 0"
proof -
  have new: "parse_new_section P kw p s = Some (q, t) \<Longrightarrow> args q = args p" for kw s q t
    by (auto simp: parse_new_section_def split: if_splits bind_splits)
  then show "args p' = args p" using assms by (auto simp: end_of_line_def Let_def split: if_splits bind_splits)
  show "nargs p' = 0" using assms by (auto simp: end_of_line_def Let_def split: if_splits bind_splits)
qed

lemma parse_line_none [simp]: "parse_line P sec 0 [] s = Some s"
  by (simp add: parse_line_def parse_line_service_def parse_line_action_def split: line_parser.split)

lemma load_args_scan: "load_args ws (p\<lparr>scan := sc\<rparr>) = (load_args ws p)\<lparr>scan := sc\<rparr>"
  by (simp add: load_args_def)

lemma load_args_next:
  assumes "length ws < length (args p)"
  shows "(load_args ws p)\<lparr>args := (args (load_args ws p))[length ws := Some w], nargs := Suc (length ws)\<rparr> = load_args (ws @ [w]) p"
proof -
  have "drop (length ws) (args p) = args p ! length ws # drop (Suc (length ws)) (args p)"
    using assms by (simp add: Cons_nth_drop_Suc)
  then show ?thesis by (simp add: load_args_def list_update_append)
qed

lemma parse_loop_lines:
  assumes "length (args p) = INIT_PARSER_MAXARGS" and "length acc \<le> INIT_PARSER_MAXARGS"
  shows "outcome (parse_loop P ((load_args acc p)\<lparr>scan := sc\<rparr>) s) = outcome (parse_lines P (lines_of acc sc) p s)"
  using assms
proof (induction "scan_size sc" arbitrary: sc acc p s rule: less_induct)
  case less
  obtain tok w sc' where t: "scan_token sc = (tok, w, sc')" by (cases "scan_token sc")
  note L = lines_of.simps [of acc sc] and E = parse_loop.simps [of P "(load_args acc p)\<lparr>scan := sc\<rparr>" s]
  show ?case
  proof (cases tok)
    case T_EOF
    then show ?thesis using t by (simp add: L E outcome_def) (simp add: load_args_def)
  next
    case T_TEXT
    have sz: "scan_size sc' < scan_size sc" using scan_token_progress [OF t] T_TEXT by simp
    show ?thesis
    proof (cases "length acc < INIT_PARSER_MAXARGS")
      case True
      have "parse_loop P ((load_args acc p)\<lparr>scan := sc\<rparr>) s = parse_loop P ((load_args (acc @ [w]) p)\<lparr>scan := sc'\<rparr>) s"
        using t T_TEXT True load_args_next [of acc p w] less.prems(1) by (simp add: E) (simp add: load_args_def)
      then show ?thesis
        using less.hyps [OF sz less.prems(1), of "acc @ [w]"] t T_TEXT True by (simp add: L)
    next
      case False
      have "parse_loop P ((load_args acc p)\<lparr>scan := sc\<rparr>) s = parse_loop P ((load_args acc p)\<lparr>scan := sc'\<rparr>) s"
        using t T_TEXT False by (simp add: E) (simp add: load_args_def)
      then show ?thesis using less.hyps [OF sz less.prems] t T_TEXT False by (simp add: L)
    qed
  next
    case T_NEWLINE
    let ?sc = "sc'\<lparr>scan_line := scan_line sc' + 1\<rparr>"
    have sz: "scan_size ?sc < scan_size sc" using scan_token_progress [OF t] T_NEWLINE by simp
    have e: "end_of_line P ((load_args acc p)\<lparr>scan := sc\<rparr>\<lparr>scan := ?sc\<rparr>) s =
        map_option (\<lambda>(p, s). (p\<lparr>scan := ?sc\<rparr>, s)) (end_of_line P (load_args acc p) s)"
      using end_of_line_scan [where p = "load_args acc p" and sc = ?sc] by simp
    show ?thesis
    proof (cases "end_of_line P (load_args acc p) s")
      case None
      then have "acc \<noteq> []" by (auto simp: end_of_line_def load_args_def)
      then show ?thesis using t T_NEWLINE None e by (simp add: L E outcome_def)
    next
      case (Some ps)
      obtain p' s' where ps: "ps = (p', s')" by (cases ps)
      note A = length_args_end_of_line [OF Some [unfolded ps]]
      have len: "length (args p') = INIT_PARSER_MAXARGS" using A(1) less.prems by (simp add: load_args_def)
      have p': "load_args [] p' = p'" using A(2) by (simp add: load_args_def)
      have "outcome (parse_loop P (p'\<lparr>scan := ?sc\<rparr>) s') = outcome (parse_lines P (lines_of [] ?sc) p' s')"
        using less.hyps [OF sz len, of "[]" s'] p' by simp
      moreover have "acc = [] \<Longrightarrow> p' = load_args [] p \<and> s' = s" using Some ps by (simp add: end_of_line_def load_args_def)
      moreover have "outcome (parse_lines P ls (load_args [] p) s) = outcome (parse_lines P ls p s)" for ls
        by (cases ls) (simp_all add: outcome_def load_args_def)
      ultimately show ?thesis using t T_NEWLINE Some ps e by (auto simp: L E)
    qed
  qed
qed

subsection \<open>Reading back what was written\<close>

text \<open>A line of quoted words.\<close>

definition render_word :: "string \<Rightarrow> string" where
  "render_word w = QUOTE # w @ [QUOTE, CHR '' '']"

definition render_line :: "string list \<Rightarrow> string" where
  "render_line ws = concat (map render_word ws) @ [NEWLINE]"

definition render_rc :: "string list list \<Rightarrow> string" where
  "render_rc lines = concat (map render_line lines)"

lemma scan_word:
  assumes "QUOTE \<notin> set w"
  shows "scan_token \<lparr>rest = render_word w @ r, scan_line = l, pending = T_EOF\<rparr> =
    (T_TEXT, w, \<lparr>rest = r, scan_line = l, pending = T_EOF\<rparr>)"
proof -
  have q: "quote_scan (w @ QUOTE # CHR '' '' # r) = Some (w, CHR '' '' # r)" using quote_scan_append [OF assms] .
  have "text_scan [] (QUOTE # w @ QUOTE # CHR '' '' # r) l = (T_TEXT, w, \<lparr>rest = r, scan_line = l, pending = T_EOF\<rparr>)"
    by (subst text_scan.simps(2), simp add: q, simp add: text_scan.simps(2) blank_def char_defs)
  moreover have "lead_scan (QUOTE # cs) = (T_TEXT, QUOTE # cs)" for cs by (simp add: blank_def char_defs)
  ultimately show ?thesis by (simp add: scan_token_def render_word_def del: lead_scan.simps)
qed

lemma lines_of_words:
  assumes "\<And>w. w \<in> set ws \<Longrightarrow> QUOTE \<notin> set w" and "length acc + length ws \<le> INIT_PARSER_MAXARGS"
  shows "lines_of acc \<lparr>rest = render_line ws @ r, scan_line = l, pending = T_EOF\<rparr> =
    (if acc @ ws = [] then [] else [acc @ ws]) @ lines_of [] \<lparr>rest = r, scan_line = l + 1, pending = T_EOF\<rparr>"
  using assms
proof (induction ws arbitrary: acc)
  case Nil
  have "scan_token \<lparr>rest = NEWLINE # r, scan_line = l, pending = T_EOF\<rparr> = (T_NEWLINE, [], \<lparr>rest = r, scan_line = l, pending = T_EOF\<rparr>)"
    by (simp add: scan_token_def)
  then show ?case by (simp add: render_line_def lines_of.simps [of acc])
next
  case (Cons w ws)
  have "lines_of acc \<lparr>rest = render_line (w # ws) @ r, scan_line = l, pending = T_EOF\<rparr> =
      lines_of (acc @ [w]) \<lparr>rest = render_line ws @ r, scan_line = l, pending = T_EOF\<rparr>"
    using Cons.prems scan_word [of w "render_line ws @ r" l] by (simp add: render_line_def lines_of.simps [of acc])
  then show ?case using Cons.IH [of "acc @ [w]"] Cons.prems by simp
qed

lemma lines_of_render:
  assumes "\<And>ws w. ws \<in> set ls \<Longrightarrow> w \<in> set ws \<Longrightarrow> QUOTE \<notin> set w"
    and "\<And>ws. ws \<in> set ls \<Longrightarrow> ws \<noteq> [] \<and> length ws \<le> INIT_PARSER_MAXARGS"
  shows "lines_of [] \<lparr>rest = render_rc ls @ [NEWLINE], scan_line = l, pending = T_EOF\<rparr> = ls"
  using assms
proof (induction ls arbitrary: l)
  case Nil
  show ?case using lines_of_words [of "[]" "[]" "[]" l]
    by (simp add: render_rc_def render_line_def lines_of.simps [of _ "\<lparr>rest = [], scan_line = _, pending = _\<rparr>"] scan_token_def)
next
  case (Cons ws ls)
  have "lines_of [] \<lparr>rest = render_line ws @ render_rc ls @ [NEWLINE], scan_line = l, pending = T_EOF\<rparr> =
      [ws] @ lines_of [] \<lparr>rest = render_rc ls @ [NEWLINE], scan_line = l + 1, pending = T_EOF\<rparr>"
    using lines_of_words [of ws "[]" "render_rc ls @ [NEWLINE]" l] Cons.prems by force
  moreover have "lines_of [] \<lparr>rest = render_rc ls @ [NEWLINE], scan_line = l + 1, pending = T_EOF\<rparr> = ls"
    by (rule Cons.IH) (use Cons.prems in auto)
  ultimately show ?case by (simp add: render_rc_def)
qed

text \<open>The words of a line that the parser handles as one line.\<close>

definition rc_line :: "string list \<Rightarrow> bool" where
  "rc_line ws \<longleftrightarrow> ws \<noteq> [] \<and> length ws \<le> INIT_PARSER_MAXARGS \<and> list_all (\<lambda>w. QUOTE \<notin> set w \<and> is_cstr w) ws"

lemma parse_loop_render:
  assumes "list_all rc_line ls"
  shows "outcome (parse_loop P (start_parser (render_rc ls @ [NEWLINE])) s) = outcome (parse_lines P ls (start_parser []) s)"
proof -
  let ?sc = "\<lparr>rest = render_rc ls @ [NEWLINE], scan_line = 0, pending = T_EOF\<rparr>"
  have "lines_of [] ?sc = ls"
    by (rule lines_of_render) (use assms in \<open>auto simp: list_all_iff rc_line_def\<close>)
  moreover have "(load_args [] (start_parser []))\<lparr>scan := ?sc\<rparr> = start_parser (render_rc ls @ [NEWLINE])"
    by (simp add: load_args_def start_parser_def)
  ultimately show ?thesis
    using parse_loop_lines [of "start_parser []" "[]" P ?sc s] by (simp add: start_parser_def)
qed

lemma cstr_render:
  assumes "list_all rc_line ls"
  shows "cstr (render_rc ls @ [NEWLINE, NUL]) = render_rc ls @ [NEWLINE]"
proof -
  have w: "is_cstr w \<Longrightarrow> is_cstr (render_word w)" for w by (simp add: render_word_def char_defs)
  have c: "(\<And>x. x \<in> set xs \<Longrightarrow> is_cstr (f x)) \<Longrightarrow> is_cstr (concat (map f xs))" for f :: "'a \<Rightarrow> string" and xs
    by (induction xs) auto
  have l: "rc_line ws \<Longrightarrow> is_cstr (concat (map render_word ws))" for ws
    by (rule c) (auto simp: rc_line_def list_all_iff intro: w)
  have "is_cstr (render_rc ls)"
    unfolding render_rc_def by (rule c) (use assms in \<open>auto simp: list_all_iff render_line_def char_defs intro: l\<close>)
  then show ?thesis using cstr_append [of "render_rc ls" "[NEWLINE, NUL]"] by (simp add: char_defs)
qed

lemma parse_file_render:
  assumes "list_all rc_line ls" and "sys_read P (nsys s) fn = Some (m, render_rc ls)" and "m AND (S_IWGRP OR S_IWOTH) = 0"
  shows "init_parse_config_file (Suc d) P fn s = do {
     (imports, s) \<leftarrow> outcome (parse_lines P ls (start_parser []) (s\<lparr>nsys := Suc (nsys s)\<rparr>));
     s \<leftarrow> parse_imports d P imports s;
     Some (0, s) }"
proof -
  let ?s = "s\<lparr>nsys := Suc (nsys s)\<rparr>"
  have "read_file P fn s = (Some (render_rc ls @ [NEWLINE, NUL]), ?s)"
    using assms(2,3) by (simp add: read_file_def sys_def)
  then have whole: "init_parse_config_file (Suc d) P fn s = do {
     (p, s) \<leftarrow> parse_loop P (start_parser (render_rc ls @ [NEWLINE])) ?s;
     s \<leftarrow> parse_imports d P (import_list p) s;
     Some (0, s) }" by (simp add: cstr_render [OF assms(1)])
  have step: "X \<bind> (\<lambda>(p, s). parse_imports d P (import_list p) s \<bind> (\<lambda>s. Some (0, s))) =
      outcome X \<bind> (\<lambda>(im, s). parse_imports d P im s \<bind> (\<lambda>s. Some (0, s)))" for X
    by (cases X) (auto simp: outcome_def)
  show ?thesis by (simp only: whole step parse_loop_render [OF assms(1)])
qed

text \<open>C36: Parsing reads back what was written. For every list of lines of 1 to 64 words
  without a quotation mark, init_parse_config_file on a file in which every word is quoted
  handles exactly these lines, one after another, and then the imports they collected: no
  word is split, dropped or moved to another line, whatever blanks, comment signs,
  backslashes or line ends it contains.\<close>

theorem parse_config_roundtrip:
  assumes "list_all rc_line ls" and "sys_read P (nsys s) fn = Some (m, render_rc ls)" and "m AND (S_IWGRP OR S_IWOTH) = 0"
  shows "init_parse_config_file (Suc d) P fn s = do {
     (imports, s) \<leftarrow> outcome (parse_lines P ls (start_parser []) (s\<lparr>nsys := Suc (nsys s)\<rparr>));
     s \<leftarrow> parse_imports d P imports s;
     Some (0, s) }"
  using parse_file_render [OF assms] .

text \<open>A platform with one readable file, of two lines.\<close>

definition rc_platform :: "(string \<Rightarrow> string option) platform" where
  "rc_platform = map_platform\<lparr>sys_read := (\<lambda>_ _. Some (0, render_rc [[''on'', ''a b#c''], [''trigger'', ''x'']]))\<rparr>"

lemma rc_platform_line: "list_all rc_line [[''on'', ''a b#c''], [''trigger'', ''x'']]"
  by (simp add: rc_line_def INIT_PARSER_MAXARGS_def char_defs)

lemma rc_platform_parsed:
  "outcome (parse_lines rc_platform [[''on'', ''a b#c''], [''trigger'', ''x'']] (start_parser []) (empty_init\<lparr>nsys := 1\<rparr>)) =
    Some ([], empty_init\<lparr>nsys := 1, action_list :=
      [\<lparr>act_name = ''a b#c'', commands = [\<lparr>cmd_func = Do_trigger, cmd_nargs = 2, cmd_args = [''trigger'', ''x'']\<rparr>]\<rparr>]\<rparr>)"
  by (simp add: end_of_line_def load_args_def start_parser_def INIT_PARSER_MAXARGS_def kw_is_def parse_new_section_def
      parse_action_def parse_line_def parse_line_action_def upd_action_def make_command_def outcome_def kw_nargs_def
      kw_func_def strcmp_def Let_def KEYWORD_def empty_init_def)

theorem parse_config_roundtrip_witness:
  "init_parse_config_file 1 rc_platform ''/init.rc'' empty_init =
    Some (0, empty_init\<lparr>nsys := 1, action_list :=
      [\<lparr>act_name = ''a b#c'', commands = [\<lparr>cmd_func = Do_trigger, cmd_nargs = 2, cmd_args = [''trigger'', ''x'']\<rparr>]\<rparr>]\<rparr>)"
  using parse_config_roundtrip [OF rc_platform_line, of rc_platform empty_init "''/init.rc''" 0 0] rc_platform_parsed
  by (simp add: rc_platform_def) (simp add: empty_init_def)

subsection \<open>What the parser builds\<close>

text \<open>A command of an rc file has the function of its keyword and at least the arguments the
  table asks for. A command that init itself queues has only its name.\<close>

definition command_ok :: "command \<Rightarrow> bool" where
  "command_ok c \<longleftrightarrow>
     (if cmd_nargs c = 0 then length (cmd_args c) = 1
      else
        let kw = lookup_keyword (hd (cmd_args c))
        in cmd_nargs c = length (cmd_args c) \<and> kw_is kw COMMAND \<and> kw_func kw = Some (cmd_func c) \<and>
           kw_nargs kw \<le> cmd_nargs c \<and> cmd_nargs c \<le> INIT_PARSER_MAXARGS)"

definition service_ok :: "service \<Rightarrow> bool" where
  "service_ok x \<longleftrightarrow>
     valid_name (svc_name x) \<and> svc_args x \<noteq> [] \<and> length (svc_args x) \<le> INIT_PARSER_MAXARGS - 2 \<and>
     length (supp_gids x) \<le> NR_SVC_SUPP_GIDS \<and>
     list_all (\<lambda>so. si_type so \<in> {''dgram'', ''stream'', ''seqpacket''}) (sockets x) \<and>
     list_all command_ok (onrestart x) \<and>
     (ioprio_class x \<noteq> IoSchedClass_NONE \<longrightarrow> 0 \<le> ioprio_pri x \<and> ioprio_pri x \<le> 7)"

definition rc_ok :: "'p init_state \<Rightarrow> bool" where
  "rc_ok s \<longleftrightarrow>
     list_all service_ok (service_list s) \<and> distinct (map svc_name (service_list s)) \<and>
     list_all (\<lambda>x. list_all command_ok (commands x)) (action_list s)"

definition section_ok :: "line_parser \<Rightarrow> 'p init_state \<Rightarrow> bool" where
  "section_ok l s \<longleftrightarrow>
     (case l of No_op \<Rightarrow> True | Service_section i \<Rightarrow> i < length (service_list s) | Action_section i \<Rightarrow> i < length (action_list s))"

lemma parse_error_simps [simp]:
  "service_list (parse_error m s) = service_list s" "action_list (parse_error m s) = action_list s"
  by (simp_all add: parse_error_def)

lemma rc_ok_same: "service_list s' = service_list s \<Longrightarrow> action_list s' = action_list s \<Longrightarrow> rc_ok s \<Longrightarrow> rc_ok s'"
  by (simp add: rc_ok_def)

lemma rc_ok_error [simp]: "rc_ok (parse_error m s) = rc_ok s" "rc_ok (ERROR m s) = rc_ok s"
  by (simp_all add: rc_ok_def)

lemma list_all_update: "list_all Q xs \<Longrightarrow> Q y \<Longrightarrow> list_all Q (xs[i := y])"
  using set_update_subset_insert [of xs i y] by (auto simp: list_all_iff)

lemma rc_ok_upd_svc:
  assumes "rc_ok s" and "\<And>x. service_ok x \<Longrightarrow> service_ok (f x)" and "\<And>x. svc_name (f x) = svc_name x"
  shows "rc_ok (upd_svc i f s)"
proof (cases "i < length (service_list s)")
  case True
  then have "map svc_name ((service_list s)[i := f (svc s i)]) = map svc_name (service_list s)"
    by (metis assms(3) list_update_id map_update nth_map)
  moreover have "service_ok (f (svc s i))" using True assms(1,2) by (auto simp: rc_ok_def list_all_length)
  ultimately show ?thesis using assms(1) by (simp add: rc_ok_def list_all_update)
qed (use assms(1) in \<open>simp add: upd_svc_def list_update_beyond\<close>)

lemma those_Some: "those xs = Some ys \<longleftrightarrow> xs = map Some ys"
  by (induction xs arbitrary: ys) (auto split: option.split simp: Cons_eq_map_conv)

lemma those_take_length: "those (take n a) = Some v \<Longrightarrow> n \<le> length a \<Longrightarrow> length v = n"
  by (auto simp: those_Some dest!: arg_cong [of _ _ length])

lemma command_ok_make:
  assumes "kw_is kw COMMAND" and "kw = lookup_keyword (hd v)" and "kw_nargs kw \<le> length v" and "length v \<le> INIT_PARSER_MAXARGS"
  shows "command_ok (make_command kw v)"
proof -
  have "kw_func kw \<noteq> None" "0 < kw_nargs kw" using assms(1) by (cases kw; simp add: kw_is_def kw_func_def kw_nargs_def KEYWORD_def)+
  then show ?thesis using assms by (auto simp: command_ok_def make_command_def Let_def)
qed

lemma service_ok_flags [simp]: "service_ok (set_flags f x) = service_ok x" "svc_name (set_flags f x) = svc_name x"
  by (simp_all add: service_ok_def set_flags_def)

lemma ioprio_of_range: "ioprio_of c \<noteq> Some IoSchedClass_NONE"
  by (simp add: ioprio_of_def)

lemma rc_ok_option_ioprio:
  assumes "rc_ok s" and "i < length (service_list s)" and "ioprio_class (svc s i) = IoSchedClass_NONE"
  shows "rc_ok (option_ioprio n v i s)"
proof -
  let ?pri = "sint (strtoul (v ! 2) 8)"
  have u: "upd_svc i f (upd_svc i g s) = upd_svc i (\<lambda>x. f (g x)) s" for f g
    using assms(2) by (simp add: upd_svc_def)
  have c: "upd_svc i f s = upd_svc i (\<lambda>x. if x = svc s i then f x else x) s" for f
    by (simp add: upd_svc_def)
  have "rc_ok (upd_svc i (\<lambda>x. x\<lparr>ioprio_pri := ?pri\<rparr>) s)"
    by (subst c, rule rc_ok_upd_svc [OF assms(1)]) (use assms(3) in \<open>auto simp: service_ok_def\<close>)
  moreover have "rc_ok (upd_svc i (\<lambda>x. x\<lparr>ioprio_pri := ?pri, ioprio_class := k\<rparr>) s)" if "0 \<le> ?pri" "?pri \<le> 7" for k
    by (rule rc_ok_upd_svc [OF assms(1)]) (use that in \<open>auto simp: service_ok_def\<close>)
  ultimately show ?thesis using assms(1) by (auto simp: option_ioprio_def Let_def u split: option.split)
qed

lemma rc_ok_option_onrestart:
  assumes "rc_ok s" and "option_onrestart n a i s = Some s'" and "n \<le> length a" and "length a = INIT_PARSER_MAXARGS"
  shows "rc_ok s'"
proof -
  obtain a0 v where v: "those (take (n - 1) (drop 1 a)) = Some v" "1 < length a" "a ! 1 = Some a0"
    and s': "s' = (if \<not> kw_is (lookup_keyword a0) COMMAND then parse_error ''invalid command'' s
       else if n - 1 < kw_nargs (lookup_keyword a0) then parse_error ''command requires arguments'' s
       else upd_svc i (\<lambda>x. x\<lparr>onrestart := onrestart x @ [make_command (lookup_keyword a0) v]\<rparr>) s)"
    using assms(2) by (auto simp: option_onrestart_def Let_def split: if_splits bind_splits)
  have len: "length v = n - 1" using those_take_length [OF v(1)] assms(3) by simp
  have "rc_ok (upd_svc i (\<lambda>x. x\<lparr>onrestart := onrestart x @ [make_command (lookup_keyword a0) v]\<rparr>) s)"
    if "kw_is (lookup_keyword a0) COMMAND" "kw_nargs (lookup_keyword a0) \<le> n - 1"
  proof -
    have "0 < kw_nargs (lookup_keyword a0)" using that(1) by (cases "lookup_keyword a0"; simp add: kw_is_def kw_nargs_def KEYWORD_def)
    then have ne: "v \<noteq> []" using that(2) len by auto
    have "map Some v = take (n - 1) (drop 1 a)" using v(1) by (simp add: those_Some)
    then have "Some (hd v) = Some a0" using ne v(2,3) by (cases v; cases "drop 1 a"; cases "n - 1") (auto simp: nth_via_drop)
    then have "command_ok (make_command (lookup_keyword a0) v)"
      using that len assms(3,4) by (intro command_ok_make) auto
    then show ?thesis using assms(1) by (intro rc_ok_upd_svc) (auto simp: service_ok_def)
  qed
  then show ?thesis using assms(1) s' by auto
qed

lemma rc_ok_parse_line_service:
  assumes "rc_ok s" and "i < length (service_list s)" and "parse_line_service P i n a s = Some s'"
    and "n \<le> length a" and "length a = INIT_PARSER_MAXARGS"
  shows "rc_ok s'"
proof (cases "n = 0")
  case True
  then show ?thesis using assms by (simp add: parse_line_service_def)
next
  case False
  obtain v where v: "those (take n a) = Some v" using assms(3) False by (auto simp: parse_line_service_def split: bind_splits)
  have len: "length v = n" using those_take_length [OF v assms(4)] .
  define t where "t = upd_svc i (\<lambda>x. x\<lparr>ioprio_class := IoSchedClass_NONE\<rparr>) s"
  have t: "rc_ok t" "i < length (service_list t)" "ioprio_class (svc t i) = IoSchedClass_NONE"
    using assms(1,2) by (auto simp: t_def service_ok_def intro!: rc_ok_upd_svc)
  note u = rc_ok_upd_svc [OF t(1)]
  have "rc_ok (option_group P n v i t)" "rc_ok (option_keycodes n v i t)" "rc_ok (option_socket P n v i t)"
    using t(1) len by (auto simp: option_group_def option_keycodes_def option_socket_def Let_def service_ok_def strcmp_def intro!: u)
  moreover have "rc_ok (upd_svc i (\<lambda>x. x\<lparr>classname := v ! 1\<rparr>) t)" "rc_ok (upd_svc i (set_flags f) t)"
    "rc_ok (upd_svc i (set_flags f) (upd_svc i (set_flags g) t))"
    "rc_ok (upd_svc i (\<lambda>x. x\<lparr>uid := k\<rparr>) t)" "rc_ok (upd_svc i (\<lambda>x. x\<lparr>seclabel := l\<rparr>) t)" for f g k l
    using t(1) by (auto simp: service_ok_def set_flags_def intro!: rc_ok_upd_svc)
  moreover have "option_setenv n a i t = Some s' \<Longrightarrow> rc_ok s'"
    using t(1) by (auto simp: option_setenv_def service_ok_def split: if_splits bind_splits intro!: u)
  moreover note rc_ok_option_ioprio [OF t] rc_ok_option_onrestart [OF t(1) _ assms(4,5)]
  ultimately show ?thesis
    using assms(3) False v t(1) unfolding parse_line_service_def Let_def t_def [symmetric]
    by (auto simp del: upd_svc_simps split: if_splits)
qed

lemma rc_ok_parse_service:
  assumes "rc_ok s" and "parse_service n a s = Some (i, s')" and "n \<le> length a" and "length a = INIT_PARSER_MAXARGS"
  shows "rc_ok s' \<and> (\<forall>j. i = Some j \<longrightarrow> j < length (service_list s'))"
proof -
  obtain v where v: "those (take n a) = Some v" using assms(2) by (auto simp: parse_service_def split: bind_splits)
  note len = those_take_length [OF v assms(3)]
  define x where "x = zero_service\<lparr>svc_name := v ! 1, classname := ''default'', svc_args := drop 2 v\<rparr>"
  have "service_ok x" if "3 \<le> n" "valid_name (v ! 1)"
    using that len assms(3,4) by (auto simp: x_def service_ok_def zero_service_def)
  moreover have "svc_name x \<notin> svc_name ` set (service_list s)" if "service_find_by_name (v ! 1) s = None"
    using that by (auto simp: service_find_by_name_def find_index_None strcmp_def x_def)
  ultimately show ?thesis
    using assms(1,2) v by (auto simp: parse_service_def rc_ok_def not_less x_def split: if_splits)
qed

lemma rc_ok_parse_line_action:
  assumes "rc_ok s" and "parse_line_action i n a s = Some s'" and "n \<le> length a" and "length a = INIT_PARSER_MAXARGS"
  shows "rc_ok s'"
proof (cases "n = 0")
  case True
  then show ?thesis using assms by (simp add: parse_line_action_def)
next
  case False
  obtain v where v: "those (take n a) = Some v" using assms(2) False by (auto simp: parse_line_action_def split: bind_splits)
  note len = those_take_length [OF v assms(3)]
  let ?kw = "lookup_keyword (v ! 0)"
  let ?f = "\<lambda>x. x\<lparr>commands := commands x @ [make_command ?kw v]\<rparr>"
  have "rc_ok (upd_action i ?f s)" if "kw_is ?kw COMMAND" "kw_nargs ?kw \<le> n"
  proof (cases "i < length (action_list s)")
    case True
    have "command_ok (make_command ?kw v)"
      using that len False assms(3,4) by (intro command_ok_make) (auto simp: hd_conv_nth)
    then have "list_all command_ok (commands (?f (action_list s ! i)))"
      using nth_mem [OF True] assms(1) by (simp add: rc_ok_def list_all_iff)
    then show ?thesis
      using assms(1) by (simp add: rc_ok_def upd_action_def list_all_update)
  qed (use assms(1) in \<open>simp add: upd_action_def list_update_beyond\<close>)
  then show ?thesis using assms(1,2) False v by (auto simp: parse_line_action_def Let_def split: if_splits)
qed

lemma parse_line_lengths:
  assumes "parse_line P l n a s = Some t"
  shows "length (service_list t) = length (service_list s) \<and> length (action_list t) = length (action_list s)"
proof (cases l)
  case (Service_section i)
  have "length (service_list (option_ioprio n v i s)) = length (service_list s) \<and> action_list (option_ioprio n v i s) = action_list s"
    for v and s :: "'a init_state"
    by (simp add: option_ioprio_def Let_def split: option.split)
  moreover have "option_onrestart n a i u = Some t \<Longrightarrow> length (service_list t) = length (service_list u) \<and> action_list t = action_list u"
    "option_setenv n a i u = Some t \<Longrightarrow> length (service_list t) = length (service_list u) \<and> action_list t = action_list u" for u
    by (auto simp: option_onrestart_def option_setenv_def Let_def split: if_splits bind_splits)
  ultimately show ?thesis using assms Service_section
    by (auto simp: parse_line_def parse_line_service_def Let_def option_group_def option_keycodes_def option_socket_def
        split: if_splits bind_splits)
next
  case (Action_section i)
  then show ?thesis using assms
    by (auto simp: parse_line_def parse_line_action_def upd_action_def Let_def split: if_splits bind_splits)
qed (use assms in \<open>simp add: parse_line_def\<close>)

lemma section_ok_line: "section_ok l s \<Longrightarrow> parse_line P l n a s = Some t \<Longrightarrow> section_ok l t"
  using parse_line_lengths [of P l n a s t] by (simp add: section_ok_def split: line_parser.splits)

lemma section_ok_new: "parse_new_section P kw p s = Some (q, t) \<Longrightarrow> section_ok (line_fn q) t"
  by (auto simp: parse_new_section_def parse_service_def parse_action_def parse_import_def section_ok_def
      split: if_splits bind_splits option.splits)

text \<open>What every line keeps, the parsing of files keeps.\<close>

definition line_args :: "nat \<Rightarrow> args \<Rightarrow> bool" where
  "line_args n a \<longleftrightarrow> n \<le> INIT_PARSER_MAXARGS \<and> length a = INIT_PARSER_MAXARGS"

locale parsing =
  fixes P :: "'p platform" and I :: "'p init_state \<Rightarrow> bool"
  assumes I_read: "I (s\<lparr>nsys := k\<rparr>) = I s"
    and I_error: "I (ERROR m s) = I s"
    and I_line: "I s \<Longrightarrow> section_ok l s \<Longrightarrow> parse_line P l n a s = Some t \<Longrightarrow> line_args n a \<Longrightarrow> I t"
    and I_new: "I s \<Longrightarrow> parse_new_section P kw p s = Some (q, t) \<Longrightarrow> line_args (nargs p) (args p) \<Longrightarrow> I t"
begin

lemma I_end_of_line:
  assumes "I s" and "section_ok (line_fn p) s" and "end_of_line P p s = Some (q, t)" and "line_args (nargs p) (args p)"
  shows "I t \<and> section_ok (line_fn q) t"
  using assms I_line [OF assms(1,2) _ assms(4)] I_new [OF assms(1) _ assms(4)] section_ok_line [OF assms(2)] section_ok_new [where p = p]
  by (auto simp: end_of_line_def Let_def split: if_splits bind_splits)

lemma I_loop:
  assumes "I s" and "section_ok (line_fn p) s" and "parse_loop P p s = Some (q, t)" and "line_args (nargs p) (args p)"
  shows "I t"
  using assms
proof (induction "scan_size (scan p)" arbitrary: p s rule: less_induct)
  case less
  obtain tok w sc where tk: "scan_token (scan p) = (tok, w, sc)" by (cases "scan_token (scan p)")
  note E = parse_loop.simps [of P p s] and prog = scan_token_progress [OF tk]
  show ?case
  proof (cases tok)
    case T_EOF
    then show ?thesis using less.prems tk by (simp add: E)
  next
    case T_TEXT
    let ?p = "(if nargs p < INIT_PARSER_MAXARGS then p\<lparr>args := (args p)[nargs p := Some w], nargs := nargs p + 1\<rparr> else p)\<lparr>scan := sc\<rparr>"
    have "scan_size (scan ?p) < scan_size (scan p)" using prog T_TEXT by simp
    from less.hyps [OF this less.prems(1)] show ?thesis using less.prems tk T_TEXT by (simp add: E line_args_def)
  next
    case T_NEWLINE
    let ?p = "p\<lparr>scan := sc\<lparr>scan_line := scan_line sc + 1\<rparr>\<rparr>"
    obtain r u where r: "end_of_line P ?p s = Some (r, u)" "parse_loop P r u = Some (q, t)"
      using less.prems(3) tk T_NEWLINE by (auto simp: E split: option.splits)
    have ok: "I u \<and> section_ok (line_fn r) u" by (rule I_end_of_line [OF less.prems(1) _ r(1)]) (use less.prems in auto)
    have "scan_size (scan r) < scan_size (scan p)" using prog T_NEWLINE scan_end_of_line [OF r(1)] by simp
    from less.hyps [OF this _ _ r(2)] show ?thesis
      using ok length_args_end_of_line [OF r(1)] less.prems(4) by (simp add: line_args_def)
  qed
qed

lemma I_read_file: "read_file P fn s = (r, t) \<Longrightarrow> I t = I s"
  using I_read by (auto simp: read_file_def sys_def I_error split: option.splits if_splits)

lemma I_imports:
  assumes "\<And>fn s r t. init_parse_config_file d P fn s = Some (r, t) \<Longrightarrow> I s \<Longrightarrow> I t"
  shows "parse_imports d P fns s = Some t \<Longrightarrow> I s \<Longrightarrow> I t"
proof (induction fns arbitrary: s)
  case (Cons fn fns)
  obtain r u where u: "init_parse_config_file d P fn s = Some (r, u)"
    and t: "parse_imports d P fns (if r \<noteq> 0 then ERROR ''could not import file'' u else u) = Some t"
    using Cons.prems(1) by (auto split: bind_splits)
  show ?case using Cons.IH [OF t] assms [OF u Cons.prems(2)] by (simp add: I_error)
qed simp

lemma I_parse: "init_parse_config_file d P fn s = Some (r, t) \<Longrightarrow> I s \<Longrightarrow> I t"
proof (induction d arbitrary: fn s r t)
  case (Suc d)
  obtain x u where rf: "read_file P fn s = (x, u)" by (cases "read_file P fn s")
  have u: "I u" using I_read_file [OF rf] Suc.prems(2) by simp
  show ?case
  proof (cases x)
    case (Some data)
    then obtain p w where p: "parse_loop P (start_parser (cstr data)) u = Some (p, w)" "parse_imports d P (import_list p) w = Some t"
      using Suc.prems(1) rf by (auto split: bind_splits)
    have "I w" by (rule I_loop [OF u _ p(1)]) (simp_all add: start_parser_def section_ok_def line_args_def)
    then show ?thesis by (rule I_imports [rotated, OF p(2)]) (rule Suc.IH)
  qed (use Suc.prems rf u in simp)
qed simp

end

lemma rc_ok_parse_line:
  assumes "rc_ok s" and "section_ok l s" and "parse_line P l n a s = Some t" and "line_args n a"
  shows "rc_ok t"
proof -
  have len: "n \<le> length a" "length a = INIT_PARSER_MAXARGS" using assms(4) by (simp_all add: line_args_def)
  show ?thesis
    using assms(1-3) rc_ok_parse_line_action [OF assms(1) _ len] rc_ok_parse_line_service [OF assms(1) _ _ len]
    by (auto simp: parse_line_def section_ok_def split: line_parser.splits)
qed

lemma rc_ok_new_section:
  assumes "rc_ok s" and "parse_new_section P kw p s = Some (q, t)" and "line_args (nargs p) (args p)"
  shows "rc_ok t"
proof -
  have len: "nargs p \<le> length (args p)" "length (args p) = INIT_PARSER_MAXARGS" using assms(3) by (simp_all add: line_args_def)
  show ?thesis
    using assms(1,2) rc_ok_parse_service [OF assms(1) _ len]
    by (auto simp: parse_new_section_def parse_action_def parse_import_def rc_ok_def split: if_splits bind_splits option.splits)
qed

interpretation well_formed: parsing P rc_ok for P :: "'p platform"
proof unfold_locales
  show "rc_ok (s\<lparr>nsys := k\<rparr>) = rc_ok s" for s :: "'p init_state" and k by (simp add: rc_ok_def)
qed (use rc_ok_parse_line rc_ok_new_section in auto)



text \<open>A file that imports itself.\<close>

lemma expand_props_plain:
  assumes "CHR ''$'' \<notin> set src" and "src \<noteq> []" and "length src < n"
  shows "expand_props P s n src = Some (0, src)"
proof -
  have "strchr src (CHR ''$'') = None" using assms(1) by (simp add: strchr_None)
  then show ?thesis using assms(2,3) by (cases src) (auto simp: expand_props_def expand_loop.simps expand_end_def)
qed

lemma parse_lines_import:
  assumes "CHR ''$'' \<notin> set fn" and "fn \<noteq> []" and "length fn < PATH_MAX"
  shows "outcome (parse_lines P [[''import'', fn]] (start_parser []) s) = Some ([fn], s)"
  using expand_props_plain [OF assms, of P s]
  by (simp add: end_of_line_def load_args_def start_parser_def INIT_PARSER_MAXARGS_def kw_is_def parse_new_section_def
      parse_import_def parse_line_def outcome_def strcmp_def Let_def KEYWORD_def)



end
