(* ===== verification/Init_Service.thy ===== *)
theory Init_Service
  imports Init_Parser
begin

text \<open>
  The life of services: starting, stopping and restarting them (\<^verbatim>\<open>init/init/init.c\<close>), the
  requests that reach init on its socket (\<^verbatim>\<open>init/init/property_service.c\<close>) and the key chords
  that start services (\<^verbatim>\<open>init/init/keychords.c\<close>).

  A child process starts from a copy of the state; what it does is recorded in the effect
  Spawn of its parent and changes nothing else.
\<close>

subsection \<open>The child process\<close>

definition add_env :: "string \<Rightarrow> string \<Rightarrow> 'p init_state \<Rightarrow> 'p init_state" where
  "add_env key val s = s\<lparr>ENV := snd (add_environment key val (ENV s))\<rparr>"

definition open_file :: "'p platform \<Rightarrow> string \<Rightarrow> 'p init_state \<Rightarrow> int \<times> 'p init_state" where
  "open_file P path s = (let (fd, s) = sys (\<lambda>n. sys_open P n path) s in (fd, emit (Syscall ''open'' [Str path]) s))"

text \<open>The calls of dup2 that make a descriptor the standard streams, and the close.\<close>

definition dup_stdio :: "'p platform \<Rightarrow> int \<Rightarrow> 'p init_state \<Rightarrow> 'p init_state" where
  "dup_stdio P fd s =
     (let s = snd (syscall P ''dup2'' [Num fd, Num 0] s);
          s = snd (syscall P ''dup2'' [Num fd, Num 1] s);
          s = snd (syscall P ''dup2'' [Num fd, Num 2] s)
      in snd (syscall P ''close'' [Num fd] s))"

definition zap_stdio :: "'p platform \<Rightarrow> 'p init_state \<Rightarrow> 'p init_state" where
  "zap_stdio P s = (let (fd, s) = open_file P ''/dev/null'' s in dup_stdio P fd s)"

definition open_console :: "'p platform \<Rightarrow> 'p init_state \<Rightarrow> 'p init_state" where
  "open_console P s =
     (let (fd, s) = open_file P (console_name s) s;
          (fd, s) = (if fd < 0 then open_file P ''/dev/null'' s else (fd, s))
      in dup_stdio P fd (snd (syscall P ''ioctl'' [Num fd, Str ''TIOCSCTTY''] s)))"

text \<open>The key has room for 64 characters with the NUL; strlcpy gets the rest behind the prefix,
  less one for the prefix's own NUL.\<close>

definition publish_socket :: "'p platform \<Rightarrow> string \<Rightarrow> int \<Rightarrow> 'p init_state \<Rightarrow> 'p init_state" where
  "publish_socket P name fd s =
     (let prefix = ANDROID_SOCKET_ENV_PREFIX P;
          key = prefix @ take (64 - (length prefix + 1) - 1) name;
          s = add_env key (dec_int fd) s
      in snd (syscall P ''fcntl'' [Num fd, Str ''F_SETFD'', Num 0] s))"

definition socket_type :: "string \<Rightarrow> int" where
  "socket_type t = (if \<not> strcmp t ''stream'' then SOCK_STREAM
     else if \<not> strcmp t ''dgram'' then SOCK_DGRAM else SOCK_SEQPACKET)"

definition child_socket :: "'p platform \<Rightarrow> socketinfo \<Rightarrow> 'p init_state \<Rightarrow> 'p init_state" where
  "child_socket P si s =
     (let (fd, s) = create_socket P (si_name si) (socket_type (si_type si)) (si_perm si) (si_uid si) (si_gid si) s
      in if fd \<ge> 0 then publish_socket P (si_name si) fd s else s)"

definition child_env :: "'p platform \<Rightarrow> service \<Rightarrow> 'p init_state \<Rightarrow> 'p init_state" where
  "child_env P x s =
     (let s = snd (syscall P ''umask'' [Num 0x3F] s);
          s = (if property_area_inited s then
                 let (fd, s) = syscall P ''dup'' [Num (pa_workspace_fd s)] s
                 in add_env ''ANDROID_PROPERTY_WORKSPACE'' (dec_int fd @ '','' @ dec_int 0) s
               else s)
      in fold (\<lambda>(n, v). add_env n v) (envvars x) s)"

definition ioprio_number :: "IoSchedClass \<Rightarrow> int" where
  "ioprio_number c = (case c of IoSchedClass_NONE \<Rightarrow> 0 | IoSchedClass_RT \<Rightarrow> 1 | IoSchedClass_BE \<Rightarrow> 2 | IoSchedClass_IDLE \<Rightarrow> 3)"

definition child_setup :: "'p platform \<Rightarrow> service \<Rightarrow> string option \<Rightarrow> 'p init_state \<Rightarrow> 'p init_state" where
  "child_setup P x scon s =
     (let s = child_env P x s;
          s = snd (syscall P ''setsockcreatecon'' (case scon of None \<Rightarrow> [] | Some c \<Rightarrow> [Str c]) s);
          s = fold (child_socket P) (sockets x) s;
          s = snd (syscall P ''setsockcreatecon'' [] s);
          s = (if ioprio_class x \<noteq> IoSchedClass_NONE then
                 let (r, s) = syscall P ''android_set_ioprio'' [Num (ioprio_number (ioprio_class x)), Num (ioprio_pri x)] s
                 in if r \<noteq> 0 then ERROR ''Failed to set ioprio'' s else s
               else s);
          s = (if has_flag x SVC_CONSOLE then open_console P (snd (syscall P ''setsid'' [] s)) else zap_stdio P s)
      in snd (syscall P ''setpgid'' [Num 0] s))"

text \<open>One of the calls that give up privileges. The child ends when it fails: then the flag is
  False and nothing more is done.\<close>

definition child_drop :: "'p platform \<Rightarrow> bool \<Rightarrow> string \<Rightarrow> sys_arg list \<Rightarrow> bool \<times> 'p init_state \<Rightarrow> bool \<times> 'p init_state" where
  "child_drop P needed call a =
     (\<lambda>(alive, s).
        if alive \<and> needed then
          let (r, s) = syscall P call a s
          in if r \<noteq> 0 then (False, emit (Exit 127) (ERROR (call @ '' failed'') s)) else (True, s)
        else (alive, s))"

definition child_ids :: "'p platform \<Rightarrow> service \<Rightarrow> 'p init_state \<Rightarrow> bool \<times> 'p init_state" where
  "child_ids P x s =
     (let r = child_drop P (gid x \<noteq> 0) ''setgid'' [Num (uint (gid x))] (True, s);
          r = child_drop P (supp_gids x \<noteq> []) ''setgroups'' (map (\<lambda>g. Num (uint g)) (supp_gids x)) r;
          (alive, s) = child_drop P (uid x \<noteq> 0) ''setuid'' [Num (uint (uid x))] r
      in if alive \<and> seclabel x \<noteq> None \<and> is_selinux_enabled P then
           let (rc, s) = syscall P ''setexeccon'' [Str (the (seclabel x))] s
           in if rc < 0 then (False, emit (Exit 127) (ERROR ''cannot setexeccon'' s)) else (True, s)
         else (alive, s))"

text \<open>strsep with a blank as separator, until the string is used up.\<close>

function strsep_words :: "string \<Rightarrow> string list" where
  "strsep_words t =
     (case strchr t (CHR '' '') of
        None \<Rightarrow> [t]
      | Some r \<Rightarrow> take (length t - length r) t # strsep_words (tl r))"
  by pat_completeness auto
termination
  by (relation "measure length") (use strchr_Some in \<open>fastforce dest: strchr_Some\<close>)+

declare strsep_words.simps [simp del]

text \<open>The loop that copies the dynamic arguments: \<open>idx\<close> is the next free entry.\<close>

fun copy_words :: "nat \<Rightarrow> string list \<Rightarrow> string list" where
  "copy_words idx [] = []"
| "copy_words idx (w # ws) = w # (if idx + 1 = INIT_PARSER_MAXARGS then [] else copy_words (idx + 1) ws)"

definition exec_args :: "service \<Rightarrow> string option \<Rightarrow> string list" where
  "exec_args x dynamic_args =
     (case dynamic_args of
        None \<Rightarrow> svc_args x
      | Some d \<Rightarrow> svc_args x @ copy_words (length (svc_args x)) (strsep_words d))"

text \<open>The child ends in execve, or with the exit that follows when execve returns.\<close>

definition service_child :: "'p platform \<Rightarrow> service \<Rightarrow> string option \<Rightarrow> string option \<Rightarrow> 'p init_state \<Rightarrow> effect list" where
  "service_child P x dynamic_args scon s =
     (let (alive, s) = child_ids P x (child_setup P x scon (s\<lparr>effects := []\<rparr>)) in
      if \<not> alive then effects s
      else
        let (r, s) = sys (sys_result P) (emit (Execve (hd (svc_args x)) (exec_args x dynamic_args) (ENV s)) s)
        in if r < 0
           then effects (emit (Exit 127) (if dynamic_args = None then ERROR ''cannot execve'' s else s))
           else effects s)"

subsection \<open>Starting\<close>

text \<open>The label of the child's sockets: None when the start is given up.\<close>

definition start_context :: "'p platform \<Rightarrow> service \<Rightarrow> string option option" where
  "start_context P x =
     (if \<not> is_selinux_enabled P then Some None
      else case seclabel x of
          Some l \<Rightarrow> Some (Some l)
        | None \<Rightarrow> (case exec_context P (hd (svc_args x)) of None \<Rightarrow> None | Some c \<Rightarrow> Some (Some c)))"

definition service_forked :: "'p platform \<Rightarrow> nat \<Rightarrow> int \<Rightarrow> 'p init_state \<Rightarrow> 'p init_state" where
  "service_forked P i child s =
     (if child < 0 then upd_svc i (\<lambda>x. x\<lparr>pid := 0\<rparr>) (ERROR ''failed to start'' s)
      else
        let (now, s) = gettime P s;
            s = upd_svc i (\<lambda>x. set_flags SVC_RUNNING (x\<lparr>time_started := now, pid := child\<rparr>)) s
        in if property_area_inited s then notify_service_state P (svc_name (svc s i)) ''running'' s else s)"

definition service_start :: "'p platform \<Rightarrow> nat \<Rightarrow> string option \<Rightarrow> 'p init_state \<Rightarrow> 'p init_state" where
  "service_start P i dynamic_args s =
     (let s = upd_svc i (\<lambda>x. (clear_flags (SVC_DISABLED OR SVC_RESTARTING OR SVC_RESET OR SVC_RESTART) x)\<lparr>time_started := 0\<rparr>) s in
      if has_flag (svc s i) SVC_RUNNING then s
      else if has_flag (svc s i) SVC_CONSOLE \<and> \<not> have_console s
      then upd_svc i (set_flags SVC_DISABLED) (ERROR ''service requires console'' s)
      else
        let (present, s) = sys (\<lambda>n. sys_stat P n (hd (svc_args (svc s i)))) s in
        if \<not> present then upd_svc i (set_flags SVC_DISABLED) (ERROR ''cannot find the program'' s)
        else if \<not> has_flag (svc s i) SVC_ONESHOT \<and> dynamic_args \<noteq> None
        then upd_svc i (set_flags SVC_DISABLED) (ERROR ''service must be one-shot to use dynamic args'' s)
        else case start_context P (svc s i) of
            None \<Rightarrow> ERROR ''could not get context'' s
          | Some scon \<Rightarrow>
              let (child, s) = sys (sys_fork P) s;
                  s = (if child < 0 then s else emit (Spawn (service_child P (svc s i) dynamic_args scon s)) s)
              in service_forked P i child s)"

subsection \<open>Stopping and restarting\<close>

definition SIGKILL :: int where "SIGKILL = 9"

definition service_stop_or_reset :: "'p platform \<Rightarrow> nat \<Rightarrow> u32 \<Rightarrow> 'p init_state \<Rightarrow> 'p init_state" where
  "service_stop_or_reset P i how s =
     (let s = upd_svc i (clear_flags SVC_RESTARTING) s;
          how = (if how \<noteq> SVC_DISABLED \<and> how \<noteq> SVC_RESET \<and> how \<noteq> SVC_RESTART then SVC_DISABLED else how);
          s = (if how = SVC_RESET
               then upd_svc i (\<lambda>x. set_flags (if has_flag x SVC_RC_DISABLED then SVC_DISABLED else SVC_RESET) x) s
               else upd_svc i (set_flags how) s)
      in if pid (svc s i) \<noteq> 0
         then notify_service_state P (svc_name (svc s i)) ''stopping'' (emit (Kill (- pid (svc s i))) s)
         else notify_service_state P (svc_name (svc s i)) ''stopped'' s)"

definition service_reset :: "'p platform \<Rightarrow> nat \<Rightarrow> 'p init_state \<Rightarrow> 'p init_state" where
  "service_reset P i = service_stop_or_reset P i SVC_RESET"

definition service_stop :: "'p platform \<Rightarrow> nat \<Rightarrow> 'p init_state \<Rightarrow> 'p init_state" where
  "service_stop P i = service_stop_or_reset P i SVC_DISABLED"

definition service_restart :: "'p platform \<Rightarrow> nat \<Rightarrow> 'p init_state \<Rightarrow> 'p init_state" where
  "service_restart P i s =
     (if has_flag (svc s i) SVC_RUNNING then service_stop_or_reset P i SVC_RESTART s
      else if \<not> has_flag (svc s i) SVC_RESTARTING then service_start P i None s
      else s)"

definition restart_service_if_needed :: "'p platform \<Rightarrow> nat \<Rightarrow> 'p init_state \<Rightarrow> 'p init_state" where
  "restart_service_if_needed P i s =
     (let next_start_time = time_started (svc s i) + 5; (now, s) = gettime P s in
      if next_start_time \<le> now then service_start P i None (upd_svc i (clear_flags SVC_RESTARTING) s)
      else if next_start_time < process_needs_restart s \<or> process_needs_restart s = 0
      then s\<lparr>process_needs_restart := next_start_time\<rparr>
      else s)"

definition restart_processes :: "'p platform \<Rightarrow> 'p init_state \<Rightarrow> 'p init_state" where
  "restart_processes P s =
     service_for_each_flags SVC_RESTARTING (restart_service_if_needed P) (s\<lparr>process_needs_restart := 0\<rparr>)"

text \<open>The exit of a service's process, up to its onrestart commands: the flag tells whether
  they are run.\<close>

definition CRITICAL_CRASH_THRESHOLD :: int where "CRITICAL_CRASH_THRESHOLD = 4"
definition CRITICAL_CRASH_WINDOW :: int where "CRITICAL_CRASH_WINDOW = 4 * 60"

definition mark_restarting :: "nat \<Rightarrow> 'p init_state \<Rightarrow> 'p init_state" where
  "mark_restarting i = upd_svc i (\<lambda>x. set_flags SVC_RESTARTING (clear_flags SVC_RESTART x))"

definition service_crashed :: "'p platform \<Rightarrow> nat \<Rightarrow> 'p init_state \<Rightarrow> bool \<times> 'p init_state" where
  "service_crashed P i s =
     (let (now, s) = gettime P s in
      if has_flag (svc s i) SVC_CRITICAL \<and> \<not> has_flag (svc s i) SVC_RESTART then
        if time_crashed (svc s i) + CRITICAL_CRASH_WINDOW \<ge> now then
          let s = upd_svc i (\<lambda>x. x\<lparr>nr_crashed := nr_crashed x + 1\<rparr>) s in
          if nr_crashed (svc s i) > CRITICAL_CRASH_THRESHOLD
          then (False, emit (Android_reboot ''RESTART2'' ''recovery'') (ERROR ''critical process exited too often'' s))
          else (True, mark_restarting i s)
        else (True, mark_restarting i (upd_svc i (\<lambda>x. x\<lparr>time_crashed := now, nr_crashed := 1\<rparr>) s))
      else (True, mark_restarting i s))"

definition service_exited :: "'p platform \<Rightarrow> nat \<Rightarrow> int \<Rightarrow> 'p init_state \<Rightarrow> bool \<times> 'p init_state" where
  "service_exited P i p s =
     (let x = svc s i;
          s = (if \<not> has_flag x SVC_ONESHOT \<or> has_flag x SVC_RESTART then emit (Kill (- p)) s else s);
          s = fold (\<lambda>si. emit (Unlink (take 127 (ANDROID_SOCKET_DIR P @ ''/'' @ si_name si)))) (sockets x) s;
          s = upd_svc i (\<lambda>x. clear_flags SVC_RUNNING (x\<lparr>pid := 0\<rparr>)) s;
          s = (if has_flag (svc s i) SVC_ONESHOT \<and> \<not> has_flag (svc s i) SVC_RESTART
               then upd_svc i (set_flags SVC_DISABLED) s else s)
      in if has_flag (svc s i) (SVC_DISABLED OR SVC_RESET)
         then (False, notify_service_state P (svc_name (svc s i)) ''stopped'' s)
         else service_crashed P i s)"

subsection \<open>Control messages\<close>

definition msg_start :: "'p platform \<Rightarrow> string \<Rightarrow> 'p init_state \<Rightarrow> 'p init_state" where
  "msg_start P name s =
     (let (n, a) = (case strchr name (CHR '':'') of
                      None \<Rightarrow> (name, None)
                    | Some r \<Rightarrow> (take (length name - length r) name, Some (tl r)))
      in case service_find_by_name n s of
          Some i \<Rightarrow> service_start P i a s
        | None \<Rightarrow> ERROR ''no such service'' s)"

definition msg_stop :: "'p platform \<Rightarrow> string \<Rightarrow> 'p init_state \<Rightarrow> 'p init_state" where
  "msg_stop P name s =
     (case service_find_by_name name s of Some i \<Rightarrow> service_stop P i s | None \<Rightarrow> ERROR ''no such service'' s)"

definition msg_restart :: "'p platform \<Rightarrow> string \<Rightarrow> 'p init_state \<Rightarrow> 'p init_state" where
  "msg_restart P name s =
     (case service_find_by_name name s of Some i \<Rightarrow> service_restart P i s | None \<Rightarrow> ERROR ''no such service'' s)"

definition handle_control_message :: "'p platform \<Rightarrow> string \<Rightarrow> string \<Rightarrow> 'p init_state \<Rightarrow> 'p init_state" where
  "handle_control_message P msg arg s =
     (if \<not> strcmp msg ''start'' then msg_start P arg s
      else if \<not> strcmp msg ''stop'' then msg_stop P arg s
      else if \<not> strcmp msg ''restart'' then msg_restart P arg s
      else ERROR ''unknown control msg'' s)"

text \<open>A request on the socket. A message of another size is None of sys_recv.\<close>

definition set_request :: "'p platform \<Rightarrow> u32 \<Rightarrow> u32 \<Rightarrow> string \<Rightarrow> string \<Rightarrow> int \<Rightarrow> 'p init_state \<Rightarrow> 'p init_state" where
  "set_request P cuid cgid name val fd s =
     (if \<not> is_legal_property_name P name
      then snd (syscall P ''close'' [Num fd] (ERROR ''sys_prop: illegal property name'' s))
      else
        let (source_ctx, s) = sys (sys_peercon P) s in
        if take 4 name = ''ctl.'' then
          let s = snd (syscall P ''close'' [Num fd] s) in
          if check_control_perms P val cuid cgid source_ctx
          then handle_control_message P (drop 4 name) val s
          else ERROR ''sys_prop: unable to control the service'' s
        else
          let s = (if check_perms P name cuid cgid source_ctx then snd (property_set P name val s)
                   else ERROR ''sys_prop: permission denied'' s)
          in snd (syscall P ''close'' [Num fd] s))"

definition handle_property_set_fd :: "'p platform \<Rightarrow> 'p init_state \<Rightarrow> 'p init_state" where
  "handle_property_set_fd P s =
     (let (fd, s) = syscall P ''accept'' [Num (property_set_fd s)] s in
      if fd < 0 then s
      else
        let (cr, s) = sys (sys_peercred P) s in
        case cr of
          None \<Rightarrow> ERROR ''Unable to receive socket options'' (snd (syscall P ''close'' [Num fd] s))
        | Some (cuid, cgid) \<Rightarrow>
            let (msg, s) = sys (sys_recv P) s in
            (case msg of
               None \<Rightarrow> snd (syscall P ''close'' [Num fd] (ERROR ''sys_prop: mis-match msg size received'' s))
             | Some (cmd, name, val) \<Rightarrow>
                 if cmd = PROP_MSG_SETPROP P
                 then set_request P cuid cgid (cstr (take (PROP_NAME_MAX P - 1) name)) (cstr (take (PROP_VALUE_MAX P - 1) val)) fd s
                 else snd (syscall P ''close'' [Num fd] s)))"

subsection \<open>Key chords\<close>

definition add_service_keycodes :: "nat \<Rightarrow> 'p init_state \<Rightarrow> 'p init_state" where
  "add_service_keycodes i s =
     (case keycodes (svc s i) of
        None \<Rightarrow> s
      | Some ks \<Rightarrow>
          (upd_svc i (\<lambda>x. x\<lparr>keychord_id := keychords_count s + 1\<rparr>) s)
            \<lparr>keychords := keychords s @ [(keychords_count s + 1, ks)], keychords_count := keychords_count s + 1\<rparr>)"

definition keychords_length :: "'p platform \<Rightarrow> 'p init_state \<Rightarrow> int" where
  "keychords_length P s = (\<Sum>(_, ks)\<leftarrow>keychords s. sizeof_input_keychord P + int (length ks) * sizeof_keycode P)"

definition keychord_init :: "'p platform \<Rightarrow> 'p init_state \<Rightarrow> 'p init_state" where
  "keychord_init P s =
     (let s = service_for_each add_service_keycodes s in
      if keychords s = [] then s
      else
        let (fd, s) = open_file P ''/dev/keychord'' s in
        if fd < 0 then ERROR ''could not open /dev/keychord'' s
        else
          let (r, s) = sys (sys_result P) (emit (Keychord_write (keychords s)) (snd (syscall P ''fcntl'' [Num fd, Str ''FD_CLOEXEC''] s)));
              (fd, s) = (if r \<noteq> keychords_length P s then (- 1, snd (syscall P ''close'' [Num fd] (ERROR ''could not configure /dev/keychord'' s)))
                         else (fd, s))
          in s\<lparr>keychords := [], keychord_fd := fd\<rparr>)"

definition handle_keychord :: "'p platform \<Rightarrow> 'p init_state \<Rightarrow> 'p init_state" where
  "handle_keychord P s =
     (let adb_enabled = property_get P ''init.svc.adbd'' s;
          (r, s) = sys (sys_read_u16 P) s
      in case r of
          None \<Rightarrow> ERROR ''could not read keychord id'' s
        | Some k \<Rightarrow>
            if \<not> strcmp adb_enabled ''running'' then
              (case service_find_by_keychord k s of
                 Some i \<Rightarrow> service_start P i None s
               | None \<Rightarrow> ERROR ''service for keychord not found'' s)
            else s)"

subsection \<open>The next command\<close>

text \<open>The first half of execute_one_command: the choice of the command to run.\<close>

definition advance :: "'p init_state \<Rightarrow> 'p init_state" where
  "advance s =
     (if cur_action s = None \<or> cur_command s = None \<or>
         is_last_command (action_list s ! the (cur_action s)) (the (cur_command s))
      then case action_remove_queue_head s of
          (None, s) \<Rightarrow> s\<lparr>cur_action := None, cur_command := None\<rparr>
        | (Some a, s) \<Rightarrow> s\<lparr>cur_action := Some a, cur_command := get_first_command (action_list s ! a)\<rparr>
      else s\<lparr>cur_command := get_next_command (action_list s ! the (cur_action s)) (the (cur_command s))\<rparr>)"

subsection \<open>Flags\<close>

lemma has_flag_bit:
  "has_flag x SVC_DISABLED \<longleftrightarrow> bit (flags x) 0" "has_flag x SVC_ONESHOT \<longleftrightarrow> bit (flags x) 1"
  "has_flag x SVC_RUNNING \<longleftrightarrow> bit (flags x) 2" "has_flag x SVC_RESTARTING \<longleftrightarrow> bit (flags x) 3"
  "has_flag x SVC_CONSOLE \<longleftrightarrow> bit (flags x) 4" "has_flag x SVC_CRITICAL \<longleftrightarrow> bit (flags x) 5"
  "has_flag x SVC_RESET \<longleftrightarrow> bit (flags x) 6" "has_flag x SVC_RC_DISABLED \<longleftrightarrow> bit (flags x) 7"
  "has_flag x SVC_RESTART \<longleftrightarrow> bit (flags x) 8"
  unfolding has_flag_def svc_flags bit_iff_and_push_bit_not_eq_0 by simp_all

lemma bit_svc_flags:
  "bit SVC_DISABLED n \<longleftrightarrow> n = 0" "bit SVC_ONESHOT n \<longleftrightarrow> n = 1" "bit SVC_RUNNING n \<longleftrightarrow> n = 2"
  "bit SVC_RESTARTING n \<longleftrightarrow> n = 3" "bit SVC_CONSOLE n \<longleftrightarrow> n = 4" "bit SVC_CRITICAL n \<longleftrightarrow> n = 5"
  "bit SVC_RESET n \<longleftrightarrow> n = 6" "bit SVC_RC_DISABLED n \<longleftrightarrow> n = 7" "bit SVC_RESTART n \<longleftrightarrow> n = 8"
proof -
  have e: "SVC_DISABLED = 2 ^ 0" "SVC_ONESHOT = 2 ^ 1" "SVC_RUNNING = 2 ^ 2" "SVC_RESTARTING = 2 ^ 3" "SVC_CONSOLE = 2 ^ 4"
    "SVC_CRITICAL = 2 ^ 5" "SVC_RESET = 2 ^ 6" "SVC_RC_DISABLED = 2 ^ 7" "SVC_RESTART = 2 ^ 8"
    by (simp_all add: svc_flags)
  have b: "bit (2 ^ k :: u32) n \<longleftrightarrow> n = k" if "k < 32" for k n
    using that by (auto simp: bit_exp_iff)
  show "bit SVC_DISABLED n \<longleftrightarrow> n = 0" "bit SVC_ONESHOT n \<longleftrightarrow> n = 1" "bit SVC_RUNNING n \<longleftrightarrow> n = 2"
    "bit SVC_RESTARTING n \<longleftrightarrow> n = 3" "bit SVC_CONSOLE n \<longleftrightarrow> n = 4" "bit SVC_CRITICAL n \<longleftrightarrow> n = 5"
    "bit SVC_RESET n \<longleftrightarrow> n = 6" "bit SVC_RC_DISABLED n \<longleftrightarrow> n = 7" "bit SVC_RESTART n \<longleftrightarrow> n = 8"
    unfolding e by (rule b, simp)+
qed

lemma has_flag_or: "has_flag x (a OR b) \<longleftrightarrow> has_flag x a \<or> has_flag x b"
  by (auto simp: has_flag_def bit_eq_iff bit_simps) 

subsection \<open>Dynamic arguments\<close>

fun join_words :: "string list \<Rightarrow> string" where
  "join_words [] = []"
| "join_words [w] = w"
| "join_words (w # ws) = w @ '' '' @ join_words ws"

lemma strsep_join:
  assumes "ws \<noteq> []" and "\<And>w. w \<in> set ws \<Longrightarrow> CHR '' '' \<notin> set w"
  shows "strsep_words (join_words ws) = ws"
  using assms
proof (induction ws rule: join_words.induct)
  case (2 w)
  then have "strchr w (CHR '' '') = None" by (simp add: strchr_None)
  then show ?case by (simp add: strsep_words.simps)
next
  case (3 w v ws)
  let ?r = "join_words (v # ws)"
  have "strchr (w @ CHR '' '' # ?r) (CHR '' '') = Some (CHR '' '' # ?r)" by (rule strchr_append) (use 3 in simp)
  then have "strsep_words (w @ CHR '' '' # ?r) = w # strsep_words ?r" by (simp add: strsep_words.simps [of "w @ _"])
  then show ?case using 3 by simp
qed simp

lemma copy_words_take: "idx < INIT_PARSER_MAXARGS \<Longrightarrow> copy_words idx ws = take (INIT_PARSER_MAXARGS - idx) ws"
proof (induction idx ws rule: copy_words.induct)
  case (2 idx w ws)
  have "INIT_PARSER_MAXARGS - idx = Suc (INIT_PARSER_MAXARGS - Suc idx)" using 2(2) by simp
  then show ?case using 2 by auto
qed simp

text \<open>C38: The program of a well-formed service gets its own arguments followed by the words of
  the dynamic ones, cut off so that the array of 65 pointers, the terminating one included,
  is never overrun.\<close>

theorem exec_args_bounded:
  assumes "service_ok x" and "ws \<noteq> []" and "list_all (\<lambda>w. CHR '' '' \<notin> set w) ws"
  shows "exec_args x (Some (join_words ws)) = svc_args x @ take (INIT_PARSER_MAXARGS - length (svc_args x)) ws \<and>
    length (exec_args x (Some (join_words ws))) < INIT_PARSER_MAXARGS + 1"
proof -
  have "strsep_words (join_words ws) = ws" by (rule strsep_join) (use assms(2,3) in \<open>auto simp: list_all_iff\<close>)
  moreover have "length (svc_args x) < INIT_PARSER_MAXARGS"
    using assms(1) by (auto simp: service_ok_def INIT_PARSER_MAXARGS_def)
  ultimately show ?thesis by (simp add: exec_args_def copy_words_take)
qed

theorem exec_args_bounded_witness:
  "exec_args (zero_service\<lparr>svc_name := ''dhcpcd'', svc_args := [''/system/bin/dhcpcd'', ''-aABKL'']\<rparr>) (Some (join_words [''-h'', ''wlan0''])) =
     [''/system/bin/dhcpcd'', ''-aABKL'', ''-h'', ''wlan0'']"
proof -
  let ?x = "zero_service\<lparr>svc_name := ''dhcpcd'', svc_args := [''/system/bin/dhcpcd'', ''-aABKL'']\<rparr>"
  have "service_ok ?x"
    by (simp add: service_ok_def zero_service_def valid_name_def isalnum_def isalpha_def isupper_def islower_def code_def
        INIT_PARSER_MAXARGS_def)
  from exec_args_bounded [OF this, of "[''-h'', ''wlan0'']"] show ?thesis by (simp add: INIT_PARSER_MAXARGS_def)
qed

subsection \<open>Requests without permission\<close>

lemma quiet_denied:
  assumes "\<not> (if take 4 name = ''ctl.'' then check_control_perms P val u g (sys_peercon P (nsys s))
      else check_perms P name u g (sys_peercon P (nsys s)))"
  shows "quiet s (set_request P u g name val fd s)"
proof -
  obtain ctx t where t: "sys (sys_peercon P) s = (ctx, t)" by fastforce
  have "quiet s t" "ctx = sys_peercon P (nsys s)" using quiet_sys [of s "sys_peercon P"] t by (auto simp: sys_def)
  then show ?thesis using assms by (simp add: set_request_def Let_def t quiet_emitI quiet_sysI split: if_splits)
qed

text \<open>C27: A request on the property socket without the permission it needs changes nothing: no
  property, no service and no queued action, only log and trace.\<close>

theorem property_request_denied:
  assumes "sys_peercred P (nsys s + 1) = Some (u, g)" and "sys_recv P (nsys s + 2) = Some (cmd, n, v)"
    and "name = cstr (take (PROP_NAME_MAX P - 1) n)" and "val = cstr (take (PROP_VALUE_MAX P - 1) v)"
    and "\<not> (if take 4 name = ''ctl.'' then check_control_perms P val u g (sys_peercon P (nsys s + 3))
          else check_perms P name u g (sys_peercon P (nsys s + 3)))"
  shows "quiet s (handle_property_set_fd P s)"
proof -
  obtain fd t where t: "syscall P ''accept'' [Num (property_set_fd s)] s = (fd, t)" by fastforce
  have q: "quiet s t" "nsys t = nsys s + 1" using quiet_sysD(2) [OF t quiet_refl] t by (auto simp: syscall_def sys_def)
  let ?t = "t\<lparr>nsys := nsys s + 3\<rparr>"
  have "quiet s ?t" using q(1) by (cases s; cases t) (simp add: quiet_def)
  moreover have "quiet ?t (set_request P u g name val fd ?t)" by (rule quiet_denied) (use assms(5) in \<open>simp split: if_splits\<close>)
  ultimately have "quiet s (set_request P u g name val fd ?t)" "quiet s (snd (syscall P ''close'' [Num fd] ?t))"
    using quiet_trans quiet_sysI(2) by blast+
  moreover have "?t = t\<lparr>nsys := Suc (Suc (Suc (nsys s)))\<rparr>" by (simp add: eval_nat_numeral)
  ultimately show ?thesis using q assms(1-4) by (simp add: handle_property_set_fd_def Let_def t sys_def)
qed

definition app_platform :: "(string \<Rightarrow> string option) platform" where
  "app_platform = map_platform\<lparr>sys_peercred := (\<lambda>_. Some (10001, 10001)), sys_recv := (\<lambda>_. Some (1, ''ctl.stop'', ''adbd''))\<rparr>"

theorem property_request_denied_witness:
  "quiet empty_init (handle_property_set_fd app_platform empty_init)"
proof -
  have "take 4 ''ctl.stop'' = ''ctl.''" by (simp add: eval_nat_numeral)
  moreover have "\<not> check_control_perms app_platform ''adbd'' 10001 10001 c" for c
    by (simp add: app_platform_def map_platform_def check_control_perms_def control_perms_def strcmp_def)
  ultimately have "\<not> (if take 4 ''ctl.stop'' = ''ctl.'' then check_control_perms app_platform ''adbd'' 10001 10001 c
      else check_perms app_platform ''ctl.stop'' 10001 10001 c)" for c
    by (simp only: if_True) simp
  then show ?thesis
    by (intro property_request_denied [where u = 10001 and g = 10001 and n = "''ctl.stop''" and v = "''adbd''" and cmd = 1
          and name = "''ctl.stop''" and val = "''adbd''"])
      (simp_all add: app_platform_def map_platform_def NUL_def)
qed

end
