(* ===== verification/Init_Frame.thy ===== *)
theory Init_Frame
  imports Init_Service
begin

text \<open>
  What the operations of init leave alone. A property of the handlers is stated as a
  preorder on states that every operation respects: the locale \<open>init_steps\<close> asks this of the
  operations on services, properties and the action queue, and the theories that follow
  prove it once for every command, handler and round of the main loop. The locale
  \<open>init_moves\<close> asks less, namely the same of the assignments these operations are made of, and
  gives the other.
\<close>

subsection \<open>Small steps\<close>

text \<open>A step that changes neither services nor actions nor properties.\<close>

definition minor :: "'p init_state \<Rightarrow> 'p init_state \<Rightarrow> bool" where
  "minor s t \<longleftrightarrow> t = s\<lparr>persistent_properties_loaded := persistent_properties_loaded t, property_set_fd := property_set_fd t,
     signal_recv_fd := signal_recv_fd t, keychord_fd := keychord_fd t, have_console := have_console t,
     console_name := console_name t, process_needs_restart := process_needs_restart t, keychords := keychords t,
     keychords_count := keychords_count t, mtd_part_map := mtd_part_map t, mtd_part_count := mtd_part_count t,
     property_triggers_enabled := property_triggers_enabled t, ENV := ENV t, nsys := nsys t, effects := effects t\<rparr>"

lemma minor_trans: "minor s t \<Longrightarrow> minor t u \<Longrightarrow> minor s u"
  by (cases s; cases t; cases u) (simp add: minor_def)

lemma minor_quiet: "quiet s t \<Longrightarrow> minor s t"
  by (cases s; cases t) (simp add: quiet_def minor_def)

lemma minor_same:
  assumes "minor s t"
  shows "service_list t = service_list s" "action_list t = action_list s" "action_queue t = action_queue s"
    "cur_action t = cur_action s" "cur_command t = cur_command s" "props t = props s"
  using assms by (cases s; cases t; simp add: minor_def)+

lemma minor_fields [simp]:
  "minor s (s\<lparr>persistent_properties_loaded := b\<rparr>)" "minor s (s\<lparr>property_set_fd := i\<rparr>)" "minor s (s\<lparr>signal_recv_fd := i\<rparr>)"
  "minor s (s\<lparr>have_console := b\<rparr>)" "minor s (s\<lparr>console_name := n\<rparr>)" "minor s (s\<lparr>process_needs_restart := i\<rparr>)"
  "minor s (s\<lparr>keychords := ks, keychord_fd := i\<rparr>)" "minor s (s\<lparr>keychords := ks, keychords_count := i\<rparr>)"
  "minor s (s\<lparr>mtd_part_map := mm, mtd_part_count := i\<rparr>)" "minor s (s\<lparr>mtd_part_count := i\<rparr>)"
  "minor s (s\<lparr>property_triggers_enabled := b\<rparr>)" "minor s (s\<lparr>ENV := e\<rparr>)"
  by (cases s; simp add: minor_def)+

subsection \<open>Setting properties\<close>

definition prop_step :: "'p init_state \<Rightarrow> 'p init_state \<Rightarrow> bool" where
  "prop_step s t \<longleftrightarrow> t = s\<lparr>props := props t, action_queue := action_queue t, nsys := nsys t, effects := effects t\<rparr> \<and>
     (queue_ok s \<longrightarrow> queue_ok t) \<and> (\<exists>q. action_queue t = action_queue s @ q)"

lemma prop_step_trans:
  assumes "prop_step s t" and "prop_step t u"
  shows "prop_step s u"
proof -
  obtain q r where "action_queue t = action_queue s @ q" "action_queue u = action_queue t @ r"
    using assms unfolding prop_step_def by blast
  then have "\<exists>q. action_queue u = action_queue s @ q" by simp
  then show ?thesis using assms by (cases s; cases t; cases u) (simp add: prop_step_def)
qed

lemma prop_step_quiet: "quiet s t \<Longrightarrow> prop_step s t"
  by (cases s; cases t) (simp add: quiet_def prop_step_def queue_ok_def)

lemma prop_step_props: "prop_step s (s\<lparr>props := p\<rparr>)"
  by (cases s) (simp add: prop_step_def queue_ok_def)

lemma prop_step_triggers:
  "prop_step s (queue_property_triggers n v s)" "prop_step s (action_for_each_trigger n action_add_queue_tail s)"
  using queue_ok_trigger [of s] unfolding prop_step_def
  by (cases s; simp add: queue_property_triggers_def action_for_each_trigger_def action_loop_add)+

lemma prop_step_same:
  assumes "prop_step s t"
  shows "service_list t = service_list s" "action_list t = action_list s" "cur_action t = cur_action s"
    "cur_command t = cur_command s" "have_console t = have_console s" "queue_ok s \<Longrightarrow> queue_ok t"
    "property_area_inited t = property_area_inited s" "process_needs_restart t = process_needs_restart s" "ENV t = ENV s"
    "property_triggers_enabled t = property_triggers_enabled s"
  using assms by (cases s; cases t; simp add: prop_step_def)+

lemma prop_step_tail: "prop_step s t \<Longrightarrow> \<exists>q. action_queue t = action_queue s @ q"
  by (simp add: prop_step_def)

lemma quiet_persistent: "quiet s (write_persistent_property P n v s)"
  by (auto simp: write_persistent_property_def Let_def split: prod.splits option.splits intro!: quiet_emitI
      elim!: quiet_sysD intro: quiet_refl)

lemma quiet_reload: "quiet s (selinux_reload_policy P s)"
  by (auto simp: selinux_reload_policy_def selinux_is_disabled_def Let_def split: prod.splits if_splits intro!: quiet_emitI
      elim!: quiet_sysD intro: quiet_refl)

lemma prop_step_store: "prop_step s (snd (store_property P n v s))"
  using prop_step_props prop_step_trans [OF prop_step_props prop_step_quiet [OF quiet_emit(2)]]
  by (auto simp: store_property_def prop_step_quiet Let_def split: prod.splits option.splits)

lemma prop_step_changed: "prop_step s (property_changed n v s)"
  by (simp add: property_changed_def prop_step_triggers prop_step_quiet)

lemma prop_step_afterwards:
  assumes "prop_step s t"
  shows "prop_step s (property_changed n v t)" and "prop_step s (write_persistent_property P n v t)"
    and "prop_step s (selinux_reload_policy P t)"
  using assms prop_step_trans prop_step_changed prop_step_quiet quiet_persistent quiet_reload by blast+

lemma prop_step_set_plain:
  assumes "\<not> net_prefix n \<or> n = ''net.change''"
  shows "prop_step s (snd (property_set P n v s))"
proof -
  obtain ret t where t: "store_property P n v s = (ret, t)" by fastforce
  have st: "prop_step s t" using prop_step_store [of s P n v] t by simp
  show ?thesis
    using assms by (subst property_set.simps) (simp add: t st strcmp_def Let_def prop_step_afterwards)
qed

lemma prop_step_set: "prop_step s (snd (property_set P n v s))"
proof (cases "net_prefix n \<and> n \<noteq> ''net.change''")
  case True
  obtain ret t where t: "store_property P n v s = (ret, t)" by fastforce
  have st: "prop_step s t" using prop_step_store [of s P n v] t by simp
  have "prop_step s (snd (property_set P ''net.change'' n t))" using prop_step_trans [OF st prop_step_set_plain] by blast
  then show ?thesis
    using True by (subst property_set.simps) (simp add: t st strcmp_def Let_def prop_step_afterwards)
qed (use prop_step_set_plain in blast)

lemma prop_step_notify: "prop_step s (notify_service_state P n v s)"
  by (simp add: notify_service_state_def prop_step_set prop_step_quiet)

lemma prop_step_error: "prop_step s t \<Longrightarrow> prop_step s (ERROR m t)"
  using prop_step_trans prop_step_quiet quiet_emit(2) by blast

lemma prop_step_queue_all: "prop_step s (queue_all_property_triggers P s) \<and> props (queue_all_property_triggers P s) = props s"
proof -
  have body: "queue_all_body P a s = s\<lparr>action_queue := action_queue (queue_all_body P a s), effects := effects (queue_all_body P a s)\<rparr>"
    for a and s :: "'a init_state"
    by (cases s) (simp add: queue_all_body_def Let_def action_add_queue_tail_def ERROR_def emit_def split: option.split)
  have "queue_all_loop P as s = s\<lparr>action_queue := action_queue (queue_all_loop P as s), effects := effects (queue_all_loop P as s)\<rparr>"
    for as and s :: "'a init_state"
  proof (induction as arbitrary: s)
    case (Cons a as)
    let ?b = "queue_all_body P a s"
    have "queue_all_loop P as ?b = ?b\<lparr>action_queue := action_queue (queue_all_loop P as ?b), effects := effects (queue_all_loop P as ?b)\<rparr>"
      by (rule Cons.IH)
    moreover have "?b\<lparr>action_queue := q, effects := e\<rparr> = s\<lparr>action_queue := q, effects := e\<rparr>" for q e
      by (subst body) simp
    ultimately show ?case by simp
  qed simp
  from this [of "[0..<length (action_list s)]" s]
  have e: "queue_all_property_triggers P s =
      s\<lparr>action_queue := action_queue (queue_all_property_triggers P s), effects := effects (queue_all_property_triggers P s)\<rparr>"
    by (simp add: queue_all_property_triggers_def)
  have "props (queue_all_property_triggers P s) = props s" "nsys (queue_all_property_triggers P s) = nsys s" by (subst e, simp)+
  moreover have "\<exists>q. action_queue (queue_all_property_triggers P s) = action_queue s @ q"
    by (simp add: queue_all_property_triggers_def queue_all_loop_queue)
  ultimately show ?thesis using e queue_ok_all [of s P] unfolding prop_step_def by simp
qed

subsection \<open>Preorders on states\<close>

text \<open>The part of a service that only the parser sets.\<close>

definition static :: "service \<Rightarrow> service" where
  "static x = x\<lparr>flags := 0, pid := 0, time_started := 0, time_crashed := 0, nr_crashed := 0, keychord_id := 0\<rparr>"

lemma static_simps [simp]:
  "static (set_flags f x) = static x" "static (clear_flags f x) = static x" "static (x\<lparr>pid := p\<rparr>) = static x"
  "static (x\<lparr>time_started := t\<rparr>) = static x" "static (x\<lparr>keychord_id := k\<rparr>) = static x"
  "static (x\<lparr>time_started := t, pid := p\<rparr>) = static x" "static (x\<lparr>nr_crashed := n\<rparr>) = static x" "static (x\<lparr>time_crashed := t\<rparr>) = static x"
  "static (x\<lparr>time_crashed := t, nr_crashed := n\<rparr>) = static x"
  by (simp_all add: static_def set_flags_def clear_flags_def)

locale init_steps =
  fixes P :: "'p platform" and R :: "'p init_state \<Rightarrow> 'p init_state \<Rightarrow> bool"
  assumes R_trans: "R s t \<Longrightarrow> R t u \<Longrightarrow> R s u"
    and R_minor: "minor s t \<Longrightarrow> R s t"
    and R_prop: "R s (snd (property_set P n v s))"
    and R_queue: "prop_step s t \<Longrightarrow> props t = props s \<Longrightarrow> R s t"
    and R_start: "R s (service_start P i a s)"
    and R_stop: "R s (service_stop_or_reset P i how s)"
    and R_exit: "i < length (service_list s) \<Longrightarrow> pid (svc s i) = p \<Longrightarrow> 0 < p \<Longrightarrow> R s (snd (service_exited P i p s))"
    and R_chord: "R s (upd_svc i (\<lambda>x. x\<lparr>keychord_id := k\<rparr>) s)"
    and R_clear: "R s (upd_svc i (clear_flags SVC_RESTARTING) s)"

text \<open>A preorder that the choice of the next command respects as well.\<close>

locale init_rounds = init_steps +
  assumes R_advance: "R s (advance s)"

locale init_moves =
  fixes P :: "'p platform" and R :: "'p init_state \<Rightarrow> 'p init_state \<Rightarrow> bool"
  assumes M_trans: "R s t \<Longrightarrow> R t u \<Longrightarrow> R s u"
    and M_minor: "minor s t \<Longrightarrow> R s t"
    and M_prop: "R s (snd (property_set P n v s))"
    and M_queue: "prop_step s t \<Longrightarrow> props t = props s \<Longrightarrow> R s t"
    and M_svc: "(\<And>x. static (f x) = static x) \<Longrightarrow> R s (upd_svc i f s)"
begin

lemma M_refl: "R s s"
  using M_minor minor_quiet quiet_refl by blast

lemma M_quiet: "R s t \<Longrightarrow> quiet t u \<Longrightarrow> R s u"
  using M_trans M_minor minor_quiet by blast

lemma M_emit: "R s t \<Longrightarrow> R s (emit e t)" "R s t \<Longrightarrow> R s (ERROR m t)"
  using M_quiet quiet_emit by blast+

lemma M_sys: "sys f t = (r, u) \<Longrightarrow> R s t \<Longrightarrow> R s u"
  using M_quiet quiet_sys [of t f] by simp

lemma M_upd: "R s t \<Longrightarrow> (\<And>x. static (f x) = static x) \<Longrightarrow> R s (upd_svc i f t)"
  using M_trans M_svc by blast

lemma M_notify: "R s t \<Longrightarrow> R s (notify_service_state P n v t)"
  using M_trans M_prop M_refl unfolding notify_service_state_def by (simp add: M_prop M_trans)

lemma M_forked: "R s t \<Longrightarrow> R s (service_forked P i c t)"
  by (auto simp: service_forked_def gettime_def Let_def split: prod.splits intro!: M_upd M_emit M_notify elim: M_sys)

lemma M_start: "R s (service_start P i a s)"
proof -
  define t where "t = upd_svc i (\<lambda>x. (clear_flags (SVC_DISABLED OR SVC_RESTARTING OR SVC_RESET OR SVC_RESTART) x)\<lparr>time_started := 0\<rparr>) s"
  have t: "R s t" unfolding t_def by (rule M_svc) simp
  obtain present u where u: "sys (\<lambda>n. sys_stat P n (hd (svc_args (svc t i)))) t = (present, u)" by fastforce
  obtain c w where w: "sys (sys_fork P) u = (c, w)" by fastforce
  note R = t M_sys [OF u t] M_sys [OF w M_sys [OF u t]]
  show ?thesis
    unfolding service_start_def t_def [symmetric] by (simp add: Let_def u w R M_upd M_emit M_forked split: option.split)
qed

lemma M_stop: "R s (service_stop_or_reset P i how s)"
  by (auto simp: service_stop_or_reset_def Let_def intro!: M_notify M_emit M_upd M_refl)

lemma M_crashed:
  assumes "R s t"
  shows "R s (snd (service_crashed P i t))"
proof -
  obtain now u where u: "sys (sys_gettime P) t = (now, u)" by fastforce
  note R = M_sys [OF u assms]
  show ?thesis by (simp add: service_crashed_def mark_restarting_def gettime_def Let_def u R M_emit M_upd)
qed

lemma M_unlink: "R s t \<Longrightarrow> R s (fold (\<lambda>si. emit (g si)) sis t)"
  by (induction sis arbitrary: t) (simp_all add: M_emit)

lemma M_exit: "R s (snd (service_exited P i p s))"
proof -
  define x where "x = svc s i"
  define t1 where "t1 = (if \<not> has_flag x SVC_ONESHOT \<or> has_flag x SVC_RESTART then emit (Kill (- p)) s else s)"
  define t2 where "t2 = fold (\<lambda>si. emit (Unlink (take 127 (ANDROID_SOCKET_DIR P @ ''/'' @ si_name si)))) (sockets x) t1"
  define t3 where "t3 = upd_svc i (\<lambda>x. clear_flags SVC_RUNNING (x\<lparr>pid := 0\<rparr>)) t2"
  define t4 where "t4 = (if has_flag (svc t3 i) SVC_ONESHOT \<and> \<not> has_flag (svc t3 i) SVC_RESTART
      then upd_svc i (set_flags SVC_DISABLED) t3 else t3)"
  have "R s t1" by (simp add: t1_def M_emit M_refl)
  then have "R s t2" by (simp add: t2_def M_unlink)
  then have "R s t3" by (simp add: t3_def M_upd)
  then have "R s t4" by (simp add: t4_def M_upd)
  then show ?thesis
    unfolding service_exited_def Let_def x_def [symmetric] t1_def [symmetric] t2_def [symmetric] t3_def [symmetric] t4_def [symmetric]
    by (simp add: M_notify M_crashed)
qed

end

sublocale init_moves \<subseteq> init_steps P R
  by unfold_locales (auto intro: M_trans M_minor M_prop M_queue M_start M_stop M_exit M_svc)

subsection \<open>What the operations keep\<close>

definition keeps :: "'p init_state \<Rightarrow> 'p init_state \<Rightarrow> bool" where
  "keeps s t \<longleftrightarrow> action_list t = action_list s \<and> map static (service_list t) = map static (service_list s)"

lemma map_static_upd: "(\<And>x. static (f x) = static x) \<Longrightarrow> map static (xs[i := f (xs ! i)]) = map static xs"
  by (cases "i < length xs") (simp_all add: map_update list_update_same_conv list_update_beyond)

lemma advance_same:
  "service_list (advance s) = service_list s" "action_list (advance s) = action_list s" "props (advance s) = props s"
  by (simp_all add: advance_def action_remove_queue_head_def split: list.split)

interpretation kept: init_moves P keeps for P :: "'p platform"
  by unfold_locales (auto simp: keeps_def minor_same prop_step_same map_static_upd prop_step_same [OF prop_step_set])

interpretation kept: init_rounds P keeps for P :: "'p platform"
  by unfold_locales (simp add: keeps_def advance_same)

lemma service_ok_static: "static x = static y \<Longrightarrow> service_ok x = service_ok y"
  by (cases x; cases y) (simp add: static_def service_ok_def)

lemma keeps_rc_ok:
  assumes "keeps s t"
  shows "rc_ok t = rc_ok s"
proof -
  have m: "map static (service_list t) = map static (service_list s)" and a: "action_list t = action_list s"
    using assms by (simp_all add: keeps_def)
  have "service_ok (static x) = service_ok x" "svc_name (static x) = svc_name x" for x
    by (simp_all add: static_def service_ok_def)
  then have "list_all service_ok xs = list_all service_ok (map static xs)" "map svc_name xs = map svc_name (map static xs)" for xs
    by (simp_all add: list_all_iff)
  then show ?thesis using m a unfolding rc_ok_def by metis
qed

text \<open>The queue and the current command stay inside their lists.\<close>

definition cur_ok :: "'p init_state \<Rightarrow> bool" where
  "cur_ok s \<longleftrightarrow> (case cur_action s of
       None \<Rightarrow> cur_command s = None
     | Some a \<Rightarrow> a < length (action_list s) \<and>
         (case cur_command s of None \<Rightarrow> True | Some c \<Rightarrow> c < length (commands (action_list s ! a))))"

definition run_ok :: "'p init_state \<Rightarrow> bool" where
  "run_ok s \<longleftrightarrow> queue_ok s \<and> cur_ok s"

lemma run_ok_advance: "run_ok s \<Longrightarrow> run_ok (advance s)"
  by (auto simp: run_ok_def queue_ok_def cur_ok_def advance_def action_remove_queue_head_def get_first_command_def
      get_next_command_def is_last_command_def split: option.splits list.splits)

interpretation queued: init_moves P "\<lambda>s t. run_ok s \<longrightarrow> run_ok t" for P :: "'p platform"
proof unfold_locales
  fix s t :: "'p init_state"
  show "run_ok s \<longrightarrow> run_ok t" if "minor s t"
    using minor_same [OF that] by (simp add: run_ok_def queue_ok_def cur_ok_def cong: option.case_cong)
  show r: "run_ok s \<longrightarrow> run_ok t" if "prop_step s t" for t
    using prop_step_same [OF that] by (simp add: run_ok_def cur_ok_def cong: option.case_cong)
  show "run_ok s \<longrightarrow> run_ok (snd (property_set P n v s))" for n v by (rule r [OF prop_step_set])
  show "run_ok s \<longrightarrow> run_ok (upd_svc i f s)" for i f
    by (simp add: run_ok_def queue_ok_def cur_ok_def cong: option.case_cong)
qed auto

interpretation queued: init_rounds P "\<lambda>s t. run_ok s \<longrightarrow> run_ok t" for P :: "'p platform"
  by unfold_locales (simp add: run_ok_advance)

text \<open>Read-only properties.\<close>

interpretation read_only: init_moves P "\<lambda>s t. prop_area_ok P \<longrightarrow> system_property_find P (props s) (''ro.'' @ n) = Some v \<longrightarrow>
    system_property_find P (props t) (''ro.'' @ n) = Some v" for P :: "'p platform" and n v
proof unfold_locales
  fix s :: "'p init_state" and a b
  show "prop_area_ok P \<longrightarrow> system_property_find P (props s) (''ro.'' @ n) = Some v \<longrightarrow>
      system_property_find P (props (snd (property_set P a b s))) (''ro.'' @ n) = Some v"
    using property_set_ro [of P "''ro.'' @ n" n s v a b] by blast
qed (auto simp: minor_same)

interpretation read_only: init_rounds P "\<lambda>s t. prop_area_ok P \<longrightarrow> system_property_find P (props s) (''ro.'' @ n) = Some v \<longrightarrow>
    system_property_find P (props t) (''ro.'' @ n) = Some v" for P :: "'p platform" and n v
  by unfold_locales (simp add: advance_same)

text \<open>Until the next command is chosen, the queue of actions only grows at its end.\<close>

definition extends :: "'p init_state \<Rightarrow> 'p init_state \<Rightarrow> bool" where
  "extends s t \<longleftrightarrow> action_list t = action_list s \<and> cur_action t = cur_action s \<and> cur_command t = cur_command s \<and>
     (\<exists>q. action_queue t = action_queue s @ q)"

lemma extends_prop_step: "prop_step s t \<Longrightarrow> extends s t"
  by (simp add: extends_def prop_step_same prop_step_tail)

interpretation growing: init_moves P extends for P :: "'p platform"
proof unfold_locales
  show "extends s u" if "extends s t" "extends t u" for s t u :: "'p init_state"
    using that by (auto simp: extends_def)
qed (auto simp: extends_prop_step prop_step_set, auto simp: extends_def minor_same)

subsection \<open>The states of a service\<close>

text \<open>A service runs exactly when it has a process, and one that waits for its restart neither
  runs nor is disabled or reset.\<close>

definition svc_inv :: "service \<Rightarrow> bool" where
  "svc_inv x \<longleftrightarrow> (has_flag x SVC_RUNNING \<longleftrightarrow> pid x \<noteq> 0) \<and>
     (has_flag x SVC_RESTARTING \<longrightarrow> \<not> has_flag x SVC_RUNNING \<and> \<not> has_flag x SVC_DISABLED \<and> \<not> has_flag x SVC_RESET)"

definition services_ok :: "'p init_state \<Rightarrow> bool" where
  "services_ok s \<longleftrightarrow> list_all svc_inv (service_list s)"

text \<open>fork returns 0 only in the child.\<close>

definition fork_ok :: "'p platform \<Rightarrow> bool" where
  "fork_ok P \<longleftrightarrow> (\<forall>n. sys_fork P n \<noteq> 0)"

lemma services_ok_upd:
  assumes "services_ok s" and "i < length (service_list s) \<Longrightarrow> svc_inv (svc s i) \<Longrightarrow> svc_inv (f (svc s i))"
  shows "services_ok (upd_svc i f s)"
proof (cases "i < length (service_list s)")
  case True
  then have "svc_inv (f (svc s i))" using assms by (auto simp: services_ok_def list_all_length)
  then show ?thesis using assms(1) by (simp add: services_ok_def list_all_update)
qed (use assms(1) in \<open>simp add: services_ok_def list_update_beyond\<close>)

lemma services_ok_same: "service_list t = service_list s \<Longrightarrow> services_ok t = services_ok s"
  by (simp add: services_ok_def)

lemma services_ok_emit [simp]: "services_ok (emit e s) = services_ok s" "services_ok (ERROR m s) = services_ok s"
  by (simp_all add: services_ok_def)

lemma services_ok_notify: "services_ok (notify_service_state P n v s) = services_ok s"
  using prop_step_same(1) [OF prop_step_notify] by (rule services_ok_same)

lemmas flag_simps = has_flag_bit has_flag_or set_flags_def clear_flags_def bit_svc_flags bit_or_iff bit_and_iff bit_not_iff

lemma services_ok_forked:
  assumes "services_ok s" and "c \<noteq> 0" and "i < length (service_list s) \<Longrightarrow> \<not> has_flag (svc s i) SVC_RUNNING \<and> \<not> has_flag (svc s i) SVC_RESTARTING"
  shows "services_ok (service_forked P i c s)"
proof -
  have "services_ok (upd_svc i (\<lambda>x. x\<lparr>pid := 0\<rparr>) (ERROR m s))" for m
    by (rule services_ok_upd) (use assms in \<open>simp_all add: services_ok_same [of "ERROR m s" s] svc_inv_def flag_simps\<close>)
  moreover have "services_ok (upd_svc i (\<lambda>x. set_flags SVC_RUNNING (x\<lparr>time_started := t, pid := c\<rparr>)) (s\<lparr>nsys := k\<rparr>))" for t k
    by (rule services_ok_upd) (use assms in \<open>simp_all add: services_ok_same [of "s\<lparr>nsys := k\<rparr>" s] svc_inv_def flag_simps\<close>)
  ultimately show ?thesis
    by (simp add: service_forked_def gettime_def sys_def Let_def services_ok_notify)
qed

lemma services_ok_start:
  assumes "services_ok s" and "fork_ok P"
  shows "services_ok (service_start P i a s)"
proof -
  define t where "t = upd_svc i (\<lambda>x. (clear_flags (SVC_DISABLED OR SVC_RESTARTING OR SVC_RESET OR SVC_RESTART) x)\<lparr>time_started := 0\<rparr>) s"
  have t: "services_ok t" unfolding t_def by (rule services_ok_upd) (use assms in \<open>auto simp: svc_inv_def flag_simps\<close>)
  have r: "i < length (service_list t) \<Longrightarrow> \<not> has_flag (svc t i) SVC_RESTARTING"
    by (simp add: t_def flag_simps)
  have same: "services_ok u" if "service_list u = service_list t" for u using t services_ok_same [OF that] by simp
  have dis: "services_ok (upd_svc i (set_flags SVC_DISABLED) u)" if "service_list u = service_list t" for u
    by (rule services_ok_upd) (use t r that in \<open>auto simp: services_ok_def svc_inv_def flag_simps\<close>)
  have fk: "services_ok (service_forked P i c u)" if "service_list u = service_list t" "c \<noteq> 0" "\<not> has_flag (svc t i) SVC_RUNNING" for u c
    by (rule services_ok_forked) (use t r that in \<open>auto simp: services_ok_def\<close>)
  obtain present u where u: "sys (\<lambda>n. sys_stat P n (hd (svc_args (svc t i)))) t = (present, u)" by fastforce
  obtain c w where w: "sys (sys_fork P) u = (c, w)" by fastforce
  have s: "service_list u = service_list t" "service_list w = service_list t" "c \<noteq> 0"
    using u w assms(2) by (auto simp: sys_def fork_ok_def)
  show ?thesis
    unfolding service_start_def t_def [symmetric]
    by (simp add: Let_def u w s t dis fk same split: option.split)
qed

lemma services_ok_stop:
  assumes "services_ok s"
  shows "services_ok (service_stop_or_reset P i how s)"
proof -
  define t where "t = upd_svc i (clear_flags SVC_RESTARTING) s"
  have t: "services_ok t" unfolding t_def by (rule services_ok_upd) (use assms in \<open>auto simp: svc_inv_def flag_simps\<close>)
  have r: "i < length (service_list t) \<Longrightarrow> \<not> has_flag (svc t i) SVC_RESTARTING" by (simp add: t_def flag_simps)
  have f: "services_ok (upd_svc i (\<lambda>x. set_flags (g x) x) t)" if "\<And>x. g x \<in> {SVC_DISABLED, SVC_RESET, SVC_RESTART}" for g
  proof (rule services_ok_upd [OF t])
    assume "i < length (service_list t)" "svc_inv (svc t i)"
    then show "svc_inv (set_flags (g (svc t i)) (svc t i))"
      using r that [of "svc t i"] by (auto simp: svc_inv_def flag_simps)
  qed
  have "services_ok (upd_svc i (set_flags k) t)" if "k \<in> {SVC_DISABLED, SVC_RESET, SVC_RESTART}" for k
    using f [of "\<lambda>_. k"] that by simp
  moreover have "services_ok (upd_svc i (\<lambda>x. set_flags (if has_flag x SVC_RC_DISABLED then SVC_DISABLED else SVC_RESET) x) t)"
    using f [of "\<lambda>x. if has_flag x SVC_RC_DISABLED then SVC_DISABLED else SVC_RESET"] by simp
  ultimately show ?thesis
    unfolding service_stop_or_reset_def t_def [symmetric] Let_def
    by (simp add: services_ok_notify)
qed

lemma services_ok_crashed:
  assumes "services_ok s" and "i < length (service_list s) \<Longrightarrow> \<not> has_flag (svc s i) SVC_RUNNING \<and>
      \<not> has_flag (svc s i) SVC_DISABLED \<and> \<not> has_flag (svc s i) SVC_RESET"
  shows "services_ok (snd (service_crashed P i s))"
proof -
  define t where "t = s\<lparr>nsys := Suc (nsys s)\<rparr>"
  have t: "services_ok t" "service_list t = service_list s" using assms(1) by (simp_all add: t_def services_ok_def)
  have mark: "services_ok (upd_svc i (\<lambda>x. set_flags SVC_RESTARTING (clear_flags SVC_RESTART x)) (upd_svc i f t))"
    if "\<And>x. flags (f x) = flags x" "\<And>x. pid (f x) = pid x" for f
    by (intro services_ok_upd t) (use assms(2) t(2) that in \<open>auto simp: svc_inv_def flag_simps\<close>)
  have upd: "services_ok (upd_svc i f t)" if "\<And>x. flags (f x) = flags x" "\<And>x. pid (f x) = pid x" for f
    by (intro services_ok_upd t) (use that in \<open>simp add: svc_inv_def has_flag_def\<close>)
  have "upd_svc i (\<lambda>x. x) t = t" by (simp add: upd_svc_def)
  then have plain: "services_ok (mark_restarting i t)" using mark [of "\<lambda>x. x"] by (simp add: mark_restarting_def)
  show ?thesis
    unfolding service_crashed_def gettime_def sys_def prod.case t_def [symmetric] Let_def
    by (simp add: plain mark upd) (simp add: mark_restarting_def mark)
qed

lemma service_list_unlink: "service_list (fold (\<lambda>si. emit (g si)) sis s) = service_list s"
  by (induction sis arbitrary: s) simp_all

lemma services_ok_exited:
  assumes "services_ok s" and "i < length (service_list s)" and "0 < pid (svc s i)"
  shows "services_ok (snd (service_exited P i p s))"
proof -
  define x where "x = svc s i"
  define t1 where "t1 = (if \<not> has_flag x SVC_ONESHOT \<or> has_flag x SVC_RESTART then emit (Kill (- p)) s else s)"
  define t2 where "t2 = fold (\<lambda>si. emit (Unlink (take 127 (ANDROID_SOCKET_DIR P @ ''/'' @ si_name si)))) (sockets x) t1"
  define t3 where "t3 = upd_svc i (\<lambda>x. clear_flags SVC_RUNNING (x\<lparr>pid := 0\<rparr>)) t2"
  define t4 where "t4 = (if has_flag (svc t3 i) SVC_ONESHOT \<and> \<not> has_flag (svc t3 i) SVC_RESTART
      then upd_svc i (set_flags SVC_DISABLED) t3 else t3)"
  have l: "service_list t2 = service_list s" by (simp add: t1_def t2_def service_list_unlink)
  have x: "svc_inv x" using assms(1,2) by (auto simp: services_ok_def list_all_length x_def)
  have nr: "\<not> has_flag x SVC_RESTARTING" using x assms(3) by (auto simp: svc_inv_def x_def)
  have t3: "services_ok t3" unfolding t3_def
    by (rule services_ok_upd) (use assms l in \<open>auto simp: services_ok_def svc_inv_def flag_simps\<close>)
  have f3: "\<not> has_flag (svc t3 i) SVC_RUNNING" "\<not> has_flag (svc t3 i) SVC_RESTARTING"
    using assms(2) l nr by (simp_all add: t3_def flag_simps x_def)
  have t4: "services_ok t4" unfolding t4_def
    using t3 services_ok_upd [of t3 i "set_flags SVC_DISABLED"] f3 by (auto simp: svc_inv_def flag_simps)
  have "\<not> has_flag (svc t4 i) SVC_RUNNING" using f3(1) assms(2) l by (simp add: t4_def t3_def flag_simps)
  then have "services_ok (snd (service_crashed P i t4))" if "\<not> has_flag (svc t4 i) (SVC_DISABLED OR SVC_RESET)"
    using services_ok_crashed [OF t4] that by (simp add: has_flag_or)
  then show ?thesis
    unfolding service_exited_def Let_def x_def [symmetric] t1_def [symmetric] t2_def [symmetric] t3_def [symmetric] t4_def [symmetric]
    using t4 by (simp add: services_ok_notify)
qed

interpretation running: init_rounds P "\<lambda>s t. fork_ok P \<longrightarrow> services_ok s \<longrightarrow> services_ok t" for P :: "'p platform"
proof unfold_locales
  fix s t :: "'p init_state" and i p k
  show "fork_ok P \<longrightarrow> services_ok s \<longrightarrow> services_ok t" if "minor s t"
    using services_ok_same [OF minor_same(1) [OF that]] by simp
  show r: "fork_ok P \<longrightarrow> services_ok s \<longrightarrow> services_ok t" if "prop_step s t" for t
    using services_ok_same [OF prop_step_same(1) [OF that]] by simp
  show "fork_ok P \<longrightarrow> services_ok s \<longrightarrow> services_ok (snd (property_set P n v s))" for n v by (rule r [OF prop_step_set])
  show "fork_ok P \<longrightarrow> services_ok s \<longrightarrow> services_ok (upd_svc i (\<lambda>x. x\<lparr>keychord_id := k\<rparr>) s)"
    using services_ok_upd [of s i] by (simp add: svc_inv_def has_flag_def)
  show "fork_ok P \<longrightarrow> services_ok s \<longrightarrow> services_ok (snd (service_exited P i p s))"
    if "i < length (service_list s)" "pid (svc s i) = p" "0 < p"
    using services_ok_exited that by blast
  show "fork_ok P \<longrightarrow> services_ok s \<longrightarrow> services_ok (upd_svc i (clear_flags SVC_RESTARTING) s)"
    using services_ok_upd [of s i] by (simp add: svc_inv_def flag_simps)
qed (auto simp: services_ok_start services_ok_stop services_ok_same [OF advance_same(1)])

end
