(* ===== verification/Init_Logo.thy ===== *)
theory Init_Logo
  imports Init_Frame
begin

text \<open>
  The boot logo, \<^verbatim>\<open>init/init/logo.c\<close>: an image of runs, each a count and a pixel of 16
  bits, is unpacked into the frame buffer.

  The frame buffer is the mapped memory, a list of pixels. An access outside of it, or
  outside of the mapped file, is None.
\<close>

type_synonym u16 = "16 word"

text \<open>android_memset16 on the pixels from \<open>pos\<close> on; \<open>count\<close> is in bytes.\<close>

fun memset16_loop :: "nat \<Rightarrow> u16 \<Rightarrow> nat \<Rightarrow> u16 list \<Rightarrow> u16 list option" where
  "memset16_loop pos val 0 b = Some b"
| "memset16_loop pos val (Suc n) b =
     (if pos < length b then memset16_loop (Suc pos) val n (b[pos := val]) else None)"

definition android_memset16 :: "nat \<Rightarrow> u16 \<Rightarrow> u32 \<Rightarrow> u16 list \<Rightarrow> u16 list option" where
  "android_memset16 pos val count b = memset16_loop pos val (unat (drop_bit 1 count)) b"

text \<open>The loop of load_565rle_image: \<open>runs\<close> is the rest of the file as 16-bit numbers, \<open>count\<close> the
  number of bytes left.\<close>

function rle_loop :: "u16 list \<Rightarrow> u32 \<Rightarrow> nat \<Rightarrow> u32 \<Rightarrow> u16 list \<Rightarrow> u16 list option" where
  "rle_loop runs count bits room b =
     (if count > 3 then
        (case runs of
           p0 # p1 # rs \<Rightarrow>
             let n = ucast p0 :: u32 in
             if n > room then Some b
             else (case android_memset16 bits p1 (push_bit 1 n) b of
                 None \<Rightarrow> None
               | Some b \<Rightarrow> rle_loop rs (count - 4) (bits + unat n) (room - n) b)
         | _ \<Rightarrow> None)
      else Some b)"
  by pat_completeness auto
termination by (relation "measure (\<lambda>(runs, _). length runs)") auto

declare rle_loop.simps [simp del]

definition fb_size :: "u32 \<Rightarrow> u32 \<Rightarrow> u32" where
  "fb_size xres yres = xres * yres * 2"

text \<open>Two bytes of a file make a number, the low byte first.\<close>

fun halfwords :: "string \<Rightarrow> u16 list" where
  "halfwords (a # b # r) = word_of_nat (code a + 256 * code b) # halfwords r"
| "halfwords r = []"

definition decode_565rle :: "string \<Rightarrow> u32 \<Rightarrow> u32 \<Rightarrow> u16 list \<Rightarrow> u16 list option" where
  "decode_565rle data xres yres b = rle_loop (halfwords data) (word_of_nat (length data)) 0 (xres * yres) b"

subsection \<open>Around the decoder\<close>

definition vt_set_mode :: "'p platform \<Rightarrow> bool \<Rightarrow> 'p init_state \<Rightarrow> int \<times> 'p init_state" where
  "vt_set_mode P graphics s =
     (let (fd, s) = open_file P ''/dev/tty0'' s in
      if fd < 0 then (- 1, s)
      else
        let (r, s) = syscall P ''ioctl'' [Num fd, Str ''KDSETMODE'', Str (if graphics then ''KD_GRAPHICS'' else ''KD_TEXT'')] s
        in (r, snd (syscall P ''close'' [Num fd] s)))"

text \<open>The descriptor and the size of the frame buffer, None when it cannot be opened or mapped.\<close>

definition fb_open :: "'p platform \<Rightarrow> 'p init_state \<Rightarrow> (int \<times> u32 \<times> u32) option \<times> 'p init_state" where
  "fb_open P s =
     (let (fd, s) = open_file P ''/dev/graphics/fb0'' s in
      if fd < 0 then (None, s)
      else
        let (vi, s) = sys (fb_var_screeninfo P) s in
        case vi of
          None \<Rightarrow> (None, snd (syscall P ''close'' [Num fd] s))
        | Some (xres, yres) \<Rightarrow>
            let (r, s) = syscall P ''mmap'' [Num fd, Num (uint (fb_size xres yres))] s in
            if r < 0 then (None, snd (syscall P ''close'' [Num fd] s)) else (Some (fd, xres, yres), s))"

definition fb_close :: "'p platform \<Rightarrow> int \<Rightarrow> u32 \<Rightarrow> u32 \<Rightarrow> 'p init_state \<Rightarrow> 'p init_state" where
  "fb_close P fd xres yres s =
     snd (syscall P ''close'' [Num fd] (snd (syscall P ''munmap'' [Num (uint (fb_size xres yres))] s)))"

definition fb_update :: "'p platform \<Rightarrow> 'p init_state \<Rightarrow> 'p init_state" where
  "fb_update P s =
     (let s = snd (syscall P ''ioctl'' [Str ''FBIOPUT_VSCREENINFO'', Num 1] s)
      in snd (syscall P ''ioctl'' [Str ''FBIOPUT_VSCREENINFO'', Num 0] s))"

text \<open>The memory of the frame buffer when it is mapped: as many pixels as the mapping holds.\<close>

definition fb_bits :: "u32 \<Rightarrow> u32 \<Rightarrow> u16 list" where
  "fb_bits xres yres = replicate (unat (fb_size xres yres) div 2) 0"

definition load_565rle_image :: "'p platform \<Rightarrow> string \<Rightarrow> 'p init_state \<Rightarrow> (int \<times> 'p init_state) option" where
  "load_565rle_image P fn s =
     (let (r, s) = vt_set_mode P True s in
      if r \<noteq> 0 then Some (- 1, s)
      else
        let (fd, s) = open_file P fn s in
        if fd < 0 then Some (- 1, snd (vt_set_mode P False (ERROR ''cannot open the image'' s)))
        else
          let (data, s) = sys (\<lambda>n. sys_read P n fn) s in
          case data of
            None \<Rightarrow> Some (- 1, snd (vt_set_mode P False (snd (syscall P ''close'' [Num fd] s))))
          | Some (_, data) \<Rightarrow>
              let (fb, s) = fb_open P s in
              (case fb of
                 None \<Rightarrow>
                   let s = snd (syscall P ''munmap'' [Num (int (length data))] s)
                   in Some (- 1, snd (vt_set_mode P False (snd (syscall P ''close'' [Num fd] s))))
               | Some (fbd, xres, yres) \<Rightarrow>
                   (case decode_565rle data xres yres (fb_bits xres yres) of
                      None \<Rightarrow> None
                    | Some _ \<Rightarrow>
                        let s = fb_update P (snd (syscall P ''munmap'' [Num (int (length data))] s));
                            s = snd (syscall P ''close'' [Num fd] (fb_close P fbd xres yres s))
                        in Some (0, emit (Unlink fn) s))))"

subsection \<open>The decoder is the expansion of the runs\<close>

lemma memset16_loop_result:
  "pos + n \<le> length b \<Longrightarrow> memset16_loop pos val n b = Some (take pos b @ replicate n val @ drop (pos + n) b)"
proof (induction pos val n b rule: memset16_loop.induct)
  case (2 pos val n b)
  have "take (Suc pos) (b[pos := val]) = take pos b @ [val]" "drop (Suc pos + n) (b[pos := val]) = drop (pos + Suc n) b"
    using 2(2) by (simp_all add: take_Suc_conv_app_nth)
  then show ?case using 2 by (simp add: replicate_app_Cons_same)
qed simp

text \<open>The runs that fit into the buffer, one after another.\<close>

fun expand_runs :: "nat \<Rightarrow> u16 list \<Rightarrow> u16 list" where
  "expand_runs room (n # c # r) = (if unat n > room then [] else replicate (unat n) c @ expand_runs (room - unat n) r)"
| "expand_runs room r = []"

lemma expand_runs_length: "length (expand_runs room r) \<le> room"
  by (induction room r rule: expand_runs.induct) auto

lemma unat_ucast16: "unat (ucast (n :: u16) :: u32) = unat n"
  using unsigned_less [of n, where ?'a = nat] by (simp add: unsigned_ucast_eq take_bit_eq_mod)

lemma memset16_run:
  assumes "pos + unat n \<le> length b"
  shows "android_memset16 pos c (push_bit 1 (ucast (n :: u16))) b = Some (take pos b @ replicate (unat n) c @ drop (pos + unat n) b)"
proof -
  have "unat n < 2 ^ 16" using unsigned_less [of n, where ?'a = nat] by simp
  then have "unat ((ucast n :: u32) * 2) = unat n * 2" by (subst unat_mult_lem [THEN iffD1]) (simp_all add: unat_ucast16)
  then have "unat (drop_bit 1 (push_bit 1 (ucast n :: u32))) = unat n"
    unfolding unat_drop_bit_eq by (simp add: drop_bit_eq_div)
  then show ?thesis using memset16_loop_result [OF assms] by (simp add: android_memset16_def)
qed

lemma rle_loop_result:
  assumes "2 * (unat count div 4) \<le> length runs" and "bits + unat room \<le> length b"
  shows "rle_loop runs count bits room b =
    Some (take bits b @ expand_runs (unat room) (take (2 * (unat count div 4)) runs) @
      drop (bits + length (expand_runs (unat room) (take (2 * (unat count div 4)) runs))) b)"
  using assms
proof (induction runs count bits room b rule: rle_loop.induct)
  case (1 runs count bits room b)
  note E = rle_loop.simps [of runs count bits room b]
  show ?case
  proof (cases "count > 3")
    case False
    then have "unat count div 4 = 0" by (simp add: word_less_nat_alt)
    then show ?thesis using False by (simp add: E)
  next
    case True
    then have c: "4 \<le> unat count" by (simp add: word_less_nat_alt)
    then have "1 \<le> unat count div 4" by (simp add: Suc_le_eq div_greater_zero_iff)
    then have "2 \<le> length runs" using 1(2) by simp
    then obtain p0 p1 rs where r: "runs = p0 # p1 # rs" by (cases runs; cases "tl runs") auto
    note E' = E [unfolded r]
    let ?n = "ucast p0 :: u32"
    have c4: "unat (count - 4) = unat count - 4" using c by (simp add: unat_sub word_le_nat_alt)
    then have tk: "take (2 * (unat count div 4)) runs = p0 # p1 # take (2 * (unat (count - 4) div 4)) rs"
      using c r le_div_geq [of 4 "unat count"] by simp
    show ?thesis
    proof (cases "?n > room")
      case big: True
      then have "unat p0 > unat room" by (simp add: word_less_nat_alt unat_ucast16)
      then show ?thesis using True big r tk by (simp add: E')
    next
      case fits: False
      then have n: "unat p0 \<le> unat room" by (simp add: word_less_nat_alt unat_ucast16)
      define b' where "b' = take bits b @ replicate (unat p0) p1 @ drop (bits + unat p0) b"
      have m: "android_memset16 bits p1 (push_bit 1 ?n) b = Some b'"
        unfolding b'_def by (rule memset16_run) (use 1(3) n in simp)
      have mx: "unat (room - ?n) = unat room - unat p0" using n by (simp add: unat_sub word_le_nat_alt unat_ucast16)
      have len: "length b' = length b" using 1(3) n by (simp add: b'_def)
      define e where "e = expand_runs (unat room - unat p0) (take (2 * (unat (count - 4) div 4)) rs)"
      have "rle_loop rs (count - 4) (bits + unat ?n) (room - ?n) b' =
          Some (take (bits + unat ?n) b' @ e @ drop (bits + unat ?n + length e) b')"
        unfolding e_def mx [symmetric]
        by (rule 1(1) [OF True r refl refl fits m]) (use 1(2,3) n c c4 r mx len le_div_geq [of 4 "unat count"] in \<open>auto simp: unat_ucast16\<close>)
      moreover have "take (bits + unat p0) b' = take bits b @ replicate (unat p0) p1"
        "drop (bits + unat p0 + length e) b' = drop (bits + unat p0 + length e) b"
        using 1(3) n by (simp_all add: b'_def add.commute)
      ultimately show ?thesis using True fits r tk n m by (simp add: E' unat_ucast16 e_def add.assoc [symmetric])
    qed
  qed
qed



end
