(* ===== verification/Init_Builtins.thy ===== *)
theory Init_Builtins
  imports Init_Logo
begin

text \<open>
  The commands of rc files, \<^verbatim>\<open>init/init/builtins.c\<close>, the reaping of child processes,
  \<^verbatim>\<open>init/init/signal_handler.c\<close>, and the actions init queues for itself, \<^verbatim>\<open>init/init/init.c\<close>.

  A command gets its argument count and its arguments, the keyword first. The result None
  means that init does not go on: an access outside of an array, a call of exit, or a loop
  that never ends.
\<close>

type_synonym 'p cmd = "'p init_state \<Rightarrow> (int \<times> 'p init_state) option"

definition arg :: "string list \<Rightarrow> nat \<Rightarrow> string option" where
  "arg a i = (if i < length a then Some (a ! i) else None)"

subsection \<open>Files\<close>

definition write_file :: "'p platform \<Rightarrow> string \<Rightarrow> string \<Rightarrow> 'p init_state \<Rightarrow> int \<times> 'p init_state" where
  "write_file P path val s =
     (let (fd, s) = open_file P path s in
      if fd < 0 then (- errno P s, s)
      else
        let (ret, s) = sys (sys_result P) (emit (Write_file path val) s);
            s = emit (Syscall ''close'' [Num fd]) s
        in if ret < 0 then (- errno P s, s) else (0, s))"

definition open_nofollow :: "'p platform \<Rightarrow> string \<Rightarrow> 'p init_state \<Rightarrow> int \<times> 'p init_state" where
  "open_nofollow P path s =
     (let (fd, s) = open_file P path s in if fd < 0 then open_file P path s else (fd, s))"

definition chown_file :: "'p platform \<Rightarrow> string \<Rightarrow> u32 \<Rightarrow> u32 \<Rightarrow> 'p init_state \<Rightarrow> int \<times> 'p init_state" where
  "chown_file P path u g s =
     (let (fd, s) = open_nofollow P path s in
      if fd < 0 then (- 1, s)
      else
        let (ret, s) = syscall P ''fchown'' [Num fd, Num (uint u), Num (uint g)] s;
            s = emit (Syscall ''close'' [Num fd]) s
        in if ret < 0 then (- 1, s) else (0, s))"

definition chmod_file :: "'p platform \<Rightarrow> string \<Rightarrow> u32 \<Rightarrow> 'p init_state \<Rightarrow> int \<times> 'p init_state" where
  "chmod_file P path mode s =
     (let (fd, s) = open_nofollow P path s in
      if fd < 0 then (- 1, s)
      else
        let (ret, s) = syscall P ''fchmod'' [Num fd, Num (uint mode)] s;
            s = emit (Syscall ''close'' [Num fd]) s
        in if ret < 0 then (- 1, s) else (0, s))"

definition insmod :: "'p platform \<Rightarrow> string \<Rightarrow> string \<Rightarrow> 'p init_state \<Rightarrow> int \<times> 'p init_state" where
  "insmod P filename options s =
     (let (module, s) = read_file P filename s in
      case module of None \<Rightarrow> (- 1, s) | Some m \<Rightarrow> syscall P ''init_module'' [Str m, Str options] s)"

definition setkey :: "'p platform \<Rightarrow> u32 \<Rightarrow> u32 \<Rightarrow> u32 \<Rightarrow> 'p init_state \<Rightarrow> int \<times> 'p init_state" where
  "setkey P tab idx val s =
     (let (fd, s) = open_file P ''/dev/tty0'' s in
      if fd < 0 then (- 1, s)
      else
        let (ret, s) = syscall P ''ioctl'' [Num fd, Str ''KDSKBENT'', Num (uint tab), Num (uint idx), Num (uint val)] s
        in (ret, emit (Syscall ''close'' [Num fd]) s))"

definition ifupdown :: "'p platform \<Rightarrow> string \<Rightarrow> bool \<Rightarrow> 'p init_state \<Rightarrow> int \<times> 'p init_state" where
  "ifupdown P interface up s =
     (let name = take 15 interface; (fd, s) = syscall P ''socket'' [Str ''AF_INET''] s in
      if fd < 0 then (- 1, s)
      else
        let (ret, s) = syscall P ''ioctl'' [Num fd, Str ''SIOCGIFFLAGS'', Str name] s;
            (ret, s) = (if ret < 0 then (ret, s)
                        else syscall P ''ioctl'' [Num fd, Str ''SIOCSIFFLAGS'', Str name, Num (if up then 1 else 0)] s)
        in (ret, emit (Syscall ''close'' [Num fd]) s))"

subsection \<open>Services, properties and triggers\<close>

definition service_start_if_not_disabled :: "'p platform \<Rightarrow> nat \<Rightarrow> 'p init_state \<Rightarrow> 'p init_state" where
  "service_start_if_not_disabled P i s = (if \<not> has_flag (svc s i) SVC_DISABLED then service_start P i None s else s)"

definition do_class_start :: "'p platform \<Rightarrow> string list \<Rightarrow> 'p cmd" where
  "do_class_start P a s = do {
     c \<leftarrow> arg a 1; Some (0, service_for_each_class c (service_start_if_not_disabled P) s) }"

definition do_class_stop :: "'p platform \<Rightarrow> string list \<Rightarrow> 'p cmd" where
  "do_class_stop P a s = do { c \<leftarrow> arg a 1; Some (0, service_for_each_class c (service_stop P) s) }"

definition do_class_reset :: "'p platform \<Rightarrow> string list \<Rightarrow> 'p cmd" where
  "do_class_reset P a s = do { c \<leftarrow> arg a 1; Some (0, service_for_each_class c (service_reset P) s) }"

definition do_start :: "'p platform \<Rightarrow> string list \<Rightarrow> 'p cmd" where
  "do_start P a s = do {
     n \<leftarrow> arg a 1;
     Some (0, case service_find_by_name n s of Some i \<Rightarrow> service_start P i None s | None \<Rightarrow> s) }"

definition do_stop :: "'p platform \<Rightarrow> string list \<Rightarrow> 'p cmd" where
  "do_stop P a s = do {
     n \<leftarrow> arg a 1;
     Some (0, case service_find_by_name n s of Some i \<Rightarrow> service_stop P i s | None \<Rightarrow> s) }"

definition do_restart :: "'p platform \<Rightarrow> string list \<Rightarrow> 'p cmd" where
  "do_restart P a s = do {
     n \<leftarrow> arg a 1;
     Some (0, case service_find_by_name n s of Some i \<Rightarrow> service_restart P i s | None \<Rightarrow> s) }"

definition do_setprop :: "'p platform \<Rightarrow> string list \<Rightarrow> 'p cmd" where
  "do_setprop P a s = do {
     name \<leftarrow> arg a 1;
     val \<leftarrow> arg a 2;
     (ret, prop_val) \<leftarrow> expand_props P s (PROP_VALUE_MAX P) val;
     Some (if ret \<noteq> 0 then (- EINVAL, ERROR ''cannot expand'' s)
           else (0, snd (property_set P name prop_val s))) }"

definition do_trigger :: "string list \<Rightarrow> 'p cmd" where
  "do_trigger a s = do { t \<leftarrow> arg a 1; Some (0, action_for_each_trigger t action_add_queue_tail s) }"

definition do_export :: "string list \<Rightarrow> 'p cmd" where
  "do_export a s = do { n \<leftarrow> arg a 1; v \<leftarrow> arg a 2; Some (0, add_env n v s) }"

definition do_load_persist_props :: "'p platform \<Rightarrow> nat \<Rightarrow> 'p cmd" where
  "do_load_persist_props P n s = Some (if n = 1 then (0, load_persist_props P s) else (- 1, s))"

definition do_powerctl :: "'p platform \<Rightarrow> string list \<Rightarrow> 'p cmd" where
  "do_powerctl P a s = do {
     a1 \<leftarrow> arg a 1;
     (res, command) \<leftarrow> expand_props P s (PROP_VALUE_MAX P) a1;
     Some (
       if res \<noteq> 0 then (- EINVAL, ERROR ''powerctl: cannot expand'' s)
       else
         let (cmd, len) = (if \<not> strncmp command ''shutdown'' 8 then (''POWEROFF'', 8)
                           else if \<not> strncmp command ''reboot'' 6 then (''RESTART2'', 6) else ([], 0))
         in if cmd = [] then (- EINVAL, ERROR ''powerctl: unrecognized command'' s)
            else case drop len command of
                [] \<Rightarrow> let (r, s) = sys (sys_result P) (emit (Android_reboot cmd []) s) in (r, s)
              | c # target \<Rightarrow>
                  if c = CHR '','' then let (r, s) = sys (sys_result P) (emit (Android_reboot cmd target) s) in (r, s)
                  else (- EINVAL, ERROR ''powerctl: unrecognized reboot target'' s)) }"

subsection \<open>Files, as commands\<close>

definition do_write :: "'p platform \<Rightarrow> string list \<Rightarrow> 'p cmd" where
  "do_write P a s = do {
     path \<leftarrow> arg a 1;
     val \<leftarrow> arg a 2;
     (ret, prop_val) \<leftarrow> expand_props P s (PROP_VALUE_MAX P) val;
     Some (if ret \<noteq> 0 then (- EINVAL, ERROR ''cannot expand'' s) else write_file P path prop_val s) }"

definition do_domainname :: "'p platform \<Rightarrow> string list \<Rightarrow> 'p cmd" where
  "do_domainname P a s = do { n \<leftarrow> arg a 1; Some (write_file P ''/proc/sys/kernel/domainname'' n s) }"

definition do_hostname :: "'p platform \<Rightarrow> string list \<Rightarrow> 'p cmd" where
  "do_hostname P a s = do { n \<leftarrow> arg a 1; Some (write_file P ''/proc/sys/kernel/hostname'' n s) }"

definition do_ifup :: "'p platform \<Rightarrow> string list \<Rightarrow> 'p cmd" where
  "do_ifup P a s = do { n \<leftarrow> arg a 1; Some (ifupdown P n True s) }"

text \<open>do_insmod adds up the lengths of the options, do_insmod_inner copies them into an array of
  this size.\<close>

definition insmod_size :: "string list \<Rightarrow> nat" where
  "insmod_size opts = sum_list (map (\<lambda>o'. length o' + 1) opts)"

definition insmod_options :: "string list \<Rightarrow> string" where
  "insmod_options opts = (case opts of [] \<Rightarrow> [] | o1 # r \<Rightarrow> fold (\<lambda>x acc. acc @ '' '' @ x) r o1)"

definition do_insmod_inner :: "'p platform \<Rightarrow> string list \<Rightarrow> nat \<Rightarrow> 'p cmd" where
  "do_insmod_inner P a opt_len s = do {
     file \<leftarrow> arg a 1;
     let options = insmod_options (drop 2 a);
     if length options < opt_len + 1 then Some (insmod P file options s) else None }"

definition do_insmod :: "'p platform \<Rightarrow> string list \<Rightarrow> 'p cmd" where
  "do_insmod P a s = do_insmod_inner P a (insmod_size (drop 2 a)) s"

definition S_ISUID :: u32 where "S_ISUID = 0x800"
definition S_ISGID :: u32 where "S_ISGID = 0x400"

definition mkdir_owner :: "'p platform \<Rightarrow> nat \<Rightarrow> string list \<Rightarrow> u32 \<Rightarrow> 'p cmd" where
  "mkdir_owner P n a mode s = do {
     path \<leftarrow> arg a 1;
     owner \<leftarrow> arg a 3;
     grp \<leftarrow> (if n = 5 then map_option (decode_uid P) (arg a 4) else Some (- 1));
     Some (
       let (r, s) = chown_file P path (decode_uid P owner) grp s in
       if r < 0 then (- errno P s, s)
       else if mode AND (S_ISUID OR S_ISGID) \<noteq> 0 then
         let (ret, s) = chmod_file P path mode s in if ret = - 1 then (- errno P s, s) else (0, s)
       else (0, s)) }"

definition do_mkdir :: "'p platform \<Rightarrow> nat \<Rightarrow> string list \<Rightarrow> 'p cmd" where
  "do_mkdir P n a s = do {
     path \<leftarrow> arg a 1;
     mode \<leftarrow> (if n \<ge> 3 then map_option (\<lambda>m. strtoul m 8) (arg a 2) else Some 0x1ED);
     let (ret, s) = make_dir P path mode s;
     let (ret, s) = (if ret = - 1 \<and> errno P s = EEXIST then chmod_file P path mode s else (ret, s));
     if ret = - 1 then Some (- errno P s, s)
     else if n \<ge> 4 then mkdir_owner P n a mode s
     else Some (0, s) }"

definition do_chown :: "'p platform \<Rightarrow> nat \<Rightarrow> string list \<Rightarrow> 'p cmd" where
  "do_chown P n a s =
     (if n = 3 then do {
        owner \<leftarrow> arg a 1; path \<leftarrow> arg a 2;
        let (r, s) = chown_file P path (decode_uid P owner) (- 1) s;
        Some (if r < 0 then - errno P s else 0, s) }
      else if n = 4 then do {
        owner \<leftarrow> arg a 1; grp \<leftarrow> arg a 2; path \<leftarrow> arg a 3;
        let (r, s) = chown_file P path (decode_uid P owner) (decode_uid P grp) s;
        Some (if r < 0 then - errno P s else 0, s) }
      else Some (- 1, s))"

fun get_mode_loop :: "u32 \<Rightarrow> string \<Rightarrow> u32" where
  "get_mode_loop mode [] = mode"
| "get_mode_loop mode (c # cs) =
     (if 48 \<le> code c \<and> code c \<le> 55 then get_mode_loop (push_bit 3 mode OR word_of_nat (code c - 48)) cs else - 1)"

definition get_mode :: "string \<Rightarrow> u32" where
  "get_mode m = get_mode_loop 0 m"

definition do_chmod :: "'p platform \<Rightarrow> string list \<Rightarrow> 'p cmd" where
  "do_chmod P a s = do {
     m \<leftarrow> arg a 1; path \<leftarrow> arg a 2;
     let (r, s) = chmod_file P path (get_mode m) s;
     Some (if r < 0 then - errno P s else 0, s) }"

definition do_symlink :: "'p platform \<Rightarrow> string list \<Rightarrow> 'p cmd" where
  "do_symlink P a s = do { x \<leftarrow> arg a 1; y \<leftarrow> arg a 2; Some (syscall P ''symlink'' [Str x, Str y] s) }"

text \<open>The commands that pass their argument on to one system call.\<close>

definition call1 :: "'p platform \<Rightarrow> string \<Rightarrow> string list \<Rightarrow> 'p cmd" where
  "call1 P name a s = do { x \<leftarrow> arg a 1; Some (syscall P name [Str x] s) }"

definition do_rm :: "'p platform \<Rightarrow> string list \<Rightarrow> 'p cmd" where "do_rm P a s = call1 P ''unlink'' a s"
definition do_rmdir :: "'p platform \<Rightarrow> string list \<Rightarrow> 'p cmd" where "do_rmdir P a s = call1 P ''rmdir'' a s"

definition do_chdir :: "'p platform \<Rightarrow> string list \<Rightarrow> 'p cmd" where
  "do_chdir P a s = do { (_, s) \<leftarrow> call1 P ''chdir'' a s; Some (0, s) }"

definition do_chroot :: "'p platform \<Rightarrow> string list \<Rightarrow> 'p cmd" where
  "do_chroot P a s = do { (_, s) \<leftarrow> call1 P ''chroot'' a s; Some (0, s) }"

definition do_exec :: "'p cmd" where "do_exec s = Some (- 1, s)"

definition do_wait :: "'p platform \<Rightarrow> nat \<Rightarrow> string list \<Rightarrow> 'p cmd" where
  "do_wait P n a s =
     (if n = 2 then do { f \<leftarrow> arg a 1; wait_for_file P f COMMAND_RETRY_TIMEOUT s }
      else if n = 3 then do { f \<leftarrow> arg a 1; t \<leftarrow> arg a 2; wait_for_file P f (atoi t) s }
      else Some (- 1, s))"

subsection \<open>Mounting\<close>

definition mount_flags :: "(string \<times> u32) list" where
  "mount_flags =
     [(''noatime'', 0x400), (''noexec'', 0x8), (''nosuid'', 0x2), (''nodev'', 0x4), (''nodiratime'', 0x800), (''ro'', 0x1),
      (''rw'', 0), (''remount'', 0x20), (''bind'', 0x1000), (''rec'', 0x4000), (''unbindable'', 0x20000),
      (''private'', 0x40000), (''slave'', 0x80000), (''shared'', 0x100000), (''defaults'', 0)]"

definition MS_RDONLY :: u32 where "MS_RDONLY = 0x1"

text \<open>The loop over the options: the flags, whether to wait, the string of other options.\<close>

fun mount_options :: "string list \<Rightarrow> u32 \<times> bool \<times> string option \<Rightarrow> u32 \<times> bool \<times> string option" where
  "mount_options [] r = r"
| "mount_options (x # xs) (fl, wait, opts) =
     mount_options xs
       (case map_of mount_flags x of
          Some f \<Rightarrow> (fl OR f, wait, opts)
        | None \<Rightarrow> if \<not> strcmp x ''wait'' then (fl, True, opts)
                  else if xs = [] then (fl, wait, Some x) else (fl, wait, opts))"

definition mount :: "'p platform \<Rightarrow> string \<Rightarrow> string \<Rightarrow> string \<Rightarrow> u32 \<Rightarrow> string option \<Rightarrow> 'p init_state \<Rightarrow> int \<times> 'p init_state" where
  "mount P source target system fl opts s =
     syscall P ''mount'' ([Str source, Str target, Str system, Num (uint fl)] @ (case opts of None \<Rightarrow> [] | Some x \<Rightarrow> [Str x])) s"

text \<open>The search for a free loop device.\<close>

partial_function (option) mount_loop ::
  "'p platform \<Rightarrow> nat \<Rightarrow> int \<Rightarrow> string \<Rightarrow> string \<Rightarrow> u32 \<Rightarrow> string option \<Rightarrow> 'p init_state \<Rightarrow> (int \<times> 'p init_state) option" where
  "mount_loop P k fd target system fl opts s =
     (let tmp = ''/dev/block/loop'' @ dec_nat k;
          (loop, s) = open_file P tmp s
      in if loop < 0 then Some (- 1, s)
         else
           let (st, s) = syscall P ''ioctl'' [Num loop, Str ''LOOP_GET_STATUS''] s;
               blank_dev = (st < 0 \<and> errno P s = ENXIO);
               (ours, s) = (if blank_dev then syscall P ''ioctl'' [Num loop, Str ''LOOP_SET_FD'', Num fd] s else (- 1, s))
           in if ours \<ge> 0 then
                let s = emit (Syscall ''close'' [Num fd]) s;
                    (r, s) = mount P tmp target system fl opts s
                in if r < 0
                   then Some (- 1, emit (Syscall ''close'' [Num loop]) (snd (syscall P ''ioctl'' [Num loop, Str ''LOOP_CLR_FD''] s)))
                   else Some (0, emit (Syscall ''close'' [Num loop]) s)
              else mount_loop P (Suc k) fd target system fl opts (emit (Syscall ''close'' [Num loop]) s))"

definition do_mount_device ::
  "'p platform \<Rightarrow> string \<Rightarrow> string \<Rightarrow> string \<Rightarrow> u32 \<Rightarrow> bool \<Rightarrow> string option \<Rightarrow> 'p cmd" where
  "do_mount_device P source target system fl wait opts s = do {
     (_, s) \<leftarrow> (if wait then wait_for_file P source COMMAND_RETRY_TIMEOUT s else Some (0, s));
     let (r, s) = mount P source target system fl opts s;
     Some (if r < 0 then - 1 else 0, s) }"

definition do_mount :: "'p platform \<Rightarrow> string list \<Rightarrow> 'p cmd" where
  "do_mount P a s = do {
     system \<leftarrow> arg a 1;
     source \<leftarrow> arg a 2;
     target \<leftarrow> arg a 3;
     let (fl, wait, opts) = mount_options (drop 4 a) (0, False, None);
     if \<not> strncmp source ''mtd@'' 4 then do {
       (k, s) \<leftarrow> mtd_name_to_number P (drop 4 source) s;
       if k < 0 then Some (- 1, s)
       else do_mount_device P (''/dev/block/mtdblock'' @ dec_int k) target system fl wait opts s }
     else if \<not> strncmp source ''loop@'' 5 then
       (let (fd, s) = open_file P (drop 5 source) s in
        if fd < 0 then Some (- 1, s) else mount_loop P 0 fd target system fl opts s)
     else do_mount_device P source target system fl wait opts s }"

text \<open>The child's exit status is what the parent sees, in 8 bits.\<close>

definition do_mount_all :: "'p platform \<Rightarrow> nat \<Rightarrow> string list \<Rightarrow> 'p cmd" where
  "do_mount_all P n a s =
     (if n \<noteq> 2 then Some (- 1, s)
      else do {
        fstab \<leftarrow> arg a 1;
        let (child, s) = sys (sys_fork P) s;
        if child < 0 then Some (- 1, s)
        else Some (
          let s = emit (Spawn [Syscall ''fs_mgr_mount_all'' [Str fstab]]) s;
              (status, s) = sys (\<lambda>k. fs_mgr_mount_all P k fstab) s;
              ret = (case status of None \<Rightarrow> - 1 | Some r \<Rightarrow> r mod 256)
          in if ret = 1 then
               let s = snd (property_set P ''ro.crypto.state'' ''encrypted'' s)
               in (ret, snd (property_set P ''vold.decrypt'' ''1'' s))
             else if ret = 0 then
               let s = snd (property_set P ''ro.crypto.state'' ''unencrypted'' s)
               in (ret, action_for_each_trigger ''nonencrypted'' action_add_queue_tail s)
             else (ret, s)) })"

definition do_swapon_all :: "'p platform \<Rightarrow> string list \<Rightarrow> 'p cmd" where
  "do_swapon_all P a s = call1 P ''fs_mgr_swapon_all'' a s"

subsection \<open>SELinux, clocks, limits\<close>

definition do_setcon :: "'p platform \<Rightarrow> string list \<Rightarrow> 'p cmd" where
  "do_setcon P a s =
     (if \<not> is_selinux_enabled P then Some (0, s)
      else do { (r, s) \<leftarrow> call1 P ''setcon'' a s; Some (if r < 0 then - errno P s else 0, s) })"

definition do_setenforce :: "'p platform \<Rightarrow> string list \<Rightarrow> 'p cmd" where
  "do_setenforce P a s =
     (if \<not> is_selinux_enabled P then Some (0, s)
      else do {
        v \<leftarrow> arg a 1;
        let (r, s) = syscall P ''security_setenforce'' [Num (atoi v)] s;
        Some (if r < 0 then - errno P s else 0, s) })"

definition do_setkey :: "'p platform \<Rightarrow> string list \<Rightarrow> 'p cmd" where
  "do_setkey P a s = do {
     t \<leftarrow> arg a 1; i \<leftarrow> arg a 2; v \<leftarrow> arg a 3;
     Some (setkey P (strtoul t 0) (strtoul i 0) (strtoul v 0) s) }"

definition do_setrlimit :: "'p platform \<Rightarrow> string list \<Rightarrow> 'p cmd" where
  "do_setrlimit P a s = do {
     r \<leftarrow> arg a 1; c \<leftarrow> arg a 2; m \<leftarrow> arg a 3;
     Some (syscall P ''setrlimit'' [Num (atoi r), Num (atoi c), Num (atoi m)] s) }"

definition do_sysclktz :: "'p platform \<Rightarrow> nat \<Rightarrow> string list \<Rightarrow> 'p cmd" where
  "do_sysclktz P n a s =
     (if n \<noteq> 2 then Some (- 1, s)
      else do {
        w \<leftarrow> arg a 1;
        let (r, s) = syscall P ''settimeofday'' [Num (atoi w)] s;
        Some (if r \<noteq> 0 then - 1 else 0, s) })"

fun restorecon_loop :: "'p platform \<Rightarrow> string list \<Rightarrow> 'p init_state \<Rightarrow> int \<times> 'p init_state" where
  "restorecon_loop P [] s = (0, s)"
| "restorecon_loop P (f # fs) s =
     (let (r, s) = restorecon P f s in if r < 0 then (- errno P s, s) else restorecon_loop P fs s)"

definition do_restorecon :: "'p platform \<Rightarrow> string list \<Rightarrow> 'p cmd" where
  "do_restorecon P a s = Some (restorecon_loop P (tl a) s)"

definition strcasecmp :: "string \<Rightarrow> string \<Rightarrow> bool" where
  "strcasecmp a b \<longleftrightarrow> map tolower a \<noteq> map tolower b"

definition setsebool_value :: "string \<Rightarrow> int option" where
  "setsebool_value v =
     (if \<not> strcmp v ''1'' \<or> \<not> strcasecmp v ''true'' \<or> \<not> strcasecmp v ''on'' then Some 1
      else if \<not> strcmp v ''0'' \<or> \<not> strcasecmp v ''false'' \<or> \<not> strcasecmp v ''off'' then Some 0
      else None)"

definition do_setsebool :: "'p platform \<Rightarrow> string list \<Rightarrow> 'p cmd" where
  "do_setsebool P a s = do {
     name \<leftarrow> arg a 1;
     v \<leftarrow> arg a 2;
     if \<not> is_selinux_enabled P then Some (0, s)
     else (case setsebool_value v of
         None \<Rightarrow> Some (- EINVAL, ERROR ''setsebool: invalid value'' s)
       | Some b \<Rightarrow>
           let (r, s) = syscall P ''security_set_boolean_list'' [Str name, Num b] s in
           Some (if r < 0 then (- errno P s, ERROR ''setsebool: could not set'' s) else (0, s))) }"

definition do_loglevel :: "nat \<Rightarrow> string list \<Rightarrow> 'p cmd" where
  "do_loglevel n a s =
     (if n = 2 then do { l \<leftarrow> arg a 1; Some (0, emit (Syscall ''klog_set_level'' [Num (atoi l)]) s) } else Some (- 1, s))"

subsection \<open>Copying\<close>

text \<open>The buffer comes from malloc: its bytes are None until read fills them. The descriptor of
  the source is read until \<open>todo\<close> bytes have come or the file ends.\<close>

function copy_read :: "'p platform \<Rightarrow> nat \<Rightarrow> nat \<Rightarrow> char option list \<Rightarrow> 'p init_state \<Rightarrow> (bool \<times> char option list \<times> 'p init_state) option" where
  "copy_read P p todo bytes s =
     (if todo = 0 then Some (True, bytes, s)
      else
        let (chunk, s) = sys (\<lambda>k. sys_read_chunk P k todo) s in
        case chunk of
          None \<Rightarrow> Some (False, bytes, s)
        | Some c \<Rightarrow>
            if c = [] then Some (True, bytes, s)
            else if length c > todo then None
            else copy_read P (p + length c) (todo - length c) (take p bytes @ map Some c @ drop (p + length c) bytes) s)"
  by pat_completeness auto
termination by (relation "measure (\<lambda>(P, p, todo, bytes, s). todo)") auto

declare copy_read.simps [simp del]

text \<open>write reports how many bytes it took; None stands for more than it was given.\<close>

function copy_write :: "'p platform \<Rightarrow> int \<Rightarrow> char option list \<Rightarrow> 'p init_state \<Rightarrow> (bool \<times> 'p init_state) option" where
  "copy_write P fd bytes s =
     (if bytes = [] then Some (True, s)
      else
        let (rc, s) = sys (sys_result P) s in
        if rc < 0 then Some (False, s)
        else if rc = 0 then Some (True, s)
        else if nat rc > length bytes then None
        else copy_write P fd (drop (nat rc) bytes) (emit (Write_fd fd (take (nat rc) bytes)) s))"
  by pat_completeness auto
termination by (relation "measure (\<lambda>(P, fd, bytes, s). length bytes)") auto

declare copy_write.simps [simp del]

definition do_copy :: "'p platform \<Rightarrow> nat \<Rightarrow> string list \<Rightarrow> 'p cmd" where
  "do_copy P n a s =
     (if n \<noteq> 3 then Some (- 1, s)
      else do {
        src \<leftarrow> arg a 1;
        dst \<leftarrow> arg a 2;
        let (info, s) = sys (\<lambda>k. sys_read P k src) s;
        (case info of
           None \<Rightarrow> Some (- 1, s)
         | Some (_, data) \<Rightarrow>
             let (fd1, s) = open_file P src s in
             if fd1 < 0 then Some (- 1, s)
             else
               let (fd2, s) = open_file P dst s; s1 = emit (Syscall ''close'' [Num fd1]) s in
               if fd2 < 0 then Some (- 1, s1)
               else do {
                 (ok, bytes, s) \<leftarrow> copy_read P 0 (length data) (replicate (length data) None) s;
                 (ok, s) \<leftarrow> (if ok then copy_write P fd2 bytes s else Some (False, s));
                 let s = emit (Syscall ''close'' [Num fd2]) (emit (Syscall ''close'' [Num fd1]) s);
                 Some (if ok then 0 else - 1, s) }) })"

subsection \<open>The table of commands\<close>

fun run_command :: "'p platform \<Rightarrow> command_func \<Rightarrow> nat \<Rightarrow> string list \<Rightarrow> 'p cmd" where
  "run_command P Do_chdir n a s = do_chdir P a s"
| "run_command P Do_chroot n a s = do_chroot P a s"
| "run_command P Do_class_start n a s = do_class_start P a s"
| "run_command P Do_class_stop n a s = do_class_stop P a s"
| "run_command P Do_class_reset n a s = do_class_reset P a s"
| "run_command P Do_domainname n a s = do_domainname P a s"
| "run_command P Do_exec n a s = do_exec s"
| "run_command P Do_export n a s = do_export a s"
| "run_command P Do_hostname n a s = do_hostname P a s"
| "run_command P Do_ifup n a s = do_ifup P a s"
| "run_command P Do_insmod n a s = do_insmod P a s"
| "run_command P Do_mkdir n a s = do_mkdir P n a s"
| "run_command P Do_mount_all n a s = do_mount_all P n a s"
| "run_command P Do_mount n a s = do_mount P a s"
| "run_command P Do_powerctl n a s = do_powerctl P a s"
| "run_command P Do_restart n a s = do_restart P a s"
| "run_command P Do_restorecon n a s = do_restorecon P a s"
| "run_command P Do_rm n a s = do_rm P a s"
| "run_command P Do_rmdir n a s = do_rmdir P a s"
| "run_command P Do_setcon n a s = do_setcon P a s"
| "run_command P Do_setenforce n a s = do_setenforce P a s"
| "run_command P Do_setkey n a s = do_setkey P a s"
| "run_command P Do_setprop n a s = do_setprop P a s"
| "run_command P Do_setrlimit n a s = do_setrlimit P a s"
| "run_command P Do_setsebool n a s = do_setsebool P a s"
| "run_command P Do_start n a s = do_start P a s"
| "run_command P Do_stop n a s = do_stop P a s"
| "run_command P Do_swapon_all n a s = do_swapon_all P a s"
| "run_command P Do_trigger n a s = do_trigger a s"
| "run_command P Do_symlink n a s = do_symlink P a s"
| "run_command P Do_sysclktz n a s = do_sysclktz P n a s"
| "run_command P Do_wait n a s = do_wait P n a s"
| "run_command P Do_write n a s = do_write P a s"
| "run_command P Do_copy n a s = do_copy P n a s"
| "run_command P Do_chown n a s = do_chown P n a s"
| "run_command P Do_chmod n a s = do_chmod P a s"
| "run_command P Do_loglevel n a s = do_loglevel n a s"
| "run_command P Do_load_persist_props n a s = do_load_persist_props P n s"
| "run_command P _ n a s = None"

subsection \<open>Commands that only make system calls\<close>

lemma quiet_open_file [simp]: "quiet s (snd (open_file P f s))"
  by (auto simp: open_file_def split: prod.splits intro!: quiet_emitI elim!: quiet_sysD)

lemma quiet_open_fileD: "open_file P f s = (r, t) \<Longrightarrow> quiet u s \<Longrightarrow> quiet u t"
  using quiet_trans quiet_open_file [of s P f] by fastforce

lemma quiet_open_nofollow: "open_nofollow P f s = (r, t) \<Longrightarrow> quiet u s \<Longrightarrow> quiet u t"
  by (auto simp: open_nofollow_def split: prod.splits if_splits dest: quiet_open_fileD)

lemma quiet_write_file: "write_file P f v s = (r, t) \<Longrightarrow> quiet u s \<Longrightarrow> quiet u t"
  by (auto simp: write_file_def Let_def split: prod.splits if_splits
      dest!: quiet_open_fileD quiet_sysD(1) intro!: quiet_emitI)

lemma quiet_chown_file: "chown_file P f a b s = (r, t) \<Longrightarrow> quiet u s \<Longrightarrow> quiet u t"
  by (auto simp: chown_file_def Let_def split: prod.splits if_splits
      dest!: quiet_open_nofollow quiet_sysD(2) intro!: quiet_emitI)

lemma quiet_chmod_file: "chmod_file P f m s = (r, t) \<Longrightarrow> quiet u s \<Longrightarrow> quiet u t"
  by (auto simp: chmod_file_def Let_def split: prod.splits if_splits
      dest!: quiet_open_nofollow quiet_sysD(2) intro!: quiet_emitI)

lemma quiet_read_file: "read_file P f s = (r, t) \<Longrightarrow> quiet u s \<Longrightarrow> quiet u t"
  by (auto simp: read_file_def Let_def split: prod.splits option.splits if_splits dest!: quiet_sysD(1) intro!: quiet_emitI)

lemma quiet_make_dirD: "make_dir P f m s = (r, t) \<Longrightarrow> quiet u s \<Longrightarrow> quiet u t"
  using quiet_trans quiet_make_dir [of s P f m] by fastforce

lemma quiet_restorecon_loop: "restorecon_loop P fs s = (r, t) \<Longrightarrow> quiet u s \<Longrightarrow> quiet u t"
proof (induction P fs s rule: restorecon_loop.induct)
  case (2 P f fs s)
  obtain k w where w: "restorecon P f s = (k, w)" by fastforce
  have "quiet u w" using quiet_trans [OF 2(3) quiet_restorecon [of s P f]] w by simp
  then show ?case using 2(1) [OF w [symmetric] refl] 2(2) w by (auto split: if_splits)
qed simp

lemma quiet_wait_loop:
  assumes "wait_loop P f lim ret s = Some y"
  shows "quiet u s \<longrightarrow> quiet u (snd y)"
proof (rule wait_loop.raw_induct [of "\<lambda>x y. quiet u (snd x) \<longrightarrow> quiet u (snd y)", unfolded snd_conv, OF _ assms], goal_cases)
  case (1 loop P f lim ret s y)
  obtain now v where v: "gettime P s = (now, v)" by fastforce
  obtain present w where w: "sys (\<lambda>n. sys_stat P n f) v = (present, w)" by fastforce
  have "quiet u v" "quiet u w" if "quiet u s"
    using quiet_sysD(1) [OF v [unfolded gettime_def] that] quiet_sysD(1) [OF w] by blast+
  then show ?case using 1(1) [of P f lim "- 1" "emit (Syscall ''usleep'' [Num 10000]) w" y] 1(2) v w
    by (auto simp: quiet_emitI split: if_splits)
qed

lemma quiet_wait_for_file: "wait_for_file P f tm s = Some (r, t) \<Longrightarrow> quiet u s \<Longrightarrow> quiet u t"
  by (auto simp: wait_for_file_def gettime_def split: prod.splits dest!: quiet_wait_loop [where u = u] quiet_sysD(1))

lemma quiet_mount: "mount P a b c d e s = (r, t) \<Longrightarrow> quiet u s \<Longrightarrow> quiet u t"
  by (auto simp: mount_def dest: quiet_sysD(2))

lemma quiet_mount_loop:
  assumes "mount_loop P k fd a b c d s = Some y"
  shows "quiet u s \<longrightarrow> quiet u (snd y)"
proof (rule mount_loop.raw_induct [of "\<lambda>x y. quiet u (snd x) \<longrightarrow> quiet u (snd y)", unfolded snd_conv, OF _ assms], goal_cases)
  case (1 loop P k fd a b c d s y)
  define tmp where "tmp = ''/dev/block/loop'' @ dec_nat k"
  obtain l s1 where s1: "open_file P tmp s = (l, s1)" by fastforce
  obtain st s2 where s2: "syscall P ''ioctl'' [Num l, Str ''LOOP_GET_STATUS''] s1 = (st, s2)" by fastforce
  obtain ours s3 where s3: "(if st < 0 \<and> errno P s2 = ENXIO then syscall P ''ioctl'' [Num l, Str ''LOOP_SET_FD'', Num fd] s2
      else (- 1, s2)) = (ours, s3)" by fastforce
  obtain r s4 where s4: "mount P tmp a b c d (emit (Syscall ''close'' [Num fd]) s3) = (r, s4)" by fastforce
  have q: "quiet u s1" "quiet u s2" "quiet u s3" "quiet u s4" if "quiet u s"
  proof -
    show "quiet u s1" using quiet_open_fileD [OF s1 that] .
    then show "quiet u s2" by (rule quiet_sysD(2) [OF s2])
    then show "quiet u s3" using s3 by (auto split: if_splits dest: quiet_sysD(2))
    then show "quiet u s4" by (intro quiet_mount [OF s4] quiet_emitI)
  qed
  have "(if l < 0 then Some (- 1, s1)
         else if ours \<ge> 0
         then (if r < 0
               then Some (- 1, emit (Syscall ''close'' [Num l]) (snd (syscall P ''ioctl'' [Num l, Str ''LOOP_CLR_FD''] s4)))
               else Some (0, emit (Syscall ''close'' [Num l]) s4))
         else loop P (Suc k) fd a b c d (emit (Syscall ''close'' [Num l]) s3)) = Some y"
    using 1(2) unfolding Let_def tmp_def [symmetric] s1 prod.case s2 s3 s4 .
  then show ?case using 1(1) [of P "Suc k" fd a b c d "emit (Syscall ''close'' [Num l]) s3" y] q
    by (auto simp: quiet_emitI quiet_sysI split: if_splits)
qed

lemma quiet_mount_device: "do_mount_device P a b c d e f s = Some (r, t) \<Longrightarrow> quiet u s \<Longrightarrow> quiet u t"
  by (auto simp: do_mount_device_def Let_def split: bind_splits prod.splits if_splits dest!: quiet_wait_for_file quiet_mount)

lemma quiet_copy_read: "copy_read P p todo b s = Some (ok, b', t) \<Longrightarrow> quiet u s \<Longrightarrow> quiet u t"
proof (induction P p todo b s rule: copy_read.induct)
  case (1 P p todo b s)
  obtain c w where w: "sys (\<lambda>k. sys_read_chunk P k todo) s = (c, w)" by fastforce
  have q: "quiet u w" using quiet_sysD(1) [OF w 1(3)] .
  show ?case
    using 1(1) [OF _ w [symmetric] refl] 1(2,3) q by (auto simp: copy_read.simps [of P p todo b s] w split: if_splits option.splits)
qed

lemma quiet_copy_write: "copy_write P fd b s = Some (ok, t) \<Longrightarrow> quiet u s \<Longrightarrow> quiet u t"
proof (induction P fd b s rule: copy_write.induct)
  case (1 P fd b s)
  obtain c w where w: "sys (sys_result P) s = (c, w)" by fastforce
  have q: "quiet u w" using quiet_sysD(1) [OF w 1(3)] .
  show ?case
    using 1(1) [OF _ w [symmetric] refl] 1(2,3) q
    by (auto simp: copy_write.simps [of P fd b s] w quiet_emitI split: if_splits)
qed

lemmas quiet_dests = quiet_sysD quiet_open_fileD quiet_write_file quiet_chown_file quiet_chmod_file quiet_read_file
  quiet_make_dirD quiet_restorecon_loop quiet_wait_for_file quiet_mount_device quiet_copy_read quiet_copy_write

text \<open>The commands that change nothing but the trace of system calls.\<close>

definition only_calls :: "command_func \<Rightarrow> bool" where
  "only_calls f \<longleftrightarrow> f \<in> {Do_chdir, Do_chroot, Do_domainname, Do_exec, Do_hostname, Do_ifup, Do_insmod, Do_mkdir, Do_powerctl,
     Do_restorecon, Do_rm, Do_rmdir, Do_setcon, Do_setenforce, Do_setkey, Do_setrlimit, Do_setsebool, Do_swapon_all,
     Do_symlink, Do_sysclktz, Do_wait, Do_write, Do_copy, Do_chown, Do_chmod, Do_loglevel}"

lemma quiet_call1: "call1 P c a s = Some (r, t) \<Longrightarrow> quiet u s \<Longrightarrow> quiet u t"
  by (auto simp: call1_def split: bind_splits dest: quiet_sysD(2))

lemma quiet_do_files:
  assumes "quiet u s"
  shows "do_write P a s = Some (r, t) \<Longrightarrow> quiet u t" and "do_domainname P a s = Some (r, t) \<Longrightarrow> quiet u t"
    and "do_hostname P a s = Some (r, t) \<Longrightarrow> quiet u t" and "do_chown P n a s = Some (r, t) \<Longrightarrow> quiet u t"
    and "do_chmod P a s = Some (r, t) \<Longrightarrow> quiet u t" and "do_symlink P a s = Some (r, t) \<Longrightarrow> quiet u t"
    and "do_wait P n a s = Some (r, t) \<Longrightarrow> quiet u t"
  using assms
  by (auto simp: do_write_def do_domainname_def do_hostname_def do_chown_def do_chmod_def do_symlink_def do_wait_def
      Let_def split: bind_splits prod.splits if_splits dest: quiet_dests intro: quiet_emitI)

lemma quiet_do_calls:
  assumes "quiet u s"
  shows "do_chdir P a s = Some (r, t) \<Longrightarrow> quiet u t" and "do_chroot P a s = Some (r, t) \<Longrightarrow> quiet u t"
    and "do_exec s = Some (r, t) \<Longrightarrow> quiet u t" and "do_rm P a s = Some (r, t) \<Longrightarrow> quiet u t"
    and "do_rmdir P a s = Some (r, t) \<Longrightarrow> quiet u t" and "do_swapon_all P a s = Some (r, t) \<Longrightarrow> quiet u t"
    and "do_setcon P a s = Some (r, t) \<Longrightarrow> quiet u t" and "do_loglevel n a s = Some (r, t) \<Longrightarrow> quiet u t"
    and "do_restorecon P a s = Some (r, t) \<Longrightarrow> quiet u t"
  using assms
  by (auto simp: do_chdir_def do_chroot_def do_exec_def do_rm_def do_rmdir_def do_swapon_all_def do_setcon_def do_loglevel_def
      do_restorecon_def split: bind_splits if_splits dest: quiet_call1 quiet_restorecon_loop intro: quiet_emitI)

lemma quiet_setkey: "setkey P x y z s = (r, t) \<Longrightarrow> quiet u s \<Longrightarrow> quiet u t"
  by (auto simp: setkey_def split: prod.splits if_splits dest!: quiet_open_fileD quiet_sysD(2) intro!: quiet_emitI)

lemma quiet_ifupdown: "ifupdown P x up s = (r, t) \<Longrightarrow> quiet u s \<Longrightarrow> quiet u t"
  by (auto simp: ifupdown_def Let_def split: prod.splits if_splits dest!: quiet_sysD(2) intro!: quiet_emitI)

lemma quiet_insmod: "insmod P f x s = (r, t) \<Longrightarrow> quiet u s \<Longrightarrow> quiet u t"
  by (auto simp: insmod_def split: prod.splits option.splits dest!: quiet_read_file quiet_sysD(2))

lemma quiet_do_settings:
  assumes "quiet u s"
  shows "do_setenforce P a s = Some (r, t) \<Longrightarrow> quiet u t" and "do_setrlimit P a s = Some (r, t) \<Longrightarrow> quiet u t"
    and "do_sysclktz P n a s = Some (r, t) \<Longrightarrow> quiet u t" and "do_setkey P a s = Some (r, t) \<Longrightarrow> quiet u t"
    and "do_ifup P a s = Some (r, t) \<Longrightarrow> quiet u t" and "do_insmod P a s = Some (r, t) \<Longrightarrow> quiet u t"
  using assms
  by (auto simp: do_setenforce_def do_setrlimit_def do_sysclktz_def do_setkey_def do_ifup_def do_insmod_def do_insmod_inner_def
      Let_def split: bind_splits prod.splits if_splits dest: quiet_sysD(2) quiet_setkey quiet_ifupdown quiet_insmod)

lemma quiet_do_setsebool: "do_setsebool P a s = Some (r, t) \<Longrightarrow> quiet u s \<Longrightarrow> quiet u t"
  by (auto simp: do_setsebool_def split: bind_splits prod.splits if_splits option.splits dest!: quiet_sysD(2) intro!: quiet_emitI)

lemma quiet_do_powerctl: "do_powerctl P a s = Some (r, t) \<Longrightarrow> quiet u s \<Longrightarrow> quiet u t"
  by (auto simp: do_powerctl_def Let_def split: bind_splits prod.splits if_splits list.splits
      dest!: quiet_sysD(1) intro: quiet_emitI)

lemma quiet_mkdir_owner: "mkdir_owner P n a m s = Some (r, t) \<Longrightarrow> quiet u s \<Longrightarrow> quiet u t"
  by (auto simp: mkdir_owner_def Let_def split: bind_splits prod.splits if_splits dest!: quiet_chown_file quiet_chmod_file)

lemma quiet_do_mkdir:
  assumes "do_mkdir P n a s = Some (r, t)" and "quiet u s"
  shows "quiet u t"
proof -
  obtain path mode where a: "arg a 1 = Some path"
    "(if n \<ge> 3 then map_option (\<lambda>m. strtoul m 8) (arg a 2) else Some 0x1ED) = Some mode"
    using assms(1) unfolding do_mkdir_def by (auto split: bind_splits)
  obtain k s1 where s1: "make_dir P path mode s = (k, s1)" by fastforce
  obtain k' s2 where s2: "(if k = - 1 \<and> errno P s1 = EEXIST then chmod_file P path mode s1 else (k, s1)) = (k', s2)" by fastforce
  have "quiet u s1" using quiet_make_dirD [OF s1 assms(2)] .
  then have q: "quiet u s2" using s2 by (auto split: if_splits dest: quiet_chmod_file)
  have "(if k' = - 1 then Some (- errno P s2, s2) else if n \<ge> 4 then mkdir_owner P n a mode s2 else Some (0, s2)) = Some (r, t)"
    using assms(1) unfolding do_mkdir_def a Option.bind.bind_lunit Let_def s1 prod.case s2 .
  then show ?thesis using q by (auto split: if_splits dest: quiet_mkdir_owner)
qed

lemma quiet_do_copy:
  assumes "do_copy P n a s = Some (r, t)" and "quiet u s"
  shows "quiet u t"
proof (cases "n = 3")
  case True
  obtain x y where xy: "arg a 1 = Some x" "arg a 2 = Some y"
    using assms(1) True by (auto simp: do_copy_def split: bind_splits)
  obtain info s1 where s1: "sys (\<lambda>k. sys_read P k x) s = (info, s1)" by fastforce
  obtain fd1 s2 where s2: "open_file P x s1 = (fd1, s2)" by fastforce
  obtain fd2 s3 where s3: "open_file P y s2 = (fd2, s3)" by fastforce
  have q1: "quiet u s1" using quiet_sysD(1) [OF s1 assms(2)] .
  have q2: "quiet u s2" using quiet_open_fileD [OF s2 q1] .
  have q3: "quiet u s3" using quiet_open_fileD [OF s3 q2] .
  show ?thesis
    using assms(1) True q1 q2 q3
    by (auto simp: do_copy_def xy s1 s2 s3 Let_def simp del: One_nat_def split: option.splits if_splits bind_splits
        dest!: quiet_copy_read quiet_copy_write intro!: quiet_emitI)
qed (use assms in \<open>simp add: do_copy_def\<close>)

lemma minor_mtd_loop: "find_mtd_loop t s = Some s' \<Longrightarrow> minor u s \<Longrightarrow> minor u s'"
proof (induction t s rule: find_mtd_loop.induct)
  case (1 t s)
  have add: "minor u (add_mtd_partition i w s)" if "minor u s" for i w
    using that minor_trans [OF that] minor_quiet [OF quiet_emit(2)] minor_fields(9)
    by (auto simp: add_mtd_partition_def Let_def)
  show ?case
    using 1 add by (auto simp: find_mtd_loop.simps [of t s] Let_def split: if_splits option.splits prod.splits)
qed

lemma minor_mtd_name_to_number:
  assumes "mtd_name_to_number P name s = Some (k, t)" and "minor u s"
  shows "minor u t"
proof -
  have "minor u (s\<lparr>mtd_part_count := 0, nsys := Suc (nsys s)\<rparr>)"
    using assms(2) by (cases u; cases s) (simp add: minor_def)
  then show ?thesis
    using assms minor_mtd_loop
    by (auto simp: mtd_name_to_number_def find_mtd_partitions_def sys_def split: if_splits bind_splits option.splits)
qed

lemma minor_do_mount:
  assumes "do_mount P a s = Some (r, t)"
  shows "minor s t"
proof -
  obtain x y z where xyz: "arg a 1 = Some x" "arg a 2 = Some y" "arg a 3 = Some z"
    using assms by (auto simp: do_mount_def split: bind_splits)
  obtain fl w opts where o: "mount_options (drop 4 a) (0, False, None) = (fl, w, opts)" by (metis prod_cases3)
  obtain fd s1 where s1: "open_file P (drop 5 y) s = (fd, s1)" by fastforce
  have q: "quiet s s1" using quiet_open_fileD [OF s1 quiet_refl] .
  have dev: "minor s v" if "do_mount_device P b z x fl w opts s' = Some (k, v)" "minor s s'" for b s' k v
    using minor_trans [OF that(2) minor_quiet [OF quiet_mount_device [OF that(1) quiet_refl]]] .
  have loop: "quiet s v" if "mount_loop P 0 fd z x fl opts s1 = Some (k, v)" for k v
    using quiet_mount_loop [OF that, of s] q by simp
  show ?thesis
    using assms dev minor_quiet [OF q] minor_quiet [OF loop] minor_mtd_name_to_number [of P "drop 4 y" s _ _ s] minor_quiet [OF quiet_refl [of s]]
    by (auto simp: do_mount_def xyz o s1 Let_def simp del: One_nat_def split: if_splits bind_splits)
qed

end
