(* ===== verification/Init_Process.thy ===== *)
theory Init_Process
  imports Init_Builtins
begin

text \<open>
  Child processes (\<^verbatim>\<open>init/init/signal_handler.c\<close>), the actions init queues for itself and the
  execution of commands (\<^verbatim>\<open>init/init/init.c\<close>).
\<close>

subsection \<open>Child processes\<close>

fun run_commands :: "'p platform \<Rightarrow> command list \<Rightarrow> 'p init_state \<Rightarrow> 'p init_state option" where
  "run_commands P [] s = Some s"
| "run_commands P (c # cs) s = do {
     (_, s) \<leftarrow> run_command P (cmd_func c) (cmd_nargs c) (cmd_args c) s;
     run_commands P cs s }"

definition wait_for_one_process :: "'p platform \<Rightarrow> 'p cmd" where
  "wait_for_one_process P s =
     (let (r, s) = sys (sys_waitpid P) s in
      case r of
        None \<Rightarrow> Some (- 1, s)
      | Some p \<Rightarrow>
          if p \<le> 0 then Some (- 1, s)
          else case service_find_by_pid p s of
              None \<Rightarrow> Some (0, ERROR ''untracked pid exited'' s)
            | Some i \<Rightarrow>
                let (restarting, s) = service_exited P i p s in
                if \<not> restarting then Some (0, s)
                else do {
                  s \<leftarrow> run_commands P (onrestart (svc s i)) s;
                  Some (0, notify_service_state P (svc_name (svc s i)) ''restarting'' s) })"

text \<open>The loop of handle_signal. None is a loop that never ends.\<close>

partial_function (option) reap_loop :: "'p platform \<Rightarrow> 'p init_state \<Rightarrow> 'p init_state option" where
  "reap_loop P s =
     (case wait_for_one_process P s of
        None \<Rightarrow> None
      | Some (r, s) \<Rightarrow> if r = 0 then reap_loop P s else Some s)"

definition handle_signal :: "'p platform \<Rightarrow> 'p init_state \<Rightarrow> 'p init_state option" where
  "handle_signal P s = reap_loop P (snd (syscall P ''read'' [Num (signal_recv_fd s)] s))"

definition signal_init :: "'p platform \<Rightarrow> 'p init_state \<Rightarrow> 'p init_state option" where
  "signal_init P s =
     (let s = snd (syscall P ''sigaction'' [Str ''SIGCHLD''] s);
          (r, s) = syscall P ''socketpair'' [] s;
          s = (if r = 0 then
                 let (s0, s) = sys (sys_result P) s;
                     (s1, s) = sys (sys_result P) s;
                     s = s\<lparr>signal_recv_fd := s1\<rparr>;
                     s = snd (syscall P ''fcntl'' [Num s0, Str ''FD_CLOEXEC''] s);
                     s = snd (syscall P ''fcntl'' [Num s0, Str ''O_NONBLOCK''] s);
                     s = snd (syscall P ''fcntl'' [Num s1, Str ''FD_CLOEXEC''] s)
                 in snd (syscall P ''fcntl'' [Num s1, Str ''O_NONBLOCK''] s)
               else s)
      in handle_signal P s)"

subsection \<open>Actions of init itself\<close>

definition coldboot_done :: string where "coldboot_done = ''/dev/.coldboot_done''"

definition wait_for_coldboot_done_action :: "'p platform \<Rightarrow> 'p cmd" where
  "wait_for_coldboot_done_action P s = do {
     (ret, s) \<leftarrow> wait_for_file P coldboot_done COMMAND_RETRY_TIMEOUT s;
     Some (ret, if ret \<noteq> 0 then ERROR ''Timed out waiting for coldboot'' s else s) }"

text \<open>The loop that mixes 512 bytes into the kernel's generator.\<close>

partial_function (option) mix_loop :: "'p platform \<Rightarrow> int \<Rightarrow> int \<Rightarrow> nat \<Rightarrow> 'p init_state \<Rightarrow> (int \<times> 'p init_state) option" where
  "mix_loop P hw ur written s =
     (if written < 512 then
        let (chunk, s) = sys (\<lambda>k. sys_read_chunk P k (512 - written)) s in
        case chunk of
          None \<Rightarrow> Some (- 1, ERROR ''Failed to read from /dev/hw_random'' s)
        | Some c \<Rightarrow>
            if c = [] then Some (- 1, ERROR ''Failed to read from /dev/hw_random: EOF'' s)
            else
              let (w, s) = sys (sys_result P) (emit (Write_fd ur (map Some c)) s) in
              if w < 0 then Some (- 1, ERROR ''Failed to write to /dev/urandom'' s)
              else mix_loop P hw ur (written + nat w) s
      else Some (0, s))"

definition mix_hwrng_into_linux_rng_action :: "'p platform \<Rightarrow> 'p cmd" where
  "mix_hwrng_into_linux_rng_action P s =
     (let (hw, s) = open_file P ''/dev/hw_random'' s in
      if hw < 0 then
        (if errno P s = ENOENT then Some (0, ERROR ''/dev/hw_random not found'' s)
         else Some (- 1, ERROR ''Failed to open /dev/hw_random'' s))
      else
        let (ur, s) = open_file P ''/dev/urandom'' s in
        if ur < 0 then Some (- 1, emit (Syscall ''close'' [Num hw]) (ERROR ''Failed to open /dev/urandom'' s))
        else do {
          (result, s) \<leftarrow> mix_loop P hw ur 0 s;
          Some (result, emit (Syscall ''close'' [Num ur]) (emit (Syscall ''close'' [Num hw]) s)) })"

definition console_init_action :: "'p platform \<Rightarrow> 'p cmd" where
  "console_init_action P s =
     (let s = (if console s \<noteq> [] then s\<lparr>console_name := take (PROP_VALUE_MAX P - 1) (''/dev/'' @ console s)\<rparr> else s);
          (fd, s) = open_file P (console_name s) s;
          s = (if fd \<ge> 0 then s\<lparr>have_console := True\<rparr> else s);
          s = emit (Syscall ''close'' [Num fd]) s
      in do {
        (r, s) \<leftarrow> load_565rle_image P ''/initlogo.rle'' s;
        Some (0,
          if r \<noteq> 0 then
            let (fd, s) = open_file P ''/dev/tty0'' s in
            if fd \<ge> 0
            then emit (Syscall ''close'' [Num fd])
                   (emit (Write_file ''/dev/tty0'' (replicate 14 NEWLINE @ ''             A N D R O I D '')) s)
            else s
          else s) })"

definition check_startup_action :: "'p cmd" where
  "check_startup_action s =
     (if property_set_fd s < 0 \<or> signal_recv_fd s < 0 then None else Some (0, emit (Unlink ''/dev/.booting'') s))"

definition queue_property_triggers_action :: "'p platform \<Rightarrow> 'p cmd" where
  "queue_property_triggers_action P s =
     Some (0, (queue_all_property_triggers P s)\<lparr>property_triggers_enabled := True\<rparr>)"

text \<open>All functions a command can have. The boot chart is not compiled in.\<close>

definition run_func :: "'p platform \<Rightarrow> command_func \<Rightarrow> nat \<Rightarrow> string list \<Rightarrow> 'p cmd" where
  "run_func P f n a s =
     (if f = Wait_for_coldboot_done_action then wait_for_coldboot_done_action P s
      else if f = Mix_hwrng_into_linux_rng_action then mix_hwrng_into_linux_rng_action P s
      else if f = Keychord_init_action then Some (0, keychord_init P s)
      else if f = Console_init_action then console_init_action P s
      else if f = Property_service_init_action then Some (0, start_property_service P s)
      else if f = Signal_init_action then map_option (Pair 0) (signal_init P s)
      else if f = Check_startup_action then check_startup_action s
      else if f = Queue_property_triggers_action then queue_property_triggers_action P s
      else run_command P f n a s)"

definition cur_cmd :: "'p init_state \<Rightarrow> command option" where
  "cur_cmd s = (case (cur_action s, cur_command s) of
      (Some a, Some c) \<Rightarrow> Some (commands (action_list s ! a) ! c) | _ \<Rightarrow> None)"

definition execute_one_command :: "'p platform \<Rightarrow> 'p init_state \<Rightarrow> 'p init_state option" where
  "execute_one_command P s =
     (let s = advance s in
      case cur_cmd s of
        None \<Rightarrow> Some s
      | Some c \<Rightarrow> map_option snd (run_func P (cmd_func c) (cmd_nargs c) (cmd_args c) s))"

subsection \<open>Every operation respects the preorders\<close>

context init_steps
begin

lemma R_quiet: "R s t \<Longrightarrow> quiet t u \<Longrightarrow> R s u"
  using R_trans R_minor minor_quiet by blast

lemma R_refl: "R s s"
  using R_minor minor_quiet quiet_refl by blast

lemma R_emit: "R s t \<Longrightarrow> R s (emit e t)" "R s t \<Longrightarrow> R s (ERROR m t)"
  using R_quiet quiet_emit by blast+

lemma R_sys: "sys f t = (r, u) \<Longrightarrow> R s t \<Longrightarrow> R s u" "syscall P n a t = (i, u) \<Longrightarrow> R s t \<Longrightarrow> R s u"
  using R_quiet quiet_sys [of t f] quiet_syscall [of t P n a] by simp_all

lemma R_syscall: "R s t \<Longrightarrow> R s (snd (syscall P n a t))"
  using R_quiet quiet_syscall by blast

lemma R_set: "R s t \<Longrightarrow> R s (snd (property_set P n v t))"
  using R_trans R_prop by blast

lemma R_notify: "R s t \<Longrightarrow> R s (notify_service_state P n v t)"
  by (simp add: notify_service_state_def R_set)

lemma R_triggers: "R s t \<Longrightarrow> R s (action_for_each_trigger n action_add_queue_tail t)"
proof -
  assume "R s t"
  moreover have "props (action_for_each_trigger n action_add_queue_tail t) = props t"
    by (simp add: action_for_each_trigger_def action_loop_add)
  ultimately show ?thesis using R_trans R_queue prop_step_triggers(2) by blast
qed

lemma R_queue_all: "R s t \<Longrightarrow> R s (queue_all_property_triggers P t)"
  using R_trans R_queue prop_step_queue_all by blast

lemma R_started: "R s t \<Longrightarrow> R s (service_start P i a t)"
  using R_trans R_start by blast

lemma R_stopped:
  assumes "R s t"
  shows "R s (service_stop_or_reset P i how t)" "R s (service_stop P i t)" "R s (service_reset P i t)"
  using assms R_trans R_stop unfolding service_stop_def service_reset_def by blast+

lemma R_restart: "R s t \<Longrightarrow> R s (service_restart P i t)"
  by (simp add: service_restart_def R_stopped R_started)

lemma R_service_loop: "(\<And>i t. R s t \<Longrightarrow> R s (f i t)) \<Longrightarrow> R s t \<Longrightarrow> R s (service_loop Q f is t)"
  by (induction "is" arbitrary: t) simp_all

lemma R_load_properties: "R s t \<Longrightarrow> R s (load_properties P d t)"
proof (induction d arbitrary: t rule: length_induct)
  case (1 d)
  show ?case
  proof (cases "strchr d NEWLINE")
    case (Some r)
    have "length (tl r) < length d" using strchr_suffix_length [OF Some] .
    then show ?thesis using 1 Some
      by (auto simp: load_properties.simps [of P d t] Let_def R_set split: option.split)
  qed (simp add: load_properties.simps 1)
qed

lemma R_load_file: "R s t \<Longrightarrow> R s (load_properties_from_file P f t)"
proof -
  assume a: "R s t"
  obtain r u where u: "read_file P f t = (r, u)" by fastforce
  have "R s u" using R_quiet [OF a quiet_read_file [OF u quiet_refl]] .
  then show ?thesis by (simp add: load_properties_from_file_def u R_load_properties split: option.split)
qed

lemma R_persistent_entry: "R s t \<Longrightarrow> R s (load_persistent_entry P n t)"
  by (auto simp: load_persistent_entry_def Let_def split: prod.splits option.splits intro!: R_emit R_set elim!: R_sys)

lemma R_persistent: "R s t \<Longrightarrow> R s (load_persistent_properties P t)"
proof -
  assume a: "R s t"
  have l: "R s u \<Longrightarrow> R s (load_persistent_loop P ns u)" for ns u
    by (induction ns arbitrary: u) (simp_all add: R_persistent_entry)
  obtain r u where u: "sys (\<lambda>n. sys_readdir P n ''/data/property'') t = (r, u)" by fastforce
  have "R s u" using R_sys(1) [OF u a] .
  then have "R s (case r of None \<Rightarrow> ERROR m u | Some names \<Rightarrow> load_persistent_loop P names u)" for m
    by (simp add: R_emit l split: option.split)
  then show ?thesis using R_trans R_minor minor_fields(1)
    unfolding load_persistent_properties_def Let_def u prod.case by blast
qed

end

lemma quiet_commands:
  assumes "run_command P f n a s = Some (r, t)" and "only_calls f"
  shows "quiet s t"
  using assms unfolding only_calls_def
  by (auto dest: quiet_do_files [OF quiet_refl] quiet_do_calls [OF quiet_refl] quiet_do_settings [OF quiet_refl]
      quiet_do_setsebool [OF _ quiet_refl] quiet_do_powerctl [OF _ quiet_refl] quiet_do_mkdir [OF _ quiet_refl]
      quiet_do_copy [OF _ quiet_refl])

context init_steps
begin

lemma R_class:
  assumes "do_class_start P a s = Some (r, t) \<or> do_class_stop P a s = Some (r, t) \<or> do_class_reset P a s = Some (r, t)"
  shows "R s t"
proof -
  have "R s (service_for_each_class c (service_start_if_not_disabled P) s)"
    "R s (service_for_each_class c (service_stop P) s)" "R s (service_for_each_class c (service_reset P) s)" for c
    unfolding service_for_each_class_def
    by (rule R_service_loop, auto simp: service_start_if_not_disabled_def R_started R_stopped R_refl)+
  then show ?thesis using assms
    by (auto simp: do_class_start_def do_class_stop_def do_class_reset_def split: bind_splits)
qed

lemma R_services:
  assumes "do_start P a s = Some (r, t) \<or> do_stop P a s = Some (r, t) \<or> do_restart P a s = Some (r, t)"
  shows "R s t"
  using assms by (auto simp: do_start_def do_stop_def do_restart_def R_started R_stopped R_restart R_refl
      split: bind_splits option.splits)

lemma R_mount_all: "do_mount_all P n a s = Some (r, t) \<Longrightarrow> R s t"
proof (cases "n = 2")
  case True
  assume a: "do_mount_all P n a s = Some (r, t)"
  obtain c s1 where s1: "sys (sys_fork P) s = (c, s1)" by fastforce
  have "quiet s s1" using quiet_sysD(1) [OF s1 quiet_refl] .
  then have R1: "R s s1" using R_quiet R_refl by blast
  have R2: "R s u" if "sys f (emit e s1) = (st, u)" for f :: "nat \<Rightarrow> int option" and e st u
    using R_sys(1) [OF that] R_emit R1 by blast
  show ?thesis using a True R1
    by (auto simp: do_mount_all_def s1 Let_def split: if_splits bind_splits prod.splits dest!: R2 intro!: R_set R_triggers)
qed (use R_refl in \<open>simp add: do_mount_all_def\<close>)

lemma R_command:
  assumes "run_command P f n a s = Some (r, t)"
  shows "R s t"
proof (cases "only_calls f")
  case True
  then show ?thesis using R_quiet [OF R_refl quiet_commands [OF assms]] by simp
next
  case False
  have "do_setprop P a s = Some (r, t) \<Longrightarrow> R s t" "do_trigger a s = Some (r, t) \<Longrightarrow> R s t"
    "do_load_persist_props P n s = Some (r, t) \<Longrightarrow> R s t"
    by (auto simp: do_setprop_def do_trigger_def do_load_persist_props_def load_persist_props_def
        load_override_properties_def R_set R_triggers R_persistent R_refl R_emit split: bind_splits if_splits)
  moreover have "do_export a s = Some (r, t) \<Longrightarrow> R s t"
    using R_minor minor_fields(12) by (auto simp: do_export_def add_env_def split: bind_splits)
  ultimately show ?thesis
    using assms False R_class [of a s r t] R_services [of a s r t] R_mount_all [of n a s r t] minor_do_mount [of P a s r t] R_minor [of s t]
    unfolding only_calls_def by (cases f) auto
qed

end

lemma quiet_mix_loop:
  assumes "mix_loop P hw ur k s = Some y"
  shows "quiet u s \<longrightarrow> quiet u (snd y)"
proof (rule mix_loop.raw_induct [of "\<lambda>x y. quiet u (snd x) \<longrightarrow> quiet u (snd y)", unfolded snd_conv, OF _ assms], goal_cases)
  case (1 loop P hw ur k s y)
  obtain c v where v: "sys (\<lambda>n. sys_read_chunk P n (512 - k)) s = (c, v)" by fastforce
  define e where "e = (case c of None \<Rightarrow> v | Some c \<Rightarrow> emit (Write_fd ur (map Some c)) v)"
  obtain w x where x: "sys (sys_result P) e = (w, x)" by fastforce
  have q: "quiet u v" "quiet u x" if "quiet u s"
  proof -
    show "quiet u v" using quiet_sysD(1) [OF v that] .
    then have "quiet u e" by (simp add: e_def quiet_emitI split: option.split)
    then show "quiet u x" by (rule quiet_sysD(1) [OF x])
  qed
  show ?case
  proof (cases "\<exists>d. c = Some d \<and> d \<noteq> [] \<and> \<not> w < 0 \<and> k < 512")
    case True
    then obtain d where d: "c = Some d" "d \<noteq> []" "\<not> w < 0" "k < 512" by blast
    then have "loop P hw ur (k + nat w) x = Some y" using 1(2) v x by (simp add: e_def)
    from 1(1) [OF this] show ?thesis using q by simp
  next
    case False
    then show ?thesis using 1(2) v x q by (auto simp: e_def quiet_emitI split: option.splits if_splits)
  qed
qed

lemma quiet_mix:
  assumes "mix_hwrng_into_linux_rng_action P s = Some (r, t)"
  shows "quiet s t"
proof -
  obtain hw s1 where s1: "open_file P ''/dev/hw_random'' s = (hw, s1)" by fastforce
  obtain ur s2 where s2: "open_file P ''/dev/urandom'' s1 = (ur, s2)" by fastforce
  have q1: "quiet s s1" using quiet_open_fileD [OF s1 quiet_refl] .
  have q2: "quiet s s2" using quiet_open_fileD [OF s2 q1] .
  have q3: "quiet s (snd y)" if "mix_loop P hw ur 0 s2 = Some y" for y using quiet_mix_loop [OF that] q2 by blast
  show ?thesis using assms q1 q2 q3
    by (auto simp: mix_hwrng_into_linux_rng_action_def s1 s2 split: if_splits bind_splits intro!: quiet_emitI)
qed

lemma quiet_vt_set_mode: "vt_set_mode P g s = (r, t) \<Longrightarrow> quiet u s \<Longrightarrow> quiet u t"
  by (auto simp: vt_set_mode_def split: prod.splits if_splits dest!: quiet_open_fileD quiet_sysD(2) intro!: quiet_sysI)

lemma quiet_vt_set_mode_snd: "quiet u s \<Longrightarrow> quiet u (snd (vt_set_mode P g s))"
  using quiet_vt_set_mode by (metis prod.collapse)

lemma quiet_fb_open: "fb_open P s = (r, t) \<Longrightarrow> quiet u s \<Longrightarrow> quiet u t"
  by (auto simp: fb_open_def split: prod.splits if_splits option.splits dest!: quiet_open_fileD quiet_sysD intro!: quiet_sysI)

lemma quiet_load_image:
  assumes "load_565rle_image P f s = Some (r, t)" and "quiet u s"
  shows "quiet u t"
proof -
  obtain r1 s1 where s1: "vt_set_mode P True s = (r1, s1)" by fastforce
  obtain fd s2 where s2: "open_file P f s1 = (fd, s2)" by fastforce
  obtain d s3 where s3: "sys (\<lambda>n. sys_read P n f) s2 = (d, s3)" by fastforce
  obtain fb s4 where s4: "fb_open P s3 = (fb, s4)" by fastforce
  have q1: "quiet u s1" using quiet_vt_set_mode [OF s1 assms(2)] .
  have q2: "quiet u s2" using quiet_open_fileD [OF s2 q1] .
  have q3: "quiet u s3" using quiet_sysD(1) [OF s3 q2] .
  have q4: "quiet u s4" using quiet_fb_open [OF s4 q3] .
  show ?thesis using assms(1) q1 q2 q3 q4
    by (auto simp: load_565rle_image_def s1 s2 s3 s4 fb_update_def fb_close_def Let_def split: if_splits option.splits
        intro!: quiet_vt_set_mode_snd quiet_emitI quiet_sysI)
qed

lemma quiet_console_open: "open_file P f s = (fd, t) \<Longrightarrow> quiet s t"
  using quiet_open_fileD quiet_refl by blast

context init_steps
begin

lemma R_commands: "run_commands P cs t = Some u \<Longrightarrow> R s t \<Longrightarrow> R s u"
proof (induction cs arbitrary: t)
  case (Cons c cs)
  then show ?case by (auto split: bind_splits) (metis R_command R_trans)
qed simp

lemma R_wait:
  assumes "wait_for_one_process P t = Some (r, u)" and "R s t"
  shows "R s u"
proof -
  obtain w t1 where t1: "sys (sys_waitpid P) t = (w, t1)" by fastforce
  have R1: "R s t1" using R_sys(1) [OF t1 assms(2)] .
  show ?thesis
  proof (cases "\<exists>p i. w = Some p \<and> 0 < p \<and> service_find_by_pid p t1 = Some i")
    case True
    then obtain p i where p: "w = Some p" "0 < p" "service_find_by_pid p t1 = Some i" by blast
    obtain b t2 where t2: "service_exited P i p t1 = (b, t2)" by fastforce
    have "i < length (service_list t1)" "pid (svc t1 i) = p"
      using find_index_Some [OF p(3) [unfolded service_find_by_pid_def]] by auto
    then have R2: "R s t2" using R_trans [OF R1 R_exit [OF _ _ p(2)]] t2 by fastforce
    show ?thesis using assms(1) p t1 t2 R2
      by (auto simp: wait_for_one_process_def split: if_splits bind_splits intro!: R_notify dest: R_commands)
  next
    case False
    then show ?thesis using assms(1) t1 R1
      by (auto simp: wait_for_one_process_def R_emit split: option.splits if_splits)
  qed
qed

lemma R_reap:
  assumes "reap_loop P t = Some u"
  shows "R s t \<longrightarrow> R s u"
proof -
  have "fst (P, t) = P \<longrightarrow> R s (snd (P, t)) \<longrightarrow> R s u"
  proof (rule reap_loop.raw_induct [of "\<lambda>x y. fst x = P \<longrightarrow> R s (snd x) \<longrightarrow> R s y", OF _ assms], goal_cases)
    case (1 loop P' t y)
    then show ?case using R_wait by (fastforce split: option.splits prod.splits if_splits)
  qed
  then show ?thesis by simp
qed

lemma R_handle_signal: "handle_signal P t = Some u \<Longrightarrow> R s t \<Longrightarrow> R s u"
  using R_reap R_syscall unfolding handle_signal_def by blast

lemma R_signal_init:
  assumes "signal_init P t = Some u" and "R s t"
  shows "R s u"
proof -
  define t1 where "t1 = snd (syscall P ''sigaction'' [Str ''SIGCHLD''] t)"
  obtain r t2 where t2: "syscall P ''socketpair'' [] t1 = (r, t2)" by fastforce
  obtain s0 t3 where t3: "sys (sys_result P) t2 = (s0, t3)" by fastforce
  obtain s1 t4 where t4: "sys (sys_result P) t3 = (s1, t4)" by fastforce
  have R2: "R s t2" using R_sys(2) [OF t2] R_syscall [OF assms(2)] unfolding t1_def by blast
  have "R s t4" using R_sys(1) [OF t4 R_sys(1) [OF t3 R2]] .
  then have R4: "R s (t4\<lparr>signal_recv_fd := s1\<rparr>)" using R_trans R_minor minor_fields(3) by blast
  show ?thesis
    using assms(1) R2 R4 R_handle_signal
    unfolding signal_init_def Let_def t1_def [symmetric] t2 prod.case t3 t4
    by (auto split: if_splits intro: R_syscall dest!: R_handle_signal)
qed

lemma R_keycodes: "R s t \<Longrightarrow> R s (add_service_keycodes i t)"
proof (cases "keycodes (svc t i)")
  case (Some ks)
  assume "R s t"
  then have "R s (upd_svc i (\<lambda>x. x\<lparr>keychord_id := keychords_count t + 1\<rparr>) t)" using R_trans R_chord by blast
  then show ?thesis using R_trans R_minor minor_fields(8) unfolding add_service_keycodes_def Some option.case by blast
qed (simp add: add_service_keycodes_def)

lemma R_keychord_init: "R s t \<Longrightarrow> R s (keychord_init P t)"
proof -
  assume a: "R s t"
  define t1 where "t1 = service_for_each add_service_keycodes t"
  have R1: "R s t1" unfolding t1_def service_for_each_def by (rule R_service_loop) (use R_keycodes a in auto)
  obtain fd t2 where t2: "open_file P ''/dev/keychord'' t1 = (fd, t2)" by fastforce
  have R2: "R s t2" using R_quiet [OF R1 quiet_console_open [OF t2]] .
  define t3 where "t3 = emit (Keychord_write (keychords t2)) (snd (syscall P ''fcntl'' [Num fd, Str ''FD_CLOEXEC''] t2))"
  have R3: "R s t3" unfolding t3_def using R2 by (intro R_emit R_syscall)
  obtain r t4 where t4: "sys (sys_result P) t3 = (r, t4)" by fastforce
  have R4: "R s t4" using R_sys(1) [OF t4 R3] .
  have close: "R s (u\<lparr>keychords := [], keychord_fd := k\<rparr>)" if "R s u" for u k
    using that R_trans R_minor minor_fields(7) by blast
  have k: "keychords (snd (syscall P ''fcntl'' [Num fd, Str ''FD_CLOEXEC''] t2)) = keychords t2"
    by (simp add: syscall_def sys_def emit_def)
  show ?thesis using R1 R2 R4 close R_syscall [OF R_emit(2) [OF R4]]
    by (auto simp: keychord_init_def t1_def [symmetric] t2 k t3_def [symmetric] t4 Let_def R_emit split: prod.splits)
qed

end

context init_steps
begin

lemma R_property_service: "R s t \<Longrightarrow> R s (start_property_service P t)"
proof -
  assume a: "R s t"
  define t1 where "t1 = load_persistent_properties P (load_override_properties
      (load_properties_from_file P (PROP_PATH_SYSTEM_DEFAULT P) (load_properties_from_file P (PROP_PATH_SYSTEM_BUILD P) t)))"
  have "R s t1" unfolding t1_def load_override_properties_def using a by (intro R_persistent R_load_file)
  moreover obtain fd t2 where t2: "create_socket P (PROP_SERVICE_NAME P) SOCK_STREAM 0x1B6 0 0 t1 = (fd, t2)" by fastforce
  ultimately have R2: "R s t2"
    using R_quiet quiet_create_socket [of t1 P "PROP_SERVICE_NAME P" SOCK_STREAM "0x1B6" 0 0] by simp
  have "R s (u\<lparr>property_set_fd := k\<rparr>)" if "R s u" for u k
    using that R_trans R_minor minor_fields(2) by blast
  then show ?thesis using R2
    unfolding start_property_service_def Let_def t1_def [symmetric] t2 prod.case by (simp add: R_syscall)
qed

lemma R_console_init:
  assumes "console_init_action P t = Some (r, u)" and "R s t"
  shows "R s u"
proof -
  define t1 where "t1 = (if console t \<noteq> [] then t\<lparr>console_name := take (PROP_VALUE_MAX P - 1) (''/dev/'' @ console t)\<rparr> else t)"
  have R1: "R s t1" unfolding t1_def using assms(2) R_trans R_minor minor_fields(5) by auto
  obtain fd t2 where t2: "open_file P (console_name t1) t1 = (fd, t2)" by fastforce
  have R2: "R s t2" using R_quiet [OF R1 quiet_console_open [OF t2]] .
  define t3 where "t3 = emit (Syscall ''close'' [Num fd]) (if fd \<ge> 0 then t2\<lparr>have_console := True\<rparr> else t2)"
  have "R s (if fd \<ge> 0 then t2\<lparr>have_console := True\<rparr> else t2)" using R2 R_trans R_minor minor_fields(4) by auto
  then have R3: "R s t3" unfolding t3_def by (rule R_emit)
  obtain k t4 where t4: "load_565rle_image P ''/initlogo.rle'' t3 = Some (k, t4)"
    using assms(1) unfolding console_init_action_def Let_def t1_def [symmetric] t2 prod.case t3_def [symmetric]
    by (auto split: bind_splits)
  have R4: "R s t4" using R_quiet [OF R3 quiet_load_image [OF t4 quiet_refl]] .
  obtain fd5 t5 where t5: "open_file P ''/dev/tty0'' t4 = (fd5, t5)" by fastforce
  have R5: "R s t5" using R_quiet [OF R4 quiet_console_open [OF t5]] .
  show ?thesis
    using assms(1) R4 R5 unfolding console_init_action_def Let_def t1_def [symmetric] t2 prod.case t3_def [symmetric] t4
    by (auto simp: t5 R_emit split: if_splits)
qed

lemma R_func:
  assumes "run_func P f n a s = Some (r, t)"
  shows "R s t"
proof -
  have wait: "R s t" if "wait_for_coldboot_done_action P s = Some (r, t)"
    using that R_quiet [OF R_refl quiet_wait_for_file [OF _ quiet_refl]]
    by (auto simp: wait_for_coldboot_done_action_def R_emit split: bind_splits if_splits)
  have mix: "R s t" if "mix_hwrng_into_linux_rng_action P s = Some (r, t)" using R_quiet [OF R_refl quiet_mix [OF that]] .
  have check: "R s t" if "check_startup_action s = Some (r, t)"
    using that by (auto simp: check_startup_action_def R_emit R_refl split: if_splits)
  have trig: "R s t" if "queue_property_triggers_action P s = Some (r, t)"
    using that R_trans [OF R_queue_all [OF R_refl] R_minor [OF minor_fields(11)]]
    by (auto simp: queue_property_triggers_action_def)
  have key: "R s t" if "t = keychord_init P s" using that R_keychord_init [OF R_refl] by simp
  have serv: "R s t" if "t = start_property_service P s" using that R_property_service [OF R_refl] by simp
  have sig: "R s t" if "signal_init P s = Some t" using R_signal_init [OF that R_refl] .
  have cons: "R s t" if "console_init_action P s = Some (r, t)" using R_console_init [OF that R_refl] .
  show ?thesis
    using assms wait mix check trig key serv sig cons R_command [of f n a s r t] by (auto simp: run_func_def split: if_splits)
qed

lemma R_restart_needed:
  assumes "R s t"
  shows "R s (restart_service_if_needed P i t)"
proof -
  obtain now u where u: "gettime P t = (now, u)" by fastforce
  have "R s u" using R_sys(1) [OF u [unfolded gettime_def] assms] .
  then have "R s (upd_svc i (clear_flags SVC_RESTARTING) u)" "R s (u\<lparr>process_needs_restart := k\<rparr>)" "R s u" for k
    using R_trans R_clear R_minor minor_fields(6) by blast+
  then show ?thesis by (simp add: restart_service_if_needed_def Let_def u R_started)
qed

lemma R_restart_processes: "R s (restart_processes P s)"
  unfolding restart_processes_def service_for_each_flags_def
  by (rule R_service_loop [OF R_restart_needed R_minor [OF minor_fields(6)]])

lemma R_keychord: "R s (handle_keychord P s)"
proof -
  obtain r t where t: "sys (sys_read_u16 P) s = (r, t)" by fastforce
  have "R s t" using R_sys(1) [OF t R_refl] .
  then show ?thesis by (auto simp: handle_keychord_def Let_def t R_emit R_started split: option.split)
qed

lemma R_control: "R s t \<Longrightarrow> R s (handle_control_message P m a t)"
  by (auto simp: handle_control_message_def msg_start_def msg_stop_def msg_restart_def Let_def R_emit R_started R_stopped R_restart
      split: option.split prod.split)

lemma R_request: "R s t \<Longrightarrow> R s (set_request P u g n v fd t)"
proof -
  assume a: "R s t"
  obtain c t1 where t1: "sys (sys_peercon P) t = (c, t1)" by fastforce
  have "R s t1" using R_sys(1) [OF t1 a] .
  then show ?thesis using a by (simp add: set_request_def Let_def t1 R_syscall R_emit R_set R_control)
qed

lemma R_property_fd: "R s (handle_property_set_fd P s)"
proof -
  obtain fd t1 where t1: "syscall P ''accept'' [Num (property_set_fd s)] s = (fd, t1)" by fastforce
  obtain cr t2 where t2: "sys (sys_peercred P) t1 = (cr, t2)" by fastforce
  obtain m t3 where t3: "sys (sys_recv P) t2 = (m, t3)" by fastforce
  have R1: "R s t1" using R_sys(2) [OF t1 R_refl] .
  have R2: "R s t2" using R_sys(1) [OF t2 R1] .
  have R3: "R s t3" using R_sys(1) [OF t3 R2] .
  show ?thesis using R1 R2 R3
    by (simp add: handle_property_set_fd_def Let_def t1 t2 t3 R_syscall R_emit R_request split: option.split prod.split)
qed

end

context init_rounds
begin

lemma R_execute: "execute_one_command P s = Some t \<Longrightarrow> R s t"
  using R_trans [OF R_advance R_func] R_advance
  by (auto simp: execute_one_command_def Let_def split: option.splits)

end

end
