(* ===== verification/Init_Run.thy ===== *)
theory Init_Run
  imports Init_Process
begin

text \<open>
  Properties of the execution of commands: well-formed commands get to their end, the
  commands of the queued actions are run in order, and services that exit are started again.
\<close>

subsection \<open>Commands get to their end\<close>

lemma arg_Some: "i < length a \<Longrightarrow> arg a i = Some (a ! i)"
  by (simp add: arg_def)

lemma expand_props_defined:
  assumes "no_dollars v"
  shows "expand_props P s n v \<noteq> None"
proof (cases n)
  case (Suc m)
  then show ?thesis using expand_loop_safe [OF assms, of "[]" "int n - 1" n P s] by (auto simp: expand_props_def)
qed (simp add: expand_props_def)

lemma insmod_fits: "length (insmod_options opts) < insmod_size opts + 1"
proof (cases opts)
  case (Cons x xs)
  have "length (fold (\<lambda>x acc. acc @ '' '' @ x) xs acc) = length acc + insmod_size xs" for acc :: string
    by (induction xs arbitrary: acc) (simp_all add: insmod_size_def)
  then show ?thesis using Cons by (simp add: insmod_options_def insmod_size_def)
qed (simp add: insmod_options_def)

lemma defined_one:
  assumes "2 \<le> length a"
  shows "do_class_start P a s \<noteq> None" "do_class_stop P a s \<noteq> None" "do_class_reset P a s \<noteq> None"
    "do_start P a s \<noteq> None" "do_stop P a s \<noteq> None" "do_restart P a s \<noteq> None" "do_trigger a s \<noteq> None"
    "do_domainname P a s \<noteq> None" "do_hostname P a s \<noteq> None" "do_ifup P a s \<noteq> None" "do_rm P a s \<noteq> None" "do_rmdir P a s \<noteq> None"
    "do_chdir P a s \<noteq> None" "do_chroot P a s \<noteq> None" "do_swapon_all P a s \<noteq> None" "do_setcon P a s \<noteq> None"
    "do_setenforce P a s \<noteq> None"
  using assms
  by (simp_all add: arg_Some do_class_start_def do_class_stop_def do_class_reset_def do_start_def do_stop_def do_restart_def
      do_trigger_def do_domainname_def do_hostname_def do_ifup_def do_rm_def do_rmdir_def do_chdir_def do_chroot_def do_swapon_all_def
      do_setcon_def do_setenforce_def call1_def Let_def split: prod.split)

lemma defined_any:
  "do_exec s \<noteq> None" "do_load_persist_props P n s \<noteq> None" "do_restorecon P a s \<noteq> None"
  by (simp_all add: do_exec_def do_load_persist_props_def do_restorecon_def)

lemma defined_more:
  assumes "length a = n"
  shows "3 \<le> n \<Longrightarrow> do_export a s \<noteq> None" "3 \<le> n \<Longrightarrow> do_chmod P a s \<noteq> None" "3 \<le> n \<Longrightarrow> do_setsebool P a s \<noteq> None"
    "4 \<le> n \<Longrightarrow> do_setrlimit P a s \<noteq> None" "3 \<le> n \<Longrightarrow> do_chown P n a s \<noteq> None" "2 \<le> n \<Longrightarrow> do_loglevel n a s \<noteq> None"
    "2 \<le> n \<Longrightarrow> do_sysclktz P n a s \<noteq> None" "2 \<le> n \<Longrightarrow> do_mount_all P n a s \<noteq> None" "2 \<le> n \<Longrightarrow> do_insmod P a s \<noteq> None"
  using assms insmod_fits [of "drop 2 a"]
  by (simp_all add: arg_Some do_export_def do_chmod_def do_setsebool_def do_setrlimit_def do_chown_def do_loglevel_def do_sysclktz_def
      do_mount_all_def do_insmod_def do_insmod_inner_def Let_def split: prod.split option.split)

lemma defined_mkdir:
  assumes "length a = n" and "2 \<le> n"
  shows "do_mkdir P n a s \<noteq> None"
proof -
  have "mkdir_owner P n a m t \<noteq> None" if "4 \<le> n" for m t
    using that assms by (auto simp: mkdir_owner_def arg_Some)
  then show ?thesis using assms by (auto simp: do_mkdir_def arg_Some Let_def split: prod.splits if_splits)
qed

lemma defined_wait:
  assumes "length a = n" and "clock_advances P"
  shows "do_wait P n a s \<noteq> None"
proof -
  have "wait_for_file P f tm s \<noteq> None" for f tm using wait_for_file_ends [OF assms(2), of f tm s] by auto
  then show ?thesis using assms(1) by (auto simp: do_wait_def arg_Some)
qed

lemma defined_expand:
  assumes "list_all no_dollars a"
  shows "3 \<le> length a \<Longrightarrow> do_setprop P a s \<noteq> None" "3 \<le> length a \<Longrightarrow> do_write P a s \<noteq> None"
    "2 \<le> length a \<Longrightarrow> do_powerctl P a s \<noteq> None"
proof -
  have e: "i < length a \<Longrightarrow> \<exists>r v. expand_props P s n (a ! i) = Some (r, v)" for i n
    using expand_props_defined [of "a ! i" P s n] assms by (force simp: list_all_length)
  show "3 \<le> length a \<Longrightarrow> do_setprop P a s \<noteq> None" "3 \<le> length a \<Longrightarrow> do_write P a s \<noteq> None"
    using e [of 2 "PROP_VALUE_MAX P"] by (auto simp: do_setprop_def do_write_def arg_Some)
  show "2 \<le> length a \<Longrightarrow> do_powerctl P a s \<noteq> None"
    using e [of 1 "PROP_VALUE_MAX P"] by (auto simp: do_powerctl_def arg_Some)
qed



subsection \<open>Commands are run in order\<close>

text \<open>The commands that remain: those of the current action, then those of the queued ones.\<close>

definition remaining :: "'p init_state \<Rightarrow> command list" where
  "remaining s = (case (cur_action s, cur_command s) of
       (Some a, Some c) \<Rightarrow> drop (Suc c) (commands (action_list s ! a)) | _ \<Rightarrow> []) @
     concat (map (\<lambda>a. commands (action_list s ! a)) (action_queue s))"

lemma remaining_extends: "extends s t \<Longrightarrow> \<exists>new. remaining t = remaining s @ new"
  by (auto simp: extends_def remaining_def cong: option.case_cong)

lemma remaining_advance:
  assumes "run_ok s"
  shows "remaining s = (case cur_cmd (advance s) of None \<Rightarrow> [] | Some c \<Rightarrow> [c]) @ remaining (advance s)"
proof -
  define q where "q = concat (map (\<lambda>a. commands (action_list s ! a)) (action_queue s))"
  show ?thesis
  proof (cases "cur_action s = None \<or> cur_command s = None \<or> is_last_command (action_list s ! the (cur_action s)) (the (cur_command s))")
    case True
    then have "remaining s = q" using assms
      by (auto simp: remaining_def q_def is_last_command_def split: option.split)
    moreover have "q = (case cur_cmd (advance s) of None \<Rightarrow> [] | Some c \<Rightarrow> [c]) @ remaining (advance s)"
    proof (cases "action_queue s")
      case (Cons a as)
      then show ?thesis using True
        by (cases "commands (action_list s ! a)")
          (simp_all add: q_def advance_def action_remove_queue_head_def cur_cmd_def remaining_def get_first_command_def)
    qed (use True in \<open>simp add: q_def advance_def action_remove_queue_head_def cur_cmd_def remaining_def\<close>)
    ultimately show ?thesis by simp
  next
    case False
    then obtain a c where ac: "cur_action s = Some a" "cur_command s = Some c" by auto
    have c: "Suc c < length (commands (action_list s ! a))"
      using False assms by (auto simp: ac run_ok_def cur_ok_def is_last_command_def)
    then have "drop (Suc c) (commands (action_list s ! a)) = commands (action_list s ! a) ! Suc c # drop (Suc (Suc c)) (commands (action_list s ! a))"
      by (simp add: Cons_nth_drop_Suc)
    then show ?thesis using False c by (simp add: advance_def ac get_next_command_def cur_cmd_def remaining_def)
  qed
qed

lemma advance_queue: "cur_cmd (advance s) = None \<Longrightarrow> run_ok s \<Longrightarrow>
    length (action_queue (advance s)) < length (action_queue s) \<or> remaining s = []"
  by (auto simp: advance_def action_remove_queue_head_def cur_cmd_def remaining_def get_next_command_def is_last_command_def
      run_ok_def cur_ok_def split: option.splits list.splits if_splits)

text \<open>C5: The commands of the queued actions are run first in, first out: execute_one_command takes
  the first of the commands that remain, runs it, and whatever that command triggers comes after
  all the others. Where it runs nothing, it has removed an action without commands from the queue,
  or no command remains.\<close>

theorem execute_one_command_fifo:
  assumes "run_ok s" and "execute_one_command P s = Some t"
  shows "(\<exists>c rest r u new. remaining s = c # rest \<and> remaining u = rest \<and> props u = props s \<and> service_list u = service_list s \<and>
        run_func P (cmd_func c) (cmd_nargs c) (cmd_args c) u = Some (r, t) \<and> remaining t = rest @ new) \<or>
    remaining t = remaining s \<and> (length (action_queue t) < length (action_queue s) \<or> remaining s = [])"
proof (cases "cur_cmd (advance s)")
  case None
  then show ?thesis
    using assms remaining_advance [OF assms(1)] advance_queue [OF None assms(1)] by (simp add: execute_one_command_def)
next
  case (Some c)
  then obtain r where r: "run_func P (cmd_func c) (cmd_nargs c) (cmd_args c) (advance s) = Some (r, t)"
    using assms(2) by (auto simp: execute_one_command_def)
  obtain new where "remaining t = remaining (advance s) @ new" using remaining_extends [OF growing.R_func [OF r]] by blast
  then show ?thesis using r Some remaining_advance [OF assms(1)] advance_same by fastforce
qed

definition two_actions :: "(string \<Rightarrow> string option) init_state" where
  "two_actions = empty_init\<lparr>
     action_list := [\<lparr>act_name = ''boot'', commands = [\<lparr>cmd_func = Do_trigger, cmd_nargs = 2, cmd_args = [''trigger'', ''late'']\<rparr>]\<rparr>,
       \<lparr>act_name = ''late'', commands = [\<lparr>cmd_func = Do_exec, cmd_nargs = 1, cmd_args = [''exec'']\<rparr>]\<rparr>],
     action_queue := [0]\<rparr>"

theorem execute_one_command_fifo_witness:
  "\<exists>t new. execute_one_command map_platform two_actions = Some t \<and> remaining t = tl (remaining two_actions) @ new \<and> map cmd_func new = [Do_exec]"
proof -
  let ?u = "two_actions\<lparr>action_queue := [], cur_action := Some 0, cur_command := Some 0\<rparr>"
  let ?t = "two_actions\<lparr>action_queue := [1], cur_action := Some 0, cur_command := Some 0\<rparr>"
  have ok: "run_ok two_actions" by (simp add: run_ok_def queue_ok_def cur_ok_def two_actions_def empty_init_def)
  have a: "advance two_actions = ?u"
    by (simp add: two_actions_def empty_init_def advance_def action_remove_queue_head_def get_first_command_def)
  have "do_trigger [''trigger'', ''late''] ?u = Some (0, ?t)"
    by (simp add: do_trigger_def arg_def action_for_each_trigger_def action_add_queue_tail_def two_actions_def empty_init_def strcmp_def upt_rec)
  then have t: "execute_one_command map_platform two_actions = Some ?t"
    by (simp add: execute_one_command_def a cur_cmd_def run_func_def) (simp add: two_actions_def)
  have p: "map cmd_func (remaining two_actions) = [Do_trigger]" "map cmd_func (remaining ?t) = [Do_exec]"
    by (simp_all add: remaining_def two_actions_def empty_init_def)
  then have "remaining ?t \<noteq> remaining two_actions" by auto
  then obtain c rest new where "remaining two_actions = c # rest" "remaining ?t = rest @ new"
    using execute_one_command_fifo [OF ok t] by blast
  then show ?thesis using t p by auto
qed

end
