(* ===== verification/Init_Main.thy ===== *)
theory Init_Main
  imports Init_Run
begin

text \<open>
  main of \<^verbatim>\<open>init/init/init.c\<close>: the set-up of the system, the boot sequence and the loop that
  runs commands, restarts services and answers events, with the invariants of the whole run.
\<close>

subsection \<open>Set-up\<close>

definition init_property_area :: "'p platform \<Rightarrow> 'p init_state \<Rightarrow> int \<times> 'p init_state" where
  "init_property_area P s =
     (if property_area_inited s then (- 1, s)
      else
        let (r, s) = syscall P ''__system_property_area_init'' [] s in
        if r \<noteq> 0 then (- 1, s)
        else
          let (fd, s) = open_file P ''/dev/__properties__'' s in
          if fd < 0 then (- 1, s)
          else
            let s = s\<lparr>pa_workspace_fd := fd\<rparr>;
                s = snd (syscall P ''fcntl'' [Num fd, Str ''FD_CLOEXEC''] s)
            in (0, s\<lparr>property_area_inited := True\<rparr>))"

definition property_init :: "'p platform \<Rightarrow> 'p init_state \<Rightarrow> 'p init_state" where
  "property_init P s = snd (init_property_area P s)"

text \<open>None: init exits.\<close>

definition open_devnull_stdio :: "'p platform \<Rightarrow> 'p init_state \<Rightarrow> 'p init_state option" where
  "open_devnull_stdio P s =
     (let (r, s) = syscall P ''mknod'' [Str ''/dev/__null__'', Num 0x2180, Num 0x103] s in
      if r \<noteq> 0 then None
      else
        let (fd, s) = open_file P ''/dev/__null__'' s; s = emit (Unlink ''/dev/__null__'') s in
        if fd < 0 then None
        else
          let s = snd (syscall P ''dup2'' [Num fd, Num 0] s);
              s = snd (syscall P ''dup2'' [Num fd, Num 1] s);
              s = snd (syscall P ''dup2'' [Num fd, Num 2] s)
          in Some (if fd > 2 then snd (syscall P ''close'' [Num fd] s) else s))"

text \<open>None: init has asked for a reboot into recovery and waits for it.\<close>

definition selinux_initialize :: "'p platform \<Rightarrow> 'p init_state \<Rightarrow> 'p init_state option" where
  "selinux_initialize P s =
     (let (disabled, s) = selinux_is_disabled P s in
      if disabled then Some s
      else
        let (r, s) = syscall P ''selinux_android_load_policy'' [] s in
        if r < 0 then None
        else
          let (h, s) = syscall P ''selinux_android_file_context_handle'' [] s;
              s = s\<lparr>sehandle := (h \<noteq> 0)\<rparr>;
              (enforcing, s) = selinux_is_enforcing P s
          in Some (snd (syscall P ''security_setenforce'' [Num (if enforcing then 1 else 0)] s)))"

definition mount_filesystems :: "'p platform \<Rightarrow> 'p init_state \<Rightarrow> 'p init_state" where
  "mount_filesystems P s =
     (let call = (\<lambda>f a s. snd (syscall P f a s));
          s = call ''umask'' [Num 0] s;
          s = call ''mkdir'' [Str ''/dev'', Num 0x1ED] s;
          s = call ''mkdir'' [Str ''/proc'', Num 0x1ED] s;
          s = call ''mkdir'' [Str ''/sys'', Num 0x1ED] s;
          s = call ''mount'' [Str ''tmpfs'', Str ''/dev'', Str ''tmpfs'', Str ''MS_NOSUID'', Str ''mode=0755''] s;
          s = call ''mkdir'' [Str ''/dev/pts'', Num 0x1ED] s;
          s = call ''mkdir'' [Str ''/dev/socket'', Num 0x1ED] s;
          s = call ''mount'' [Str ''devpts'', Str ''/dev/pts'', Str ''devpts'', Num 0] s;
          s = call ''mount'' [Str ''proc'', Str ''/proc'', Str ''proc'', Num 0] s;
          s = call ''mount'' [Str ''sysfs'', Str ''/sys'', Str ''sysfs'', Num 0] s;
          (fd, s) = open_file P ''/dev/.booting'' s
      in call ''close'' [Num fd] s)"

subsection \<open>The boot sequence\<close>

definition trigger :: "string \<Rightarrow> 'p init_state \<Rightarrow> 'p init_state" where
  "trigger name = action_for_each_trigger name action_add_queue_tail"

definition queue_boot_actions :: "bool \<Rightarrow> 'p init_state \<Rightarrow> 'p init_state" where
  "queue_boot_actions is_charger s =
     (let s = trigger ''early-init'' s;
          s = queue_builtin_action Wait_for_coldboot_done_action ''wait_for_coldboot_done'' s;
          s = queue_builtin_action Mix_hwrng_into_linux_rng_action ''mix_hwrng_into_linux_rng'' s;
          s = queue_builtin_action Keychord_init_action ''keychord_init'' s;
          s = queue_builtin_action Console_init_action ''console_init'' s;
          s = trigger ''init'' s;
          s = (if is_charger then s
               else trigger ''post-fs-data'' (trigger ''post-fs'' (trigger ''fs'' (trigger ''early-fs'' s))));
          s = queue_builtin_action Mix_hwrng_into_linux_rng_action ''mix_hwrng_into_linux_rng'' s;
          s = queue_builtin_action Property_service_init_action ''property_service_init'' s;
          s = queue_builtin_action Signal_init_action ''signal_init'' s;
          s = queue_builtin_action Check_startup_action ''check_startup'' s;
          s = (if is_charger then trigger ''charger'' s else trigger ''boot'' (trigger ''early-boot'' s))
      in queue_builtin_action Queue_property_triggers_action ''queue_property_triggers'' s)"

text \<open>Everything before the loop. \<open>depth\<close> bounds the depth of imports of rc files and \<open>nftw\<close>
  lists the files below a directory.\<close>

definition init_start :: "nat \<Rightarrow> 'p platform \<Rightarrow> (string \<Rightarrow> string list) \<Rightarrow> 'p init_state \<Rightarrow> 'p init_state option" where
  "init_start depth P nftw s = do {
     s \<leftarrow> open_devnull_stdio P (mount_filesystems P s);
     let s = snd (syscall P ''klog_init'' [] s);
     let s = property_init P s;
     let s = get_hardware_name P s;
     let s = process_kernel_cmdline P s;
     s \<leftarrow> selinux_initialize P s;
     let s = snd (restorecon P ''/dev'' s);
     let s = snd (restorecon P ''/dev/socket'' s);
     let s = snd (restorecon P ''/dev/__properties__'' s);
     let s = restorecon_recursive P nftw ''/sys'' s;
     let is_charger = \<not> strcmp (bootmode s) ''charger'';
     let s = (if is_charger then s else property_load_boot_defaults P s);
     (_, s) \<leftarrow> init_parse_config_file depth P ''/init.rc'' s;
     Some (queue_boot_actions is_charger s) }"

subsection \<open>The loop\<close>

text \<open>The variables of main: the watched descriptors, in the order they were registered, and
  the flags that tell which of them are.\<close>

record 'p main_state =
  init :: "'p init_state"
  ufds :: "int list"
  property_set_fd_init :: bool
  signal_fd_init :: bool
  keychord_fd_init :: bool

definition main_start :: "'p init_state \<Rightarrow> 'p main_state" where
  "main_start s = \<lparr>init = s, ufds = [], property_set_fd_init = False, signal_fd_init = False, keychord_fd_init = False\<rparr>"

definition register_fds :: "'p main_state \<Rightarrow> 'p main_state" where
  "register_fds m =
     (let m = (if \<not> property_set_fd_init m \<and> property_set_fd (init m) > 0
               then m\<lparr>ufds := ufds m @ [property_set_fd (init m)], property_set_fd_init := True\<rparr> else m);
          m = (if \<not> signal_fd_init m \<and> signal_recv_fd (init m) > 0
               then m\<lparr>ufds := ufds m @ [signal_recv_fd (init m)], signal_fd_init := True\<rparr> else m)
      in if \<not> keychord_fd_init m \<and> keychord_fd (init m) > 0
         then m\<lparr>ufds := ufds m @ [keychord_fd (init m)], keychord_fd_init := True\<rparr> else m)"

text \<open>-1 is no timeout.\<close>

definition poll_timeout :: "'p platform \<Rightarrow> 'p init_state \<Rightarrow> int \<times> 'p init_state" where
  "poll_timeout P s =
     (let (timeout, s) =
            (if process_needs_restart s \<noteq> 0 then
               let (now, s) = gettime P s; timeout = (process_needs_restart s - now) * 1000
               in (if timeout < 0 then 0 else timeout, s)
             else (- 1, s))
      in (if action_queue s \<noteq> [] \<or> cur_action s \<noteq> None then 0 else timeout, s))"

text \<open>The answer of poll is the list of the descriptors that can be read, which is empty when
  poll times out or fails.\<close>

fun dispatch :: "'p platform \<Rightarrow> int list \<Rightarrow> int list \<Rightarrow> 'p init_state \<Rightarrow> 'p init_state option" where
  "dispatch P ready [] s = Some s"
| "dispatch P ready (fd # fds) s = do {
     s \<leftarrow> (if fd \<in> set ready then
              if fd = property_set_fd s then Some (handle_property_set_fd P s)
              else if fd = keychord_fd s then Some (handle_keychord P s)
              else if fd = signal_recv_fd s then handle_signal P s
              else Some s
            else Some s);
     dispatch P ready fds s }"

definition main_round :: "'p platform \<Rightarrow> 'p main_state \<Rightarrow> 'p main_state option" where
  "main_round P m = do {
     s \<leftarrow> execute_one_command P (init m);
     let s = restart_processes P s;
     let m = register_fds (m\<lparr>init := s\<rparr>);
     let (timeout, s) = poll_timeout P (init m);
     let s = emit (Syscall ''poll'' [Num timeout]) s;
     let (ready, s) = sys (\<lambda>n. sys_poll P n (ufds m)) s;
     s \<leftarrow> dispatch P ready (ufds m) s;
     Some (m\<lparr>init := s\<rparr>) }"

subsection \<open>Every round respects the preorders\<close>

lemma register_fds_init [simp]: "init (register_fds m) = init m"
  by (simp add: register_fds_def Let_def)

lemma quiet_timeout: "quiet s (snd (poll_timeout P s))"
  by (simp add: poll_timeout_def gettime_def quiet_sys Let_def case_prod_unfold)

context init_rounds
begin

lemma R_dispatch: "dispatch P ready fds s = Some t \<Longrightarrow> R r s \<Longrightarrow> R r t"
proof (induction fds arbitrary: s)
  case (Cons fd fds)
  then obtain u where u: "dispatch P ready fds u = Some t" and
    d: "(if fd \<in> set ready then
              if fd = property_set_fd s then Some (handle_property_set_fd P s)
              else if fd = keychord_fd s then Some (handle_keychord P s)
              else if fd = signal_recv_fd s then handle_signal P s
              else Some s
            else Some s) = Some u"
    by (auto split: bind_splits)
  have "R s u" using d R_refl R_property_fd R_keychord R_handle_signal [of s u s] by (auto split: if_splits)
  then show ?case using Cons.IH [OF u R_trans [OF Cons.prems(2)]] by blast
qed simp

lemma R_round:
  assumes "main_round P m = Some m'"
  shows "R (init m) (init m')"
proof -
  obtain s where s: "execute_one_command P (init m) = Some s" using assms by (auto simp: main_round_def split: bind_splits)
  define m1 where "m1 = register_fds (m\<lparr>init := restart_processes P s\<rparr>)"
  obtain tmo s1 where s1: "poll_timeout P (restart_processes P s) = (tmo, s1)" by fastforce
  obtain ready s2 where s2: "sys (\<lambda>n. sys_poll P n (ufds m1)) (emit (Syscall ''poll'' [Num tmo]) s1) = (ready, s2)" by fastforce
  have d: "dispatch P ready (ufds m1) s2 = Some (init m')"
    using assms s s1 s2 by (auto simp: main_round_def m1_def [symmetric] Let_def split: bind_splits)
  have "R (init m) (restart_processes P s)" using R_trans [OF R_execute [OF s] R_restart_processes] .
  then have "R (init m) s1" using R_quiet quiet_timeout [of "restart_processes P s" P] s1 by simp
  then have "R (init m) s2" using R_sys(1) [OF s2] R_emit(1) by blast
  then show ?thesis by (rule R_dispatch [OF d])
qed

end

text \<open>Any number of rounds.\<close>

inductive rounds :: "'p platform \<Rightarrow> 'p main_state \<Rightarrow> 'p main_state \<Rightarrow> bool" for P m where
  rounds_none: "rounds P m m"
| rounds_more: "rounds P m m1 \<Longrightarrow> main_round P m1 = Some m2 \<Longrightarrow> rounds P m m2"

context init_rounds
begin

lemma R_rounds: "rounds P m m' \<Longrightarrow> R (init m) (init m')"
  by (induction rule: rounds.induct) (auto intro: R_refl R_trans R_round)

end

subsection \<open>The order of the boot\<close>

definition builtin :: "command_func \<Rightarrow> string \<Rightarrow> command" where
  "builtin f n = \<lparr>cmd_func = f, cmd_nargs = 0, cmd_args = [n]\<rparr>"

text \<open>The commands of an rc file's actions of a name.\<close>

definition script :: "'p init_state \<Rightarrow> string \<Rightarrow> command list" where
  "script s n = concat (map commands (filter (\<lambda>x. act_name x = n) (action_list s)))"

text \<open>The commands of a boot, in the order they are meant to run.\<close>

definition boot_script :: "bool \<Rightarrow> 'p init_state \<Rightarrow> command list" where
  "boot_script c s =
      script s ''early-init'' @
      [builtin Wait_for_coldboot_done_action ''wait_for_coldboot_done'',
       builtin Mix_hwrng_into_linux_rng_action ''mix_hwrng_into_linux_rng'',
       builtin Keychord_init_action ''keychord_init'',
       builtin Console_init_action ''console_init''] @
      script s ''init'' @
      (if c then [] else script s ''early-fs'' @ script s ''fs'' @ script s ''post-fs'' @ script s ''post-fs-data'') @
      [builtin Mix_hwrng_into_linux_rng_action ''mix_hwrng_into_linux_rng'',
       builtin Property_service_init_action ''property_service_init'',
       builtin Signal_init_action ''signal_init'',
       builtin Check_startup_action ''check_startup''] @
      (if c then script s ''charger'' else script s ''early-boot'' @ script s ''boot'') @
      [builtin Queue_property_triggers_action ''queue_property_triggers'']"

definition builtin_action :: "command_func \<Rightarrow> string \<Rightarrow> action" where
  "builtin_action f n = \<lparr>act_name = n, commands = [builtin f n]\<rparr>"

text \<open>The actions of the rc files, the built-in ones behind them, and the queued ones.\<close>

definition boot_state :: "action list \<Rightarrow> action list \<Rightarrow> action list \<Rightarrow> 'p init_state \<Rightarrow> bool" where
  "boot_state acts bs q s \<longleftrightarrow> queue_ok s \<and> action_list s = acts @ bs \<and> map ((!) (action_list s)) (action_queue s) = q \<and>
     cur_action s = None"

lemma boot_trigger:
  assumes "boot_state acts bs q s" and "list_all (\<lambda>x. act_name x \<noteq> n) (q @ bs)"
  shows "boot_state acts bs (q @ filter (\<lambda>x. act_name x = n) acts) (trigger n s)"
proof -
  let ?al = "action_list s"
  have "act_name (?al ! i) \<noteq> n" if "i \<in> set (action_queue s)" for i
    using assms that by (auto simp: boot_state_def list_all_iff)
  then have "filter (\<lambda>i. \<not> strcmp (act_name (?al ! i)) n \<and> i \<notin> set (action_queue s)) [0..<length ?al] =
      filter (\<lambda>i. act_name (?al ! i) = n) [0..<length ?al]"
    by (intro filter_cong) (auto simp: strcmp_def)
  moreover have "map ((!) ?al) (filter (\<lambda>i. act_name (?al ! i) = n) [0..<length ?al]) = filter (\<lambda>x. act_name x = n) ?al"
    using filter_map [of "\<lambda>x. act_name x = n" "(!) ?al" "[0..<length ?al]"] by (simp add: map_nth comp_def)
  moreover have "filter (\<lambda>x. act_name x = n) bs = []" using assms(2) by (simp add: filter_empty_conv list_all_iff)
  moreover have "queue_ok (trigger n s)" using assms(1) queue_ok_trigger(1) [of s] by (simp add: boot_state_def trigger_def)
  moreover have "trigger n s = s\<lparr>action_queue := action_queue s @ filter (\<lambda>i. \<not> strcmp (act_name (?al ! i)) n \<and> i \<notin> set (action_queue s)) [0..<length ?al]\<rparr>"
    by (simp add: trigger_def action_for_each_trigger_def action_loop_add)
  ultimately show ?thesis using assms(1) unfolding boot_state_def by auto
qed

lemma boot_builtin:
  assumes "boot_state acts bs q s"
  shows "boot_state acts (bs @ [builtin_action f n]) (q @ [builtin_action f n]) (queue_builtin_action f n s)"
proof -
  have l: "i < length (action_list s)" if "i \<in> set (action_queue s)" for i using assms that by (auto simp: boot_state_def queue_ok_def)
  then have "length (action_list s) \<notin> set (action_queue s)" by blast
  moreover have "map ((!) (action_list s @ [x])) (action_queue s) = map ((!) (action_list s)) (action_queue s)" for x
    using l by (simp add: nth_append)
  moreover have "queue_ok (queue_builtin_action f n s)" using assms queue_ok_builtin [of s] by (simp add: boot_state_def)
  ultimately show ?thesis using assms
    by (auto simp: boot_state_def queue_builtin_action_def action_add_queue_tail_def builtin_def builtin_action_def)
qed

lemma boot_start: "action_queue s = [] \<Longrightarrow> cur_action s = None \<Longrightarrow> boot_state (action_list s) [] [] s"
  by (simp add: boot_state_def queue_ok_def)

lemma boot_remaining: "boot_state acts bs q s \<Longrightarrow> remaining s = concat (map commands q)"
  by (auto simp: boot_state_def remaining_def comp_def)

lemma names_filter [simp]: "list_all (\<lambda>x. act_name x \<noteq> n) (filter (\<lambda>x. act_name x = m) as) \<longleftrightarrow> n \<noteq> m \<or> filter (\<lambda>x. act_name x = m) as = []"
  by (auto simp: list_all_iff filter_empty_conv)

lemma boot_queue:
  assumes "action_queue s = []" and "cur_action s = None"
  shows "\<exists>bs q. boot_state (action_list s) bs q (queue_boot_actions c s) \<and> list_all (\<lambda>x. list_all command_ok (commands x)) bs \<and>
    concat (map commands q) = boot_script c s"
proof -
  note step = boot_trigger boot_builtin
  have x: "boot_state a bs q t \<Longrightarrow> list_all (\<lambda>x. list_all command_ok (commands x)) bs \<and> concat (map commands q) = r \<Longrightarrow>
      \<exists>bs q. boot_state a bs q t \<and> list_all (\<lambda>x. list_all command_ok (commands x)) bs \<and> concat (map commands q) = r" for a bs q r and t :: "'a init_state"
    by blast
  show ?thesis
    by (cases c; simp only: queue_boot_actions_def Let_def if_True if_False; rule x, (rule step)+, rule boot_start [OF assms];
        simp add: builtin_action_def builtin_def script_def boot_script_def command_ok_def)
qed

subsection \<open>From the start to the loop\<close>

text \<open>The state before any rc file is read.\<close>

definition fresh :: "'p init_state \<Rightarrow> bool" where
  "fresh s \<longleftrightarrow> service_list s = [] \<and> action_list s = [] \<and> action_queue s = [] \<and> cur_action s = None \<and> cur_command s = None"

lemma fresh_prop_step:
  assumes "prop_step s t" and "fresh s"
  shows "fresh t"
proof -
  have "queue_ok t" using assms(2) prop_step_same(6) [OF assms(1)] by (simp add: fresh_def queue_ok_def)
  then show ?thesis using assms prop_step_same [OF assms(1)] by (simp add: fresh_def queue_ok_def)
qed

lemma bootmode_same: "minor s t \<Longrightarrow> bootmode t = bootmode s" "prop_step s t \<Longrightarrow> bootmode t = bootmode s"
  "bootmode (upd_svc i f s) = bootmode s"
  by (cases s; cases t; simp add: minor_def prop_step_def upd_svc_def)+

interpretation unparsed: init_moves P "\<lambda>s t. (fresh s \<longrightarrow> fresh t) \<and> bootmode t = bootmode s" for P :: "'p platform"
proof unfold_locales
  fix s t :: "'p init_state"
  show "(fresh s \<longrightarrow> fresh t) \<and> bootmode t = bootmode s" if "minor s t"
    using minor_same [OF that] bootmode_same(1) [OF that] by (simp add: fresh_def)
  show r: "(fresh s \<longrightarrow> fresh t) \<and> bootmode t = bootmode s" if "prop_step s t" for t
    using fresh_prop_step [OF that] bootmode_same(2) [OF that] by simp
  show "(fresh s \<longrightarrow> fresh (snd (property_set P n v s))) \<and> bootmode (snd (property_set P n v s)) = bootmode s" for n v
    by (rule r [OF prop_step_set])
qed (auto simp: fresh_def bootmode_same)

lemma fresh_quiet: "quiet s t \<Longrightarrow> fresh s \<Longrightarrow> fresh t"
  using unparsed.R_minor minor_quiet by blast

lemma fresh_set: "fresh s \<Longrightarrow> fresh (snd (property_set P n v s))"
  using fresh_prop_step prop_step_set by blast

lemma fresh_sys [simp]: "fresh (snd (syscall P f a s)) = fresh s" "fresh (snd (open_file P f s)) = fresh s" "fresh (emit e s) = fresh s"
  by (simp_all add: syscall_def open_file_def fresh_def Let_def case_prod_unfold)

lemma fresh_filesystems: "fresh s \<Longrightarrow> fresh (mount_filesystems P s)"
  by (simp add: mount_filesystems_def Let_def case_prod_unfold)

lemma fresh_devnull: "open_devnull_stdio P s = Some t \<Longrightarrow> fresh s \<Longrightarrow> fresh t"
  by (auto simp: open_devnull_stdio_def Let_def case_prod_unfold split: if_splits)

lemma fresh_property_init: "fresh s \<Longrightarrow> fresh (property_init P s)"
  by (simp add: property_init_def init_property_area_def open_file_def syscall_def fresh_def Let_def case_prod_unfold)

lemma fresh_hardware: "fresh s \<Longrightarrow> fresh (get_hardware_name P s)"
  by (simp add: get_hardware_name_def fresh_def Let_def case_prod_unfold split: option.split)

lemma fresh_cmdline:
  assumes "fresh s"
  shows "fresh (import_kernel_cmdline P e s)"
proof -
  have nv: "fresh t \<Longrightarrow> fresh (import_kernel_nv P x e t)" for x t
    by (auto simp: import_kernel_nv_def Let_def fresh_set split: option.split) (simp_all add: fresh_def)
  have "fresh t \<Longrightarrow> fresh (cmdline_loop (\<lambda>x. import_kernel_nv P x e) p t)" for p t
  proof (induction p arbitrary: t rule: length_induct)
    case (1 p)
    then show ?case using nv strchr_suffix_length
      by (auto simp: cmdline_loop.simps [of _ p] split: option.split)
  qed
  moreover have "fresh (s\<lparr>nsys := k\<rparr>)" for k using assms by (simp add: fresh_def)
  ultimately show ?thesis by (simp add: import_kernel_cmdline_def sys_def)
qed

lemma fresh_kernel: "fresh s \<Longrightarrow> fresh (process_kernel_cmdline P s)"
proof -
  have "fresh t \<Longrightarrow> fresh (export_loop P rows t)" for rows t
    by (induction P rows t rule: export_loop.induct) (simp_all add: Let_def fresh_set)
  moreover have "fresh t \<Longrightarrow> fresh (export_vars P t)" for t by (simp add: export_vars_def fresh_def Let_def)
  ultimately have e: "fresh t \<Longrightarrow> fresh (export_kernel_boot_props P t)" for t
    by (simp add: export_kernel_boot_props_def Let_def fresh_set)
  then show "fresh s \<Longrightarrow> fresh (process_kernel_cmdline P s)"
    by (simp add: process_kernel_cmdline_def Let_def e fresh_cmdline)
qed

lemma fresh_selinux: "selinux_initialize P s = Some t \<Longrightarrow> fresh s \<Longrightarrow> fresh t"
  by (auto simp: selinux_initialize_def selinux_is_disabled_def selinux_is_enforcing_def syscall_def fresh_def Let_def case_prod_unfold
      split: if_splits)

lemma fresh_restorecon: "fresh s \<Longrightarrow> fresh (snd (restorecon P f s))"
  using fresh_quiet quiet_restorecon by blast

lemma fresh_recursive: "fresh s \<Longrightarrow> fresh (restorecon_recursive P nftw d s)"
proof -
  have "fresh t \<Longrightarrow> fresh (fold (\<lambda>f s. snd (restorecon P f s)) fs t)" for fs t
    by (induction fs arbitrary: t) (simp_all add: fresh_restorecon)
  then show "fresh s \<Longrightarrow> fresh (restorecon_recursive P nftw d s)" by (simp add: restorecon_recursive_def)
qed

text \<open>A service the parser has made does not run, and no action is queued yet.\<close>

definition idle :: "service \<Rightarrow> bool" where
  "idle x \<longleftrightarrow> pid x = 0 \<and> \<not> has_flag x SVC_RUNNING \<and> \<not> has_flag x SVC_RESTARTING"

definition parsed :: "string \<Rightarrow> 'p init_state \<Rightarrow> bool" where
  "parsed b s \<longleftrightarrow> list_all idle (service_list s) \<and> action_queue s = [] \<and> cur_action s = None \<and> cur_command s = None \<and> bootmode s = b"

lemma parsed_upd:
  assumes "parsed b s" and "\<And>x. idle x \<Longrightarrow> idle (f x)"
  shows "parsed b (upd_svc i f s)"
proof (cases "i < length (service_list s)")
  case True
  then have "idle (f (svc s i))" using assms by (simp add: parsed_def list_all_length)
  then show ?thesis using assms(1) by (simp add: parsed_def list_all_update bootmode_same)
qed (use assms(1) in \<open>simp add: upd_svc_def list_update_beyond\<close>)

lemma parsed_same: "parsed b s \<Longrightarrow> (\<And>x. pid (f x) = pid x) \<Longrightarrow> (\<And>x. flags (f x) = flags x) \<Longrightarrow> parsed b (upd_svc i f s)"
  by (rule parsed_upd) (simp_all add: idle_def has_flag_def)

lemma parsed_error [simp]: "parsed b (parse_error m s) = parsed b s" "parsed b (ERROR m s) = parsed b s"
  by (simp_all add: parse_error_def parsed_def ERROR_def emit_def)

lemma idle_flags: "k \<in> {SVC_CONSOLE, SVC_DISABLED, SVC_RC_DISABLED, SVC_ONESHOT, SVC_CRITICAL} \<Longrightarrow> idle x \<Longrightarrow> idle (set_flags k x)"
  by (auto simp: idle_def flag_simps)

lemma parsed_line_service:
  assumes "parsed b s" and "parse_line_service P i n a s = Some t"
  shows "parsed b t"
proof (cases "n = 0")
  case False
  obtain v where v: "those (take n a) = Some v" using assms(2) False by (auto simp: parse_line_service_def split: bind_splits)
  define u where "u = upd_svc i (\<lambda>x. x\<lparr>ioprio_class := IoSchedClass_NONE\<rparr>) s"
  have u: "parsed b u" using assms(1) by (simp add: u_def parsed_same)
  have "parsed b (option_ioprio n v i u)" "parsed b (option_group P n v i u)" "parsed b (option_keycodes n v i u)" "parsed b (option_socket P n v i u)"
    using u by (simp_all add: option_ioprio_def option_group_def option_keycodes_def option_socket_def Let_def parsed_same
        split: option.split)
  moreover have "parsed b t" if "option_onrestart n a i u = Some t \<or> option_setenv n a i u = Some t" for t
    using that u by (auto simp: option_onrestart_def option_setenv_def Let_def parsed_same split: if_splits bind_splits)
  moreover have "parsed b (upd_svc i (set_flags k) u)" "parsed b (upd_svc i (set_flags SVC_RC_DISABLED) (upd_svc i (set_flags SVC_DISABLED) u))"
    if "k \<in> {SVC_CONSOLE, SVC_ONESHOT, SVC_CRITICAL}" for k
    using that u by (auto intro!: parsed_upd idle_flags)
  moreover have "parsed b (upd_svc i (\<lambda>x. x\<lparr>classname := c\<rparr>) u)" "parsed b (upd_svc i (\<lambda>x. x\<lparr>uid := k\<rparr>) u)" "parsed b (upd_svc i (\<lambda>x. x\<lparr>seclabel := l\<rparr>) u)" for c k l
    by (simp_all add: u parsed_same)
  ultimately show ?thesis using assms(2) False v u unfolding parse_line_service_def Let_def u_def [symmetric]
    by (auto simp del: upd_svc_simps split: if_splits)
qed (use assms in \<open>simp add: parse_line_service_def\<close>)

interpretation idle_services: parsing P "parsed b" for P :: "'p platform" and b
proof unfold_locales
  fix s t :: "'p init_state" and l n a kw p q
  show "parsed b (s\<lparr>nsys := k\<rparr>) = parsed b s" for k by (simp add: parsed_def)
  have "parse_line_action i n a s = Some t \<Longrightarrow> parsed b s \<Longrightarrow> parsed b t" for i
    by (auto simp: parse_line_action_def Let_def upd_action_def split: if_splits bind_splits) (simp_all add: parsed_def)
  then show "parsed b t" if "parsed b s" "parse_line P l n a s = Some t"
    using that parsed_line_service [of b s P _ n a t] by (auto simp: parse_line_def split: line_parser.splits)
  have "idle (zero_service\<lparr>svc_name := x, classname := y, svc_args := z\<rparr>)" for x y z
    by (simp add: idle_def zero_service_def has_flag_def)
  then show "parsed b t" if "parsed b s" "parse_new_section P kw p s = Some (q, t)"
    using that
    by (auto simp: parse_new_section_def parse_service_def parse_action_def parse_import_def split: if_splits bind_splits)
      (simp_all add: parsed_def)
qed simp_all

lemma trigger_same: "bootmode (trigger n s) = bootmode s" "service_list (trigger n s) = service_list s" "cur_command (trigger n s) = cur_command s"
  by (simp_all add: trigger_def action_for_each_trigger_def action_loop_add)

lemma builtin_same: "bootmode (queue_builtin_action f n s) = bootmode s" "service_list (queue_builtin_action f n s) = service_list s"
  "cur_command (queue_builtin_action f n s) = cur_command s"
  by (simp_all add: queue_builtin_action_def action_add_queue_tail_def Let_def)

lemma queue_boot_same: "bootmode (queue_boot_actions c s) = bootmode s" "service_list (queue_boot_actions c s) = service_list s"
  "cur_command (queue_boot_actions c s) = cur_command s"
  by (simp_all add: queue_boot_actions_def Let_def trigger_same builtin_same)

lemma init_start_parsed:
  assumes "fresh s" and "init_start depth P nftw s = Some t"
  shows "\<exists>u. parsed (bootmode t) u \<and> rc_ok u \<and> t = queue_boot_actions (bootmode t = ''charger'') u"
proof -
  obtain s1 where s1: "open_devnull_stdio P (mount_filesystems P s) = Some s1" using assms(2) by (auto simp: init_start_def split: bind_splits)
  define s2 where "s2 = process_kernel_cmdline P (get_hardware_name P (property_init P (snd (syscall P ''klog_init'' [] s1))))"
  obtain s3 where s3: "selinux_initialize P s2 = Some s3" using assms(2) s1 by (auto simp: init_start_def s2_def Let_def split: bind_splits)
  define s4 where "s4 = restorecon_recursive P nftw ''/sys'' (snd (restorecon P ''/dev/__properties__'' (snd (restorecon P ''/dev/socket'' (snd (restorecon P ''/dev'' s3))))))"
  define s5 where "s5 = (if \<not> strcmp (bootmode s4) ''charger'' then s4 else property_load_boot_defaults P s4)"
  obtain r u where u: "init_parse_config_file depth P ''/init.rc'' s5 = Some (r, u)" and t: "t = queue_boot_actions (\<not> strcmp (bootmode s4) ''charger'') u"
    using assms(2) s1 s3 by (auto simp: init_start_def s2_def [symmetric] s4_def s5_def Let_def cong: if_cong split: bind_splits)
  have "fresh s1" using fresh_devnull [OF s1 fresh_filesystems [OF assms(1)]] .
  then have "fresh s2" by (simp add: s2_def fresh_kernel fresh_hardware fresh_property_init)
  then have "fresh s3" using fresh_selinux [OF s3] by simp
  then have "fresh s4" by (simp add: s4_def fresh_recursive fresh_restorecon)
  then have s5: "fresh s5" "bootmode s5 = bootmode s4"
    using unparsed.R_load_file [OF unparsed.R_refl, of s4 P "PROP_PATH_RAMDISK_DEFAULT P"] by (auto simp: s5_def property_load_boot_defaults_def)
  have "parsed (bootmode s4) s5" "rc_ok s5" using s5 by (simp_all add: parsed_def fresh_def rc_ok_def)
  then have "parsed (bootmode s4) u" "rc_ok u" using idle_services.I_parse [OF u] well_formed.I_parse [OF u] by blast+
  moreover from this have "bootmode t = bootmode s4" by (simp add: t queue_boot_same(1) parsed_def)
  ultimately show ?thesis using t by (auto simp: strcmp_def)
qed


definition boot_platform :: "(string \<Rightarrow> string option) platform" where
  "boot_platform = map_platform\<lparr>sys_stat := (\<lambda>_ f. f \<noteq> ''/sys/fs/selinux'')\<rparr>"

lemma boot_platform_starts: "\<exists>t. init_start 1 boot_platform (\<lambda>_. []) empty_init = Some t"
proof -
  obtain s1 where s1: "open_devnull_stdio boot_platform (mount_filesystems boot_platform empty_init) = Some s1"
    by (simp add: open_devnull_stdio_def boot_platform_def map_platform_def syscall_def open_file_def Let_def case_prod_unfold)
  obtain s2 where s2: "selinux_initialize boot_platform (process_kernel_cmdline boot_platform (get_hardware_name boot_platform
      (property_init boot_platform (snd (syscall boot_platform ''klog_init'' [] s1))))) = Some s2"
    by (simp add: selinux_initialize_def selinux_is_disabled_def boot_platform_def Let_def case_prod_unfold)
  have "init_parse_config_file 1 boot_platform f s = Some (- 1, s\<lparr>nsys := Suc (nsys s)\<rparr>)" for f s
    by (simp add: read_file_def sys_def boot_platform_def map_platform_def)
  then show ?thesis by (simp add: init_start_def Let_def s1 s2 del: One_nat_def)
qed

lemma fresh_empty: "fresh empty_init"
  by (simp add: fresh_def empty_init_def)


subsection \<open>Invariants of the whole run\<close>

inductive booted :: "nat \<Rightarrow> 'p platform \<Rightarrow> (string \<Rightarrow> string list) \<Rightarrow> 'p init_state \<Rightarrow> 'p main_state \<Rightarrow> bool" for depth P nftw s where
  booted_start: "init_start depth P nftw s = Some t \<Longrightarrow> booted depth P nftw s (main_start t)"
| booted_round: "booted depth P nftw s m \<Longrightarrow> main_round P m = Some m' \<Longrightarrow> booted depth P nftw s m'"

lemma init_start_ok:
  assumes "fresh s" and "init_start depth P nftw s = Some t"
  shows "rc_ok t \<and> run_ok t \<and> services_ok t"
proof -
  define c where "c = (bootmode t = ''charger'')"
  obtain u where u: "parsed (bootmode t) u" "rc_ok u" "t = queue_boot_actions c u"
    using init_start_parsed [OF assms] unfolding c_def by blast
  have q: "action_queue u = []" "cur_action u = None" "cur_command u = None" "list_all idle (service_list u)" using u(1) by (simp_all add: parsed_def)
  obtain bs q where b: "boot_state (action_list u) bs q t" "list_all (\<lambda>x. list_all command_ok (commands x)) bs"
    using boot_queue [OF q(1,2), of c] unfolding u(3) by (elim exE conjE)
  have l: "service_list t = service_list u" "cur_command t = None" unfolding u(3) by (simp_all add: queue_boot_same q(3))
  have "run_ok t" using b(1) l(2) by (simp add: run_ok_def cur_ok_def boot_state_def)
  moreover have "rc_ok t" using u(2) b l(1) by (simp add: rc_ok_def boot_state_def)
  moreover have "idle x \<Longrightarrow> svc_inv x" for x by (simp add: idle_def svc_inv_def)
  ultimately show ?thesis using q(4) l(1) by (simp add: services_ok_def list_all_iff)
qed

text \<open>How many descriptors are watched.\<close>

definition ufds_ok :: "'p main_state \<Rightarrow> bool" where
  "ufds_ok m \<longleftrightarrow> length (ufds m) = of_bool (property_set_fd_init m) + of_bool (signal_fd_init m) + of_bool (keychord_fd_init m)"

lemma ufds_ok_register: "ufds_ok m \<Longrightarrow> ufds_ok (register_fds m)"
  by (simp add: ufds_ok_def register_fds_def Let_def)

lemma ufds_ok_round:
  assumes "main_round P m = Some m'" and "ufds_ok m"
  shows "ufds_ok m'"
proof -
  have "ufds_ok (m\<lparr>init := s\<rparr>) = ufds_ok m" for s and m :: "'a main_state" by (simp add: ufds_ok_def)
  then show ?thesis using assms ufds_ok_register
    by (auto simp: main_round_def Let_def split: bind_splits prod.splits)
qed



text \<open>C26: A read-only property keeps its value through any number of rounds of the main loop, whatever
  commands are run and whatever clients ask for.\<close>

theorem ro_property_through_main_loop:
  assumes "rounds P m m'" and "prop_area_ok P" and "system_property_find P (props (init m)) (''ro.'' @ n) = Some v"
  shows "system_property_find P (props (init m')) (''ro.'' @ n) = Some v"
  using read_only.R_rounds [OF assms(1)] assms(2,3) by blast

theorem ro_property_through_main_loop_witness:
  "\<exists>m'. main_round map_platform (main_start (empty_init\<lparr>props := [''ro.hardware'' \<mapsto> ''mako'']\<rparr>)) = Some m' \<and>
     system_property_find map_platform (props (init m')) (''ro.'' @ ''hardware'') = Some ''mako''"
proof -
  let ?s = "empty_init\<lparr>props := [''ro.hardware'' \<mapsto> ''mako'']\<rparr>"
  let ?m = "main_start ?s"
  have a: "cur_cmd (advance ?s) = None" "advance ?s = ?s" "property_set_fd ?s = - 1" "signal_recv_fd ?s = - 1" "keychord_fd ?s = - 1" "service_list ?s = []"
    by (simp_all add: advance_def action_remove_queue_head_def cur_cmd_def empty_init_def)
  have "restart_processes map_platform ?s = ?s" by (simp add: restart_processes_def service_for_each_flags_def a(6)) (simp add: empty_init_def)
  then have "\<exists>m'. main_round map_platform ?m = Some m'"
    using a by (simp add: main_round_def main_start_def execute_one_command_def register_fds_def case_prod_unfold Let_def)
  then obtain m' where m': "main_round map_platform ?m = Some m'" by blast
  have "system_property_find map_platform (props (init ?m)) (''ro.'' @ ''hardware'') = Some ''mako''"
    by (simp add: map_platform_def main_start_def)
  then show ?thesis
    using m' ro_property_through_main_loop [OF rounds_more [OF rounds_none m'] map_platform_ok] by blast
qed

subsection \<open>Restarts\<close>

lemma service_forked_frame:
  assumes "i < length (service_list s)"
  shows "\<exists>y. service_list (service_forked P i c s) = (service_list s)[i := y] \<and> flags y AND SVC_RESTARTING = flags (svc s i) AND SVC_RESTARTING"
    and "process_needs_restart (service_forked P i c s) = process_needs_restart s"
proof -
  have f: "(flags x OR SVC_RUNNING) AND SVC_RESTARTING = flags x AND SVC_RESTARTING" for x
    by (simp add: SVC_RUNNING_def SVC_RESTARTING_def bit.conj_disj_distrib2)
  have n: "service_list (notify_service_state P a b t) = service_list t" "process_needs_restart (notify_service_state P a b t) = process_needs_restart t"
    for a b t using prop_step_same(1,8) [OF prop_step_notify] by blast+
  show "\<exists>y. service_list (service_forked P i c s) = (service_list s)[i := y] \<and> flags y AND SVC_RESTARTING = flags (svc s i) AND SVC_RESTARTING"
    by (auto simp: service_forked_def gettime_def sys_def Let_def n set_flags_def f)
  show "process_needs_restart (service_forked P i c s) = process_needs_restart s"
    by (simp add: service_forked_def gettime_def sys_def Let_def n)
qed

lemma service_start_frame:
  assumes "i < length (service_list s)"
  shows "\<exists>y. service_list (service_start P i a s) = (service_list s)[i := y] \<and> \<not> has_flag y SVC_RESTARTING"
    and "process_needs_restart (service_start P i a s) = process_needs_restart s"
proof -
  define t where "t = upd_svc i (\<lambda>x. (clear_flags (SVC_DISABLED OR SVC_RESTARTING OR SVC_RESET OR SVC_RESTART) x)\<lparr>time_started := 0\<rparr>) s"
  have t: "\<not> has_flag (svc t i) SVC_RESTARTING" "service_list t = (service_list s)[i := svc t i]" "process_needs_restart t = process_needs_restart s"
    "i < length (service_list t)" using assms by (simp_all add: t_def flag_simps)
  have dis: "\<not> has_flag (set_flags SVC_DISABLED (svc t i)) SVC_RESTARTING" using t(1) by (simp add: flag_simps)
  obtain present u where u: "sys (\<lambda>n. sys_stat P n (hd (svc_args (svc t i)))) t = (present, u)" by fastforce
  obtain c w where w: "sys (sys_fork P) u = (c, w)" by fastforce
  have l: "service_list u = service_list t" "service_list w = service_list t" "process_needs_restart u = process_needs_restart t"
    "process_needs_restart w = process_needs_restart t" using u w by (auto simp: sys_def)
  have ok: "\<exists>y. service_list v = (service_list s)[i := y] \<and> \<not> has_flag y SVC_RESTARTING" if "service_list v = service_list t" for v :: "'a init_state"
    using that t(1,2) by auto
  have dis: "\<exists>y. service_list (upd_svc i (set_flags SVC_DISABLED) v) = (service_list s)[i := y] \<and> \<not> has_flag y SVC_RESTARTING"
    if "service_list v = service_list t" for v :: "'a init_state"
    using that t(2) dis by (metis list_update_overwrite upd_svc_simps(1))
  have fk: "\<exists>y. service_list (service_forked P i c v) = (service_list s)[i := y] \<and> \<not> has_flag y SVC_RESTARTING"
    if "service_list v = service_list t" for v
    using service_forked_frame(1) [of i v P c] that t by (metis has_flag_def list_update_overwrite)
  show "\<exists>y. service_list (service_start P i a s) = (service_list s)[i := y] \<and> \<not> has_flag y SVC_RESTARTING"
    unfolding service_start_def t_def [symmetric] by (simp del: upd_svc_simps add: Let_def u w l ok dis fk split: option.split)
  have "process_needs_restart (service_forked P i c v) = process_needs_restart s"
    if "service_list v = service_list t" "process_needs_restart v = process_needs_restart t" for v
    using service_forked_frame(2) [of i v P c] that t by simp
  then show "process_needs_restart (service_start P i a s) = process_needs_restart s"
    unfolding service_start_def t_def [symmetric] by (simp add: Let_def u w l t(3) split: option.split)
qed

text \<open>What a visit of a service leaves: either it no longer waits for its restart, or the loop's
  deadline is no later than the service's own.\<close>

definition deadline_ok :: "'p init_state \<Rightarrow> nat \<Rightarrow> bool" where
  "deadline_ok s i \<longleftrightarrow> (has_flag (svc s i) SVC_RESTARTING \<longrightarrow>
     0 < process_needs_restart s \<and> process_needs_restart s \<le> time_started (svc s i) + 5)"

definition earlier :: "int \<Rightarrow> int \<Rightarrow> bool" where
  "earlier d e \<longleftrightarrow> d = e \<or> 0 < d \<and> (e \<le> 0 \<or> d < e)"

lemma restart_visit:
  fixes P :: "'p platform"
  assumes "i < length (service_list s)" and "0 \<le> time_started (svc s i)" and "0 \<le> process_needs_restart s"
  defines "t \<equiv> restart_service_if_needed P i s"
  shows "deadline_ok t i \<and> earlier (process_needs_restart t) (process_needs_restart s) \<and>
    (\<exists>y. service_list t = (service_list s)[i := y] \<and> (has_flag y SVC_RESTARTING \<longrightarrow> y = svc s i))"
proof -
  obtain now u where u: "gettime P s = (now, u)" by fastforce
  have l: "service_list u = service_list s" "process_needs_restart u = process_needs_restart s" using u by (auto simp: gettime_def sys_def)
  let ?v = "upd_svc i (clear_flags SVC_RESTARTING) u"
  have v: "i < length (service_list ?v)" "process_needs_restart ?v = process_needs_restart s" using assms(1) l by simp_all
  obtain y where y: "service_list (service_start P i None ?v) = (service_list s)[i := y]" "\<not> has_flag y SVC_RESTARTING"
    using service_start_frame(1) [OF v(1), of P None] l(1) by auto
  show ?thesis
  proof (cases "time_started (svc s i) + 5 \<le> now")
    case True
    then have "t = service_start P i None ?v" by (simp add: t_def restart_service_if_needed_def u)
    then show ?thesis using y service_start_frame(2) [OF v(1), of P None] v(2) assms(1) by (auto simp: deadline_ok_def earlier_def)
  next
    case False
    then have "service_list t = (service_list s)[i := svc s i]" by (simp add: t_def restart_service_if_needed_def u Let_def l)
    moreover have "process_needs_restart t = (if time_started (svc s i) + 5 < process_needs_restart s \<or> process_needs_restart s = 0
        then time_started (svc s i) + 5 else process_needs_restart s)"
      using False by (simp add: t_def restart_service_if_needed_def u Let_def l)
    ultimately show ?thesis using assms(1-3) by (auto simp: deadline_ok_def earlier_def intro!: exI [of _ "svc s i"])
  qed
qed

lemma restart_loop:
  fixes P :: "'p platform"
  assumes "distinct is" and "\<And>i. i \<in> set is \<Longrightarrow> i < length (service_list s) \<and> 0 \<le> time_started (svc s i)" and "0 \<le> process_needs_restart s"
  defines "t \<equiv> service_loop (\<lambda>x. has_flag x SVC_RESTARTING) (restart_service_if_needed P) is s"
  shows "(\<forall>i \<in> set is. deadline_ok t i) \<and> earlier (process_needs_restart t) (process_needs_restart s) \<and>
    length (service_list t) = length (service_list s) \<and> (\<forall>j. j \<notin> set is \<longrightarrow> svc t j = svc s j)"
  using assms(1-3) unfolding t_def
proof (induction "is" arbitrary: s)
  case (Cons i "is")
  define u where "u = (if has_flag (svc s i) SVC_RESTARTING then restart_service_if_needed P i s else s)"
  have i: "i < length (service_list s)" "0 \<le> time_started (svc s i)" using Cons.prems(2) [of i] by simp_all
  obtain y where u: "deadline_ok u i" "earlier (process_needs_restart u) (process_needs_restart s)" "service_list u = (service_list s)[i := y]"
  proof (cases "has_flag (svc s i) SVC_RESTARTING")
    case True
    then show ?thesis using restart_visit [OF i Cons.prems(3), of P] that by (auto simp: u_def)
  next
    case False
    then show ?thesis using that [of "svc s i"] by (simp add: u_def deadline_ok_def earlier_def)
  qed
  define t where "t = service_loop (\<lambda>x. has_flag x SVC_RESTARTING) (restart_service_if_needed P) is u"
  have IH: "(\<forall>i \<in> set is. deadline_ok t i) \<and> earlier (process_needs_restart t) (process_needs_restart u) \<and>
    length (service_list t) = length (service_list u) \<and> (\<forall>j. j \<notin> set is \<longrightarrow> svc t j = svc u j)"
    unfolding t_def
  proof (rule Cons.IH)
    show "j < length (service_list u) \<and> 0 \<le> time_started (svc u j)" if "j \<in> set is" for j
      using that Cons.prems(1) Cons.prems(2) [of j] u(3) by (cases "j = i") auto
  qed (use Cons.prems u(2) in \<open>auto simp: earlier_def\<close>)
  have "deadline_ok t i" using IH u(1) Cons.prems(1) by (auto simp: deadline_ok_def earlier_def)
  moreover have "earlier (process_needs_restart t) (process_needs_restart s)" using IH u(2) by (auto simp: earlier_def)
  ultimately show ?case using IH u(3) by (auto simp: u_def [symmetric] t_def [symmetric])
qed (simp add: earlier_def)

lemma restart_deadlines:
  assumes "\<forall>x \<in> set (service_list s). 0 \<le> time_started x" and "x \<in> set (service_list (restart_processes P s))" and "has_flag x SVC_RESTARTING"
  shows "0 < process_needs_restart (restart_processes P s) \<and> process_needs_restart (restart_processes P s) \<le> time_started x + 5"
proof -
  let ?s = "s\<lparr>process_needs_restart := 0\<rparr>"
  have t: "restart_processes P s = service_loop (\<lambda>x. has_flag x SVC_RESTARTING) (restart_service_if_needed P) [0..<length (service_list s)] ?s"
    by (simp add: restart_processes_def service_for_each_flags_def)
  have l: "(\<forall>i \<in> set [0..<length (service_list s)]. deadline_ok (restart_processes P s) i) \<and> length (service_list (restart_processes P s)) = length (service_list s)"
    unfolding t using restart_loop [of "[0..<length (service_list s)]" ?s P] assms(1) by auto
  obtain i where "i < length (service_list (restart_processes P s))" "x = svc (restart_processes P s) i"
    using assms(2) by (metis in_set_conv_nth)
  then show ?thesis using l assms(3) by (simp add: deadline_ok_def)
qed

text \<open>C7: The main loop never sleeps through its work: while commands remain it polls without
  waiting, and while a service waits for its restart it wakes up no later than five seconds
  after that service was last started.\<close>

theorem main_loop_wakes_up:
  assumes "\<forall>x \<in> set (service_list s). 0 \<le> time_started x" and "t = restart_processes P s" and "poll_timeout P t = (timeout, u)"
  shows "(remaining t \<noteq> [] \<longrightarrow> timeout = 0) \<and>
    (\<forall>x \<in> set (service_list t). has_flag x SVC_RESTARTING \<longrightarrow>
       0 \<le> timeout \<and> timeout \<le> max 0 ((time_started x + 5 - sys_gettime P (nsys t)) * 1000))"
proof -
  have "remaining t \<noteq> [] \<Longrightarrow> action_queue t \<noteq> [] \<or> cur_action t \<noteq> None"
    by (auto simp: remaining_def split: option.splits)
  then have "remaining t \<noteq> [] \<longrightarrow> timeout = 0"
    using assms(3) by (auto simp: poll_timeout_def gettime_def sys_def Let_def split: if_splits)
  moreover have "0 \<le> timeout \<and> timeout \<le> max 0 ((time_started x + 5 - sys_gettime P (nsys t)) * 1000)"
    if "x \<in> set (service_list t)" "has_flag x SVC_RESTARTING" for x
  proof -
    have d: "0 < process_needs_restart t" "process_needs_restart t \<le> time_started x + 5"
      using restart_deadlines [OF assms(1)] that assms(2) by simp_all
    have "timeout = 0 \<or> timeout = max 0 ((process_needs_restart t - sys_gettime P (nsys t)) * 1000)"
      using assms(3) d(1) by (auto simp: poll_timeout_def gettime_def sys_def Let_def split: if_splits)
    then show ?thesis using d(2) by auto
  qed
  ultimately show ?thesis by blast
qed

definition crashed_service :: "(string \<Rightarrow> string option) init_state" where
  "crashed_service = empty_init\<lparr>nsys := 12, service_list := [zero_service\<lparr>svc_name := ''zygote'', svc_args := [''/system/bin/app_process''],
     flags := SVC_RESTARTING, time_started := 10\<rparr>]\<rparr>"

theorem main_loop_wakes_up_witness:
  "\<exists>timeout u. poll_timeout map_platform (restart_processes map_platform crashed_service) = (timeout, u) \<and> 0 \<le> timeout \<and> timeout \<le> 2000"
proof -
  let ?t = "restart_processes map_platform crashed_service"
  obtain tmo u where p: "poll_timeout map_platform ?t = (tmo, u)" by fastforce
  have a: "\<forall>x \<in> set (service_list crashed_service). 0 \<le> time_started x" by (simp add: crashed_service_def)
  have t: "nsys ?t = 13" "service_list ?t = service_list crashed_service"
    by (simp_all add: restart_processes_def service_for_each_flags_def crashed_service_def restart_service_if_needed_def gettime_def sys_def
        map_platform_def has_flag_def SVC_RESTARTING_def)
  have "has_flag (hd (service_list crashed_service)) SVC_RESTARTING" "hd (service_list crashed_service) \<in> set (service_list ?t)"
    "time_started (hd (service_list crashed_service)) = 10" unfolding t(2)
    by (simp_all add: crashed_service_def has_flag_def SVC_RESTARTING_def)
  then show ?thesis using main_loop_wakes_up [OF a refl p] p t(1) by (fastforce simp: map_platform_def)
qed

subsection \<open>Services that exit\<close>

text \<open>A service that is not started again, and one that has crashed too often.\<close>

definition stays_down :: "service \<Rightarrow> bool" where
  "stays_down x \<longleftrightarrow> has_flag x SVC_ONESHOT \<and> \<not> has_flag x SVC_RESTART \<or> has_flag x SVC_DISABLED \<or> has_flag x SVC_RESET"

definition crash_loop :: "int \<Rightarrow> service \<Rightarrow> bool" where
  "crash_loop now x \<longleftrightarrow> has_flag x SVC_CRITICAL \<and> \<not> has_flag x SVC_RESTART \<and> now \<le> time_crashed x + 240 \<and> 4 \<le> nr_crashed x"

lemma crashed_outcome:
  assumes "i < length (service_list s)" and "\<not> has_flag (svc s i) SVC_RESTARTING"
  shows "fst (service_crashed P i s) \<longleftrightarrow> \<not> crash_loop (sys_gettime P (nsys s)) (svc s i)"
    and "has_flag (svc (snd (service_crashed P i s)) i) SVC_RESTARTING \<longleftrightarrow> fst (service_crashed P i s)"
    and "has_flag (svc (snd (service_crashed P i s)) i) SVC_RUNNING \<longleftrightarrow> has_flag (svc s i) SVC_RUNNING"
    and "pid (svc (snd (service_crashed P i s)) i) = pid (svc s i)"
    and "effects (snd (service_crashed P i s)) = effects s @ (if fst (service_crashed P i s) then []
      else [Error_log ''critical process exited too often'', Android_reboot ''RESTART2'' ''recovery''])"
  using assms
  by (auto simp: service_crashed_def mark_restarting_def gettime_def sys_def Let_def crash_loop_def CRITICAL_CRASH_WINDOW_def
      CRITICAL_CRASH_THRESHOLD_def flag_simps)

lemma nsys_unlink: "nsys (fold (\<lambda>si. emit (g si)) sis s) = nsys s"
  by (induction sis arbitrary: s) simp_all



end
