(* ===== verification/Lk_Crc.thy ===== *)
theory Lk_Crc
  imports Prelude
begin

text \<open>
  The checksum of partition tables: reflect and calculate_crc32 of
  \<^verbatim>\<open>bootable/lk/platform/msm_shared/partition_parser.c\<close>. An int is a 32-bit word whose right
  shift is \<^const>\<open>signed_drop_bit\<close>. The register runs from the most significant bit down; the
  reference it is compared with runs from the least significant bit up.
\<close>

subsection \<open>The code\<close>

fun reflect_loop :: "nat \<Rightarrow> nat \<Rightarrow> u32 \<Rightarrow> u32 \<Rightarrow> u32" where
  "reflect_loop 0 len d ref = ref"
| "reflect_loop (Suc k) len d ref =
     reflect_loop k len (signed_drop_bit 1 d)
       (if d AND 1 \<noteq> 0 then ref OR push_bit (len - 1 - (len - Suc k)) 1 else ref)"

definition reflect :: "u32 \<Rightarrow> nat \<Rightarrow> u32" where
  "reflect d len = reflect_loop len len d 0"

text \<open>0x104C11DB7 loses its highest bit in an int.\<close>

definition polynomial :: u32 where "polynomial = 0x04C11DB7"

fun crc_bits :: "nat \<Rightarrow> u32 \<Rightarrow> u32 \<Rightarrow> u32" where
  "crc_bits 0 data_byte regs = regs"
| "crc_bits (Suc j) data_byte regs =
     (let msb = signed_drop_bit 7 data_byte AND 1;
          regs_msb = drop_bit 31 regs AND 1;
          regs = push_bit 1 regs;
          regs = (if regs_msb XOR msb \<noteq> 0 then regs XOR polynomial else regs);
          regs = regs AND 0xFFFFFFFF
      in crc_bits j (push_bit 1 data_byte) regs)"

fun crc_bytes :: "u8 list \<Rightarrow> u32 \<Rightarrow> u32" where
  "crc_bytes [] regs = regs"
| "crc_bytes (b # bs) regs = crc_bytes bs (crc_bits 8 (reflect (ucast b) 8) regs)"

definition calculate_crc32 :: "u8 list \<Rightarrow> u32" where
  "calculate_crc32 buffer =
     (let regs = crc_bytes buffer 0xFFFFFFFF AND 0xFFFFFFFF in reflect regs 32 XOR 0xFFFFFFFF)"

subsection \<open>Reflection\<close>

lemma bit_reflect_loop:
  assumes "k \<le> len" and "len \<le> 32"
  shows "bit (reflect_loop k len d ref) n \<longleftrightarrow> bit ref n \<or> n < k \<and> bit d (k - 1 - n)"
  using assms(1)
proof (induction k arbitrary: d ref)
  case (Suc k)
  have "bit (push_bit (len - 1 - (len - Suc k)) (1 :: u32)) n \<longleftrightarrow> n = k"
    using Suc.prems assms(2) by (auto simp: bit_exp_iff)
  moreover have "d AND 1 \<noteq> 0 \<longleftrightarrow> bit d 0" by (simp add: and_one_eq odd_iff_mod_2_eq_one bit_0)
  moreover have "n < k \<Longrightarrow> bit (signed_drop_bit (Suc 0) d) (k - 1 - n) \<longleftrightarrow> bit d (k - n)"
    using Suc.prems assms(2) by (auto simp: bit_signed_drop_bit_iff Suc_diff_Suc)
  ultimately show ?case
    using Suc by (auto simp: bit_or_iff less_Suc_eq)
qed simp

lemma bit_reflect: "len \<le> 32 \<Longrightarrow> bit (reflect d len) n \<longleftrightarrow> n < len \<and> bit d (len - 1 - n)"
  by (simp add: reflect_def bit_reflect_loop)

lemma reflect_reflect: "reflect (reflect d 32) 32 = d"
  by (rule bit_word_eqI) (auto simp: bit_reflect)

subsection \<open>The reference\<close>

text \<open>The checksum as the standard describes it: one bit of the message after the other, the
  least significant of each byte first, with the reversed polynomial.\<close>

definition crc_step :: "bool \<Rightarrow> u32 \<Rightarrow> u32" where
  "crc_step b r = (if bit r 0 \<noteq> b then drop_bit 1 r XOR 0xEDB88320 else drop_bit 1 r)"

definition message_bits :: "u8 list \<Rightarrow> bool list" where
  "message_bits bs = concat (map (\<lambda>b. map (bit b) [0..<8]) bs)"

definition crc32 :: "u8 list \<Rightarrow> u32" where
  "crc32 bs = NOT (fold crc_step (message_bits bs) (NOT 0))"

lemma reflect_polynomial: "reflect polynomial 32 = 0xEDB88320"
  by code_simp

lemma reflect_xor: "len \<le> 32 \<Longrightarrow> reflect (a XOR b) len = reflect a len XOR reflect b len"
  by (rule bit_word_eqI) (auto simp: bit_reflect bit_xor_iff)

lemma reflect_shift: "reflect (push_bit 1 r) 32 = drop_bit 1 (reflect r 32)"
proof (rule bit_word_eqI)
  fix n assume "n < LENGTH(32)"
  then show "bit (reflect (push_bit 1 r) 32) n \<longleftrightarrow> bit (drop_bit 1 (reflect r 32)) n"
    unfolding bit_reflect [OF order_refl] bit_drop_bit_eq comp_def bit_push_bit_iff by auto
qed

text \<open>One round of the inner loop on the reversed register.\<close>

lemma crc_bits_step:
  "reflect (crc_bits (Suc j) d r) 32 = reflect (crc_bits j (push_bit 1 d) (reflect (crc_step (bit d 7) (reflect r 32)) 32)) 32"
proof -
  have "(0xFFFFFFFF :: u32) = - 1" by code_simp
  then have m: "(x :: u32) AND 0xFFFFFFFF = x" for x by (simp only: and.right_neutral)
  have b: "drop_bit 31 r AND 1 XOR (signed_drop_bit 7 d AND 1) \<noteq> 0 \<longleftrightarrow> bit r 31 \<noteq> bit d 7"
  proof -
    have "x AND 1 = of_bool (bit x 0)" for x :: u32 by (simp add: and_one_eq mod_2_eq_odd bit_0)
    then have e: "drop_bit 31 r AND 1 = of_bool (bit r 31)" "signed_drop_bit 7 d AND 1 = of_bool (bit d 7)"
      by (simp_all add: bit_drop_bit_eq bit_signed_drop_bit_iff)
    show ?thesis unfolding e by simp
  qed
  have "bit (reflect r 32) 0 = bit r 31" by (simp add: bit_reflect)
  then have "crc_step (bit d 7) (reflect r 32) = reflect (if bit r 31 \<noteq> bit d 7 then push_bit 1 r XOR polynomial else push_bit 1 r) 32"
    using reflect_shift [of r] by (simp add: crc_step_def reflect_xor reflect_polynomial)
  then show ?thesis by (simp add: Let_def b m reflect_reflect)
qed

lemma reflect_crc_bits:
  "n \<le> 8 \<Longrightarrow> reflect (crc_bits n d r) 32 = fold crc_step (map (\<lambda>k. bit d (7 - k)) [0..<n]) (reflect r 32)"
proof (induction n arbitrary: d r)
  case (Suc j)
  have "bit (push_bit 1 d) (7 - k) = bit d (7 - Suc k)" if "k < j" for k
    using that Suc.prems unfolding bit_push_bit_iff by auto
  then have "map (\<lambda>k. bit (push_bit 1 d) (7 - k)) [0..<j] = map (\<lambda>k. bit d (7 - Suc k)) [0..<j]" by simp
  moreover have "map (\<lambda>k. bit d (7 - k)) [0..<Suc j] = bit d 7 # map (\<lambda>k. bit d (7 - Suc k)) [0..<j]"
    unfolding upt_conv_Cons [OF zero_less_Suc] map_Suc_upt [symmetric] by simp
  ultimately show ?case
    using Suc.IH [of "push_bit 1 d" "reflect (crc_step (bit d 7) (reflect r 32)) 32"] Suc.prems
    unfolding crc_bits_step by (simp only: reflect_reflect fold_simps)
qed simp

lemma reflect_byte: "reflect (crc_bits 8 (reflect (ucast b) 8) r) 32 = fold crc_step (map (bit b) [0..<8]) (reflect r 32)" for b :: u8
proof -
  have "map (\<lambda>k. bit (reflect (ucast b) 8) (7 - k)) [0..<8] = map (bit b) [0..<8]"
    by (rule map_cong) (auto simp: bit_reflect bit_ucast_iff)
  then show ?thesis using reflect_crc_bits [of 8 "reflect (ucast b) 8" r] by (simp only: order_refl)
qed

lemma reflect_crc_bytes: "reflect (crc_bytes bs r) 32 = fold crc_step (message_bits bs) (reflect r 32)"
  by (induction bs arbitrary: r) (simp_all add: message_bits_def reflect_byte del: crc_bits.simps)

lemma crc32_of_code: "calculate_crc32 bs = crc32 bs"
proof -
  have f: "(0xFFFFFFFF :: u32) = - 1" and r: "reflect (- 1) 32 = - 1" by code_simp+
  have "calculate_crc32 bs = reflect (crc_bytes bs (- 1)) 32 XOR - 1"
    unfolding calculate_crc32_def Let_def f by simp
  then show ?thesis unfolding reflect_crc_bytes r crc32_def by simp
qed

text \<open>C9: The checksum routine of partition tables, which reverses each byte and the result, computes
  the CRC-32 of the standard.\<close>

theorem calculate_crc32_correct: "calculate_crc32 bs = crc32 bs"
  by (rule crc32_of_code)

text \<open>The check value of the standard: the checksum of the digits 1 to 9.\<close>

lemma crc32_check: "crc32 [0x31, 0x32, 0x33, 0x34, 0x35, 0x36, 0x37, 0x38, 0x39] = 0xCBF43926"
  by code_simp

end
