(* ===== verification/Lk_Partition.thy ===== *)
theory Lk_Partition
  imports Lk_Crc
begin

text \<open>
  The partition tables of the boot loader: \<^verbatim>\<open>bootable/lk/platform/msm_shared/partition_parser.c\<close>
  with the macros of \<^verbatim>\<open>partition_parser.h\<close> and \<^verbatim>\<open>mmc.h\<close>. A buffer is the list of its bytes, and an
  access outside of it, or outside of the array of 32 partitions, is None, like a failed
  ASSERT and a loop that never ends. The driver of the card is a parameter.
\<close>

subsection \<open>Bytes\<close>

definition byte_at :: "u8 list \<Rightarrow> nat \<Rightarrow> u8 option" where
  "byte_at buf k = (if k < length buf then Some (buf ! k) else None)"

definition bytes_at :: "nat \<Rightarrow> nat \<Rightarrow> u8 list \<Rightarrow> u8 list option" where
  "bytes_at k n buf = (if k + n \<le> length buf then Some (take n (drop k buf)) else None)"

definition put_bytes :: "nat \<Rightarrow> u8 list \<Rightarrow> u8 list \<Rightarrow> u8 list option" where
  "put_bytes k bs buf = (if k + length bs \<le> length buf then Some (take k buf @ bs @ drop (k + length bs) buf) else None)"

definition GET_LWORD_FROM_BYTE :: "u8 list \<Rightarrow> nat \<Rightarrow> u32 option" where
  "GET_LWORD_FROM_BYTE buf k = do {
     bs \<leftarrow> bytes_at k 4 buf;
     Some (ucast (bs ! 0) OR push_bit 8 (ucast (bs ! 1)) OR push_bit 16 (ucast (bs ! 2)) OR push_bit 24 (ucast (bs ! 3))) }"

definition GET_LLWORD_FROM_BYTE :: "u8 list \<Rightarrow> nat \<Rightarrow> u64 option" where
  "GET_LLWORD_FROM_BYTE buf k = do {
     bs \<leftarrow> bytes_at k 8 buf;
     Some (ucast (bs ! 0) OR push_bit 8 (ucast (bs ! 1)) OR push_bit 16 (ucast (bs ! 2)) OR push_bit 24 (ucast (bs ! 3)) OR
       push_bit 32 (ucast (bs ! 4)) OR push_bit 40 (ucast (bs ! 5)) OR push_bit 48 (ucast (bs ! 6)) OR push_bit 56 (ucast (bs ! 7))) }"

definition PUT_LONG :: "nat \<Rightarrow> u32 \<Rightarrow> u8 list \<Rightarrow> u8 list option" where
  "PUT_LONG k y buf = put_bytes k [ucast (y AND 0xFF), ucast (drop_bit 8 y AND 0xFF), ucast (drop_bit 16 y AND 0xFF), ucast (drop_bit 24 y AND 0xFF)] buf"

definition PUT_LONG_LONG :: "nat \<Rightarrow> u64 \<Rightarrow> u8 list \<Rightarrow> u8 list option" where
  "PUT_LONG_LONG k y buf = put_bytes k
     [ucast (y AND 0xFF), ucast (drop_bit 8 y AND 0xFF), ucast (drop_bit 16 y AND 0xFF), ucast (drop_bit 24 y AND 0xFF),
      ucast (drop_bit 32 y AND 0xFF), ucast (drop_bit 40 y AND 0xFF), ucast (drop_bit 48 y AND 0xFF), ucast (drop_bit 56 y AND 0xFF)] buf"

definition ascii :: "string \<Rightarrow> u8 list" where "ascii s = map of_char s"

subsection \<open>The table\<close>

definition BLOCK_SIZE :: nat where "BLOCK_SIZE = 0x200"
definition NUM_PARTITIONS :: nat where "NUM_PARTITIONS = 32"
definition MAX_GPT_NAME_SIZE :: nat where "MAX_GPT_NAME_SIZE = 72"
definition TABLE_ENTRY_0 :: nat where "TABLE_ENTRY_0 = 0x1BE"
definition TABLE_ENTRY_1 :: nat where "TABLE_ENTRY_1 = 0x1CE"
definition TABLE_SIGNATURE :: nat where "TABLE_SIGNATURE = 0x1FE"

record partition_entry =
  type_guid :: "u8 list"
  dtype :: u32
  unique_partition_guid :: "u8 list"
  first_lba :: u64
  last_lba :: u64
  lba_count :: u64
  attribute_flag :: u64
  part_name :: "u8 list"

record partition_table =
  partition_entries :: "partition_entry list"
  gpt_partitions_exist :: bool
  partition_count :: nat
  ext3_count :: nat
  vfat_count :: nat

definition zero_entry :: partition_entry where
  "zero_entry = \<lparr>type_guid = replicate 16 0, dtype = 0, unique_partition_guid = replicate 16 0, first_lba = 0, last_lba = 0,
     lba_count = 0, attribute_flag = 0, part_name = replicate MAX_GPT_NAME_SIZE 0\<rparr>"

definition zero_table :: partition_table where
  "zero_table = \<lparr>partition_entries = replicate NUM_PARTITIONS zero_entry, gpt_partitions_exist = False, partition_count = 0,
     ext3_count = 0, vfat_count = 0\<rparr>"

text \<open>The card: reading gives the return code and the contents of the buffer afterwards.\<close>

record 'c mmc =
  mmc_boot_read_from_card :: "'c \<Rightarrow> u64 \<Rightarrow> u32 \<times> u8 list"
  mmc_write :: "'c \<Rightarrow> u64 \<Rightarrow> u8 list \<Rightarrow> u32 \<times> 'c"
  mmc_erase_card :: "'c \<Rightarrow> u64 \<Rightarrow> u64 \<Rightarrow> u32 \<times> 'c"
  capacity :: "'c \<Rightarrow> u64"

subsection \<open>Master boot records\<close>

definition partition_verify_mbr_signature :: "nat \<Rightarrow> u8 list \<Rightarrow> u32 option" where
  "partition_verify_mbr_signature sz buffer =
     (if TABLE_SIGNATURE + 1 > sz then Some 1
      else do {
        b0 \<leftarrow> byte_at buffer TABLE_SIGNATURE;
        if b0 \<noteq> 0x55 then Some 1
        else do {
          b1 \<leftarrow> byte_at buffer (TABLE_SIGNATURE + 1);
          Some (if b1 \<noteq> 0xAA then 1 else 0) } })"

definition ext3_partitions :: "string list" where
  "ext3_partitions = [''system'', ''userdata'', ''persist'', ''cache'', ''tombstones'']"

definition vfat_partitions :: "string list" where
  "vfat_partitions = [''modem'', ''mdm'', ''NONE'']"

text \<open>The types whose name is copied without its terminator.\<close>

definition mbr_names :: "(u32 \<times> string) list" where
  "mbr_names = [(0x4D, ''sbl1''), (0x51, ''sbl2''), (0x45, ''sbl3''), (0x47, ''rpm''), (0x46, ''tz''), (0x4C, ''aboot''), (0x48, ''boot''),
     (0x4A, ''modem_st1''), (0x4B, ''modem_st2''), (0x4E, ''efs2''), (0x60, ''recovery''), (0x63, ''misc''), (0x5D, ''ssd'')]"

definition copy_name :: "u8 list \<Rightarrow> partition_entry \<Rightarrow> partition_entry" where
  "copy_name bs e = e\<lparr>part_name := bs @ drop (length bs) (part_name e)\<rparr>"

text \<open>The memset in front of the first case label is never reached.\<close>

definition mbr_fill_name :: "partition_entry \<Rightarrow> u32 \<Rightarrow> partition_table \<Rightarrow> partition_entry \<times> partition_table" where
  "mbr_fill_name e ty p =
     (if ty = 0x06 \<or> ty = 0x0C then
        if vfat_partitions ! vfat_count p = ''NONE'' then (e, p)
        else (copy_name (ascii (vfat_partitions ! vfat_count p) @ [0]) e, p\<lparr>vfat_count := vfat_count p + 1\<rparr>)
      else if ty = 0x83 then
        if ext3_count p = length ext3_partitions then (e, p)
        else (copy_name (ascii (ext3_partitions ! ext3_count p) @ [0]) e, p\<lparr>ext3_count := ext3_count p + 1\<rparr>)
      else case map_of mbr_names ty of
          Some n \<Rightarrow> (copy_name (ascii n) e, p)
        | None \<Rightarrow> (e, p))"

text \<open>The entry that a record of an MBR or EBR fills, at partition_count.\<close>

definition store_mbr_entry :: "u8 \<Rightarrow> u8 \<Rightarrow> u32 \<Rightarrow> u32 \<Rightarrow> partition_table \<Rightarrow> partition_table option" where
  "store_mbr_entry status ty first sz p =
     (if partition_count p < length (partition_entries p) then
        let e = (partition_entries p ! partition_count p)\<lparr>dtype := ucast ty, attribute_flag := ucast status, first_lba := ucast first,
                  lba_count := ucast sz\<rparr>;
            (e, p) = mbr_fill_name e (ucast ty) p
        in Some (p\<lparr>partition_entries := (partition_entries p)[partition_count p := e], partition_count := partition_count p + 1\<rparr>)
      else None)"

text \<open>The loop over the four records: at its end the type and first sector of the last one, or
  None for an early return.\<close>

fun mbr_loop :: "nat list \<Rightarrow> u8 list \<Rightarrow> u32 \<times> u32 \<Rightarrow> partition_table \<Rightarrow> ((u32 \<times> u32) option \<times> partition_table) option" where
  "mbr_loop [] buffer final p = Some (Some final, p)"
| "mbr_loop (i # is) buffer final p = do {
     ty \<leftarrow> byte_at buffer (TABLE_ENTRY_0 + i * 0x10 + 0x04);
     if ty = 0xEE then Some (None, p\<lparr>gpt_partitions_exist := True\<rparr>)
     else do {
       status \<leftarrow> byte_at buffer (TABLE_ENTRY_0 + i * 0x10);
       first \<leftarrow> GET_LWORD_FROM_BYTE buffer (TABLE_ENTRY_0 + i * 0x10 + 0x08);
       sz \<leftarrow> GET_LWORD_FROM_BYTE buffer (TABLE_ENTRY_0 + i * 0x10 + 0x0C);
       p \<leftarrow> store_mbr_entry status ty first sz p;
       if partition_count p = NUM_PARTITIONS then Some (None, p)
       else mbr_loop is buffer (ucast ty, first) p } }"

text \<open>The chain of extended boot records. The address of the next one is computed in 32 bits.\<close>

lemma store_mbr_entry_count: "store_mbr_entry st ty f n p = Some q \<Longrightarrow>
    partition_count p < length (partition_entries p) \<and> partition_count q = Suc (partition_count p) \<and>
    length (partition_entries q) = length (partition_entries p)"
  by (auto simp: store_mbr_entry_def mbr_fill_name_def Let_def split: if_splits option.splits)

function ebr_loop :: "'c mmc \<Rightarrow> 'c \<Rightarrow> u32 \<Rightarrow> u32 \<Rightarrow> u8 list \<Rightarrow> partition_table \<Rightarrow> (u32 \<times> partition_table) option" where
  "ebr_loop M c EBR_first_sec EBR_current_sec buffer p =
     (case partition_verify_mbr_signature BLOCK_SIZE buffer of
        None \<Rightarrow> None
      | Some sig \<Rightarrow>
          if sig \<noteq> 0 then Some (0, p)
          else
            case (do {
              status \<leftarrow> byte_at buffer TABLE_ENTRY_0;
              ty \<leftarrow> byte_at buffer (TABLE_ENTRY_0 + 0x04);
              first \<leftarrow> GET_LWORD_FROM_BYTE buffer (TABLE_ENTRY_0 + 0x08);
              sz \<leftarrow> GET_LWORD_FROM_BYTE buffer (TABLE_ENTRY_0 + 0x0C);
              store_mbr_entry status ty (first + EBR_current_sec) sz p }) of
              None \<Rightarrow> None
            | Some q \<Rightarrow>
                if partition_count q = NUM_PARTITIONS then Some (0, q)
                else
                  case GET_LWORD_FROM_BYTE buffer (TABLE_ENTRY_1 + 0x08) of
                    None \<Rightarrow> None
                  | Some dfirstsec \<Rightarrow>
                      if dfirstsec = 0 then Some (0, q)
                      else
                        let (ret, buffer) = mmc_boot_read_from_card M c (ucast ((EBR_first_sec + dfirstsec) * 512)) in
                        if ret \<noteq> 0 then Some (ret, q)
                        else ebr_loop M c EBR_first_sec (EBR_first_sec + dfirstsec) buffer q)"
  by pat_completeness auto
termination
  by (relation "measure (\<lambda>(M, c, f, cur, b, p). length (partition_entries p) - partition_count p)")
    (auto split: bind_splits dest!: store_mbr_entry_count)

declare ebr_loop.simps [simp del]

definition mmc_boot_read_mbr :: "'c mmc \<Rightarrow> 'c \<Rightarrow> partition_table \<Rightarrow> (u32 \<times> partition_table) option" where
  "mmc_boot_read_mbr M c p =
     (let (ret, buffer) = mmc_boot_read_from_card M c 0 in
      if ret \<noteq> 0 then Some (ret, p)
      else do {
        ret \<leftarrow> partition_verify_mbr_signature BLOCK_SIZE buffer;
        if ret \<noteq> 0 then Some (ret, p)
        else do {
          (final, p) \<leftarrow> mbr_loop [0..<4] buffer (0, 0) (p\<lparr>partition_count := 0\<rparr>);
          case final of
            None \<Rightarrow> Some (0, p)
          | Some (ty, dfirstsec) \<Rightarrow>
              if ty \<noteq> 0x05 then Some (0, p)
              else
                let (ret, buffer) = mmc_boot_read_from_card M c (ucast (dfirstsec * 512)) in
                if ret \<noteq> 0 then Some (ret, p)
                else ebr_loop M c dfirstsec dfirstsec buffer p } })"

subsection \<open>GUID partition tables\<close>

text \<open>The fields of a header: first usable LBA, size of an entry, size of the header, number of
  entries; None inside is the return code 1.\<close>

definition partition_parse_gpt_header :: "u8 list \<Rightarrow> (u64 \<times> u32 \<times> u32 \<times> u32) option option" where
  "partition_parse_gpt_header buffer = do {
     s2 \<leftarrow> GET_LWORD_FROM_BYTE buffer 0;
     s1 \<leftarrow> GET_LWORD_FROM_BYTE buffer 4;
     if s2 \<noteq> 0x20494645 \<or> s1 \<noteq> 0x54524150 then Some None
     else do {
       header_size \<leftarrow> GET_LWORD_FROM_BYTE buffer 12;
       first_usable_lba \<leftarrow> GET_LLWORD_FROM_BYTE buffer 40;
       max_partition_count \<leftarrow> GET_LWORD_FROM_BYTE buffer 80;
       partition_entry_size \<leftarrow> GET_LWORD_FROM_BYTE buffer 84;
       Some (Some (first_usable_lba, partition_entry_size, header_size, max_partition_count)) } }"

text \<open>The entry at an offset of a block, written over the old one: a name has 36 characters, of
  which the low bytes are kept.\<close>

definition gpt_entry :: "u8 list \<Rightarrow> nat \<Rightarrow> partition_entry \<Rightarrow> partition_entry option" where
  "gpt_entry block k e = do {
     guid \<leftarrow> bytes_at (k + 16) 16 block;
     first \<leftarrow> GET_LLWORD_FROM_BYTE block (k + 32);
     final \<leftarrow> GET_LLWORD_FROM_BYTE block (k + 40);
     attr \<leftarrow> GET_LLWORD_FROM_BYTE block (k + 48);
     name16 \<leftarrow> bytes_at (k + 56) MAX_GPT_NAME_SIZE block;
     Some (copy_name (map (\<lambda>n. name16 ! (n * 2)) [0..<MAX_GPT_NAME_SIZE div 2])
       (e\<lparr>unique_partition_guid := guid, first_lba := first, last_lba := final, lba_count := final - first + 1, attribute_flag := attr\<rparr>)) }"

text \<open>The four entries of a block. True: an entry without a type ends the table. The type is
  stored before it is tested.\<close>

fun gpt_block :: "u32 list \<Rightarrow> u32 \<Rightarrow> u8 list \<Rightarrow> partition_table \<Rightarrow> (bool \<times> partition_table) option" where
  "gpt_block [] sz block p = Some (False, p)"
| "gpt_block (j # js) sz block p = do {
     let k = unat (j * sz);
     guid \<leftarrow> bytes_at k 16 block;
     assert_opt (partition_count p < length (partition_entries p));
     let e = (partition_entries p ! partition_count p)\<lparr>type_guid := guid\<rparr>;
     if guid ! 0 = 0 \<and> guid ! 1 = 0
     then Some (True, p\<lparr>partition_entries := (partition_entries p)[partition_count p := e]\<rparr>)
     else do {
       e \<leftarrow> gpt_entry block k e;
       gpt_block js sz block
         (p\<lparr>partition_entries := (partition_entries p)[partition_count p := e], partition_count := partition_count p + 1\<rparr>) } }"

text \<open>The loop over the blocks. At the end of the table the counter is set to the number of
  entries and then incremented.\<close>

partial_function (option) gpt_loop ::
  "'c mmc \<Rightarrow> 'c \<Rightarrow> u64 \<Rightarrow> u32 \<Rightarrow> u32 \<Rightarrow> u32 \<Rightarrow> partition_table \<Rightarrow> (u32 \<times> partition_table) option" where
  "gpt_loop M c partition_0 sz max_count i p =
     (if i < max_count div 4 then
        if partition_count p < NUM_PARTITIONS then
          let (ret, block) = mmc_boot_read_from_card M c (partition_0 * 512 + ucast (i * 512)) in
          if ret \<noteq> 0 then Some (ret, p)
          else case gpt_block [0, 1, 2, 3] sz block p of
              None \<Rightarrow> None
            | Some (stop, p) \<Rightarrow> gpt_loop M c partition_0 sz max_count ((if stop then max_count else i) + 1) p
        else None
      else Some (0, p))"

definition gpt_entries :: "'c mmc \<Rightarrow> 'c \<Rightarrow> u8 list \<Rightarrow> u32 \<Rightarrow> u32 \<Rightarrow> partition_table \<Rightarrow> (u32 \<times> partition_table) option" where
  "gpt_entries M c block sz max_count p = do {
     partition_0 \<leftarrow> GET_LLWORD_FROM_BYTE block 72;
     gpt_loop M c partition_0 sz max_count 0 p }"

text \<open>A failing read of the primary header is only reported; the buffer is parsed all the same.\<close>

definition mmc_boot_read_gpt :: "'c mmc \<Rightarrow> 'c \<Rightarrow> partition_table \<Rightarrow> (u32 \<times> partition_table) option" where
  "mmc_boot_read_gpt M c p =
     (let p = p\<lparr>partition_count := 0\<rparr>; (ret, block) = mmc_boot_read_from_card M c 512 in
      do {
        h \<leftarrow> partition_parse_gpt_header block;
        case h of
          Some (_, sz, _, max_count) \<Rightarrow> gpt_entries M c block sz max_count p
        | None \<Rightarrow> do {
            let card_size_sec = capacity M c div 512;
            assert_opt (card_size_sec > 0);
            let (ret, block) = mmc_boot_read_from_card M c ((card_size_sec - 1) * 512);
            if ret \<noteq> 0 then Some (ret, p)
            else do {
              h \<leftarrow> partition_parse_gpt_header block;
              case h of
                Some (_, sz, _, max_count) \<Rightarrow> gpt_entries M c block sz max_count p
              | None \<Rightarrow> Some (1, p) } } })"

definition partition_read_table :: "'c mmc \<Rightarrow> 'c \<Rightarrow> partition_table \<Rightarrow> (u32 \<times> partition_table) option" where
  "partition_read_table M c p = do {
     (ret, p) \<leftarrow> mmc_boot_read_mbr M c p;
     if ret \<noteq> 0 then Some (1, p)
     else if gpt_partitions_exist p then do {
       (ret, p) \<leftarrow> mmc_boot_read_gpt M c p;
       Some (if ret \<noteq> 0 then 1 else 0, p) }
     else Some (0, p) }"

subsection \<open>Lookup\<close>

text \<open>The length of the string in a name, which must end inside of it.\<close>

definition name_length :: "u8 list \<Rightarrow> nat option" where
  "name_length bs = (if 0 \<in> set bs then Some (length (takeWhile (\<lambda>b. b \<noteq> 0) bs)) else None)"

fun index_loop :: "u8 list \<Rightarrow> nat \<Rightarrow> partition_entry list \<Rightarrow> u32 option" where
  "index_loop name n [] = Some (- 1)"
| "index_loop name n (e # es) = do {
     bs \<leftarrow> bytes_at 0 (length name) (part_name e);
     if bs = name then do {
       l \<leftarrow> name_length (part_name e);
       if length name = l then Some (of_nat n) else index_loop name (Suc n) es }
     else index_loop name (Suc n) es }"

definition partition_get_index :: "u8 list \<Rightarrow> partition_table \<Rightarrow> u32 option" where
  "partition_get_index name p =
     (if partition_count p \<ge> NUM_PARTITIONS then Some (- 1)
      else index_loop name 0 (take (partition_count p) (partition_entries p)))"

definition partition_get_size :: "u32 \<Rightarrow> partition_table \<Rightarrow> u64 option" where
  "partition_get_size index p =
     (if index = - 1 then Some 0
      else if unat index < length (partition_entries p) then Some (lba_count (partition_entries p ! unat index) * 512) else None)"

definition partition_get_offset :: "u32 \<Rightarrow> partition_table \<Rightarrow> u64 option" where
  "partition_get_offset index p =
     (if index = - 1 then Some 0
      else if unat index < length (partition_entries p) then Some (first_lba (partition_entries p ! unat index) * 512) else None)"

subsection \<open>Writing tables\<close>

definition mbr_partition_get_type :: "nat \<Rightarrow> u8 list \<Rightarrow> u32 \<Rightarrow> u32 option" where
  "mbr_partition_get_type sz ptn partition_type =
     (if sz < TABLE_ENTRY_0 + 0x04 then Some partition_type
      else map_option ucast (byte_at ptn (TABLE_ENTRY_0 + 0x04)))"

definition PARTITION_TYPE_MBR :: u32 where "PARTITION_TYPE_MBR = 0"
definition PARTITION_TYPE_GPT :: u32 where "PARTITION_TYPE_GPT = 1"
definition PARTITION_TYPE_GPT_BACKUP :: u32 where "PARTITION_TYPE_GPT_BACKUP = 2"

definition partition_get_type :: "nat \<Rightarrow> u8 list \<Rightarrow> (u32 \<times> u32) option" where
  "partition_get_type sz ptn = do {
     ret \<leftarrow> partition_verify_mbr_signature sz ptn;
     if ret = 0 then do {
       ty \<leftarrow> mbr_partition_get_type sz ptn PARTITION_TYPE_MBR;
       Some (0, if ty = 0xEE then PARTITION_TYPE_GPT else PARTITION_TYPE_MBR) }
     else Some (ret, PARTITION_TYPE_GPT_BACKUP) }"

text \<open>The first record of type EBR among the four, if any.\<close>

fun find_ebr :: "nat list \<Rightarrow> u8 list \<Rightarrow> nat option option" where
  "find_ebr [] mbr = Some None"
| "find_ebr (i # is) mbr = do {
     ty \<leftarrow> byte_at mbr (TABLE_ENTRY_0 + i * 0x10 + 0x04);
     if ty = 0x05 then Some (Some i) else find_ebr is mbr }"

function write_ebr_loop :: "'c mmc \<Rightarrow> nat \<Rightarrow> u8 list \<Rightarrow> u32 \<Rightarrow> u32 \<Rightarrow> nat \<Rightarrow> 'c \<Rightarrow> (u32 \<times> 'c) option" where
  "write_ebr_loop M sz img ebrSectorOffset dfirstsec off c =
     (if off < sz then
        (case bytes_at off BLOCK_SIZE img of
          None \<Rightarrow> None
        | Some block \<Rightarrow>
            let (ret, c) = mmc_write M c (ucast ((ebrSectorOffset + dfirstsec) * 512)) block in
            if ret \<noteq> 0 then Some (ret, c)
            else case GET_LWORD_FROM_BYTE img (off + TABLE_ENTRY_1 + 0x08) of
                None \<Rightarrow> None
              | Some d \<Rightarrow> write_ebr_loop M sz img ebrSectorOffset d (off + BLOCK_SIZE) c)
      else Some (0, c))"
  by pat_completeness auto
termination by (relation "measure (\<lambda>(M, sz, im, e, d, off, c). sz - off)") (auto simp: BLOCK_SIZE_def)

declare write_ebr_loop.simps [simp del]

definition write_mbr_in_blocks :: "'c mmc \<Rightarrow> nat \<Rightarrow> u8 list \<Rightarrow> 'c \<Rightarrow> (u32 \<times> 'c) option" where
  "write_mbr_in_blocks M sz mbrImage c = do {
     block \<leftarrow> bytes_at 0 BLOCK_SIZE mbrImage;
     let (ret, c) = mmc_write M c 0 block;
     if ret \<noteq> 0 then Some (ret, c)
     else do {
       ebr \<leftarrow> find_ebr [0..<4] mbrImage;
       case ebr of
         None \<Rightarrow> Some (ret, c)
       | Some i \<Rightarrow> do {
           off \<leftarrow> GET_LWORD_FROM_BYTE mbrImage (TABLE_ENTRY_0 + i * 0x10 + 0x08);
           write_ebr_loop M sz mbrImage off 0 BLOCK_SIZE c } } }"

definition write_mbr :: "'c mmc \<Rightarrow> nat \<Rightarrow> u8 list \<Rightarrow> 'c \<Rightarrow> partition_table \<Rightarrow> (u32 \<times> 'c \<times> partition_table) option" where
  "write_mbr M sz mbrImage c p = do {
     ret \<leftarrow> partition_verify_mbr_signature sz mbrImage;
     if ret \<noteq> 0 then Some (ret, c, p)
     else do {
       (ret, c) \<leftarrow> write_mbr_in_blocks M sz mbrImage c;
       if ret \<noteq> 0 then Some (ret, c, p)
       else do {
         (ret, p) \<leftarrow> mmc_boot_read_mbr M c p;
         Some (ret, c, p) } } }"

text \<open>The number of entries in use, which the code counts up to an entry whose first byte is 0.\<close>

function count_parts :: "u8 list \<Rightarrow> nat \<Rightarrow> nat option" where
  "count_parts img k =
     (if 1024 + k * 128 < length img then
        if img ! (1024 + k * 128) \<noteq> 0 then count_parts img (Suc k) else Some k
      else None)"
  by pat_completeness auto
termination by (relation "measure (\<lambda>(img, k). length img - k)") auto

declare count_parts.simps [simp del]

text \<open>The checksum of a part of the image; a length above the range of int is negative.\<close>

definition image_crc :: "nat \<Rightarrow> u32 \<Rightarrow> u8 list \<Rightarrow> u32 option" where
  "image_crc k len img = map_option calculate_crc32 (bytes_at k (nat (sint len)) img)"

definition patch_headers :: "u64 \<Rightarrow> nat \<Rightarrow> u8 list \<Rightarrow> u8 list option" where
  "patch_headers card_size_sec second img = do {
     img \<leftarrow> PUT_LONG_LONG (512 + 32) (card_size_sec - 1) img;
     img \<leftarrow> PUT_LONG_LONG (512 + 48) (card_size_sec - 34) img;
     img \<leftarrow> PUT_LONG_LONG (second + 24) (card_size_sec - 1) img;
     img \<leftarrow> PUT_LONG_LONG (second + 48) (card_size_sec - 34) img;
     PUT_LONG_LONG (second + 72) (card_size_sec - 33) img }"

definition patch_last_partition :: "u64 \<Rightarrow> nat \<Rightarrow> u8 list \<Rightarrow> u8 list option" where
  "patch_last_partition card_size_sec array_size img = do {
     total_part \<leftarrow> count_parts img 0;
     let last_part_offset = nat (1024 + (int total_part - 1) * 128 + 40);
     img \<leftarrow> PUT_LONG_LONG last_part_offset (card_size_sec - 34) img;
     PUT_LONG_LONG (last_part_offset + array_size) (card_size_sec - 34) img }"

text \<open>The checksum of a header is computed with its own field cleared.\<close>

definition patch_header_crc :: "nat \<Rightarrow> u8 list \<Rightarrow> u8 list option" where
  "patch_header_crc k img = do {
     img \<leftarrow> PUT_LONG (k + 16) 0 img;
     crc_value \<leftarrow> image_crc k 92 img;
     PUT_LONG (k + 16) crc_value img }"

definition patch_gpt :: "u64 \<Rightarrow> u32 \<Rightarrow> u32 \<Rightarrow> u32 \<Rightarrow> u8 list \<Rightarrow> u8 list option" where
  "patch_gpt card_capacity array_size max_part_count part_entry_size img = do {
     let card_size_sec = card_capacity div 512;
     let card_size_sec = (if card_size_sec = 0 then 4 * 1024 * 1024 * 2 - 1 else card_size_sec);
     let second = unat (2 * array_size) + 1024;
     img \<leftarrow> patch_headers card_size_sec second img;
     img \<leftarrow> patch_last_partition card_size_sec (unat array_size) img;
     crc_value \<leftarrow> image_crc 1024 (max_part_count * part_entry_size) img;
     img \<leftarrow> PUT_LONG (512 + 88) crc_value img;
     crc_value \<leftarrow> image_crc (1024 + unat array_size) (max_part_count * part_entry_size) img;
     img \<leftarrow> PUT_LONG (second + 88) crc_value img;
     img \<leftarrow> patch_header_crc 512 img;
     patch_header_crc second img }"

definition write_gpt_partition_array :: "'c mmc \<Rightarrow> nat \<Rightarrow> nat \<Rightarrow> nat \<Rightarrow> u8 list \<Rightarrow> 'c \<Rightarrow> (u32 \<times> 'c) option" where
  "write_gpt_partition_array M header partition_array_start array_size img c = do {
     partition_entry_lba \<leftarrow> GET_LLWORD_FROM_BYTE img (header + 72);
     bs \<leftarrow> bytes_at partition_array_start array_size img;
     Some (mmc_write M c (partition_entry_lba * 512) bs) }"

text \<open>The writes of write_gpt, each after the success of the one before.\<close>

definition write_gpt_blocks :: "'c mmc \<Rightarrow> nat \<Rightarrow> nat \<Rightarrow> u8 list \<Rightarrow> 'c \<Rightarrow> (u32 \<times> 'c) option" where
  "write_gpt_blocks M second array_size img c = do {
     let (ret, c) = mmc_erase_card M c 0 (capacity M c);
     if ret \<noteq> 0 then Some (ret, c) else do {
     mbr \<leftarrow> bytes_at 0 BLOCK_SIZE img;
     let (ret, c) = mmc_write M c 0 mbr;
     if ret \<noteq> 0 then Some (ret, c) else do {
     header \<leftarrow> bytes_at 512 BLOCK_SIZE img;
     let (ret, c) = mmc_write M c 512 header;
     if ret \<noteq> 0 then Some (ret, c) else do {
     backup_header_lba \<leftarrow> GET_LLWORD_FROM_BYTE img (512 + 32);
     backup \<leftarrow> bytes_at second BLOCK_SIZE img;
     let (ret, c) = mmc_write M c (backup_header_lba * 512) backup;
     if ret \<noteq> 0 then Some (ret, c) else do {
     (ret, c) \<leftarrow> write_gpt_partition_array M 512 1024 array_size img c;
     if ret \<noteq> 0 then Some (ret, c)
     else write_gpt_partition_array M second (1024 + array_size) array_size img c } } } } }"

definition MIN_PARTITION_ARRAY_SIZE :: u32 where "MIN_PARTITION_ARRAY_SIZE = 0x4000"

text \<open>At the end \<open>size\<close> bytes are cleared, starting with the header, that is one block beyond the
  end of the img.\<close>

definition write_gpt ::
  "'c mmc \<Rightarrow> nat \<Rightarrow> u8 list \<Rightarrow> 'c \<Rightarrow> partition_table \<Rightarrow> (u32 \<times> u8 list \<times> 'c \<times> partition_table) option" where
  "write_gpt M sz img c p = do {
     h \<leftarrow> partition_parse_gpt_header (drop 512 img);
     case h of None \<Rightarrow> Some (1, img, c, p)
     | Some (_, entry_size, _, max_count) \<Rightarrow> do {
         let array_size = entry_size * max_count;
         let array_size = (if array_size < MIN_PARTITION_ARRAY_SIZE then MIN_PARTITION_ARRAY_SIZE else array_size);
         let second = unat (2 * array_size) + 1024;
         h \<leftarrow> partition_parse_gpt_header (drop second img);
         case h of None \<Rightarrow> Some (1, img, c, p)
         | Some (_, entry_size, _, max_count) \<Rightarrow> do {
             img \<leftarrow> patch_gpt (capacity M c) array_size max_count entry_size img;
             (ret, c) \<leftarrow> write_gpt_blocks M second (unat array_size) img c;
             if ret \<noteq> 0 then Some (ret, img, c, p)
             else do {
               (ret, p) \<leftarrow> mmc_boot_read_gpt M c p;
               if ret \<noteq> 0 then Some (ret, img, c, p)
               else do {
                 img \<leftarrow> put_bytes 512 (replicate sz 0) img;
                 Some (ret, img, c, p) } } } } }"

definition write_partition ::
  "'c mmc \<Rightarrow> nat \<Rightarrow> u8 list \<Rightarrow> 'c \<Rightarrow> partition_table \<Rightarrow> (u32 \<times> u8 list \<times> 'c \<times> partition_table) option" where
  "write_partition M sz ptn c p = do {
     (ret, ty) \<leftarrow> partition_get_type sz ptn;
     if ret \<noteq> 0 then Some (ret, ptn, c, p)
     else if ty = PARTITION_TYPE_MBR then do {
       (ret, c, p) \<leftarrow> write_mbr M sz ptn c p;
       Some (ret, ptn, c, p) }
     else if ty = PARTITION_TYPE_GPT then write_gpt M sz ptn c p
     else Some (3, ptn, c, p) }"

end
