(* ===== verification/Lk_Gpt.thy ===== *)
theory Lk_Gpt
  imports Lk_Partition
begin

text \<open>
  Reading and patching partition tables: a chain of boot records never runs out of the array,
  a GUID table is read entry by entry, and a patched table has the checksums it needs.
\<close>

subsection \<open>Buffers of a block\<close>

lemma bytes_at_Some: "k + n \<le> length buf \<Longrightarrow> bytes_at k n buf = Some (take n (drop k buf))"
  by (simp add: bytes_at_def)

lemma block_reads:
  assumes "length buf = BLOCK_SIZE"
  shows "k < 512 \<Longrightarrow> byte_at buf k = Some (buf ! k)"
    and "k + 4 \<le> 512 \<Longrightarrow> \<exists>w. GET_LWORD_FROM_BYTE buf k = Some w"
    and "k + 8 \<le> 512 \<Longrightarrow> \<exists>w. GET_LLWORD_FROM_BYTE buf k = Some w"
  using assms by (simp_all add: byte_at_def GET_LWORD_FROM_BYTE_def GET_LLWORD_FROM_BYTE_def bytes_at_Some BLOCK_SIZE_def)

lemma verify_block: "length buf = BLOCK_SIZE \<Longrightarrow> \<exists>r. partition_verify_mbr_signature BLOCK_SIZE buf = Some r"
  by (simp add: partition_verify_mbr_signature_def byte_at_def TABLE_SIGNATURE_def BLOCK_SIZE_def)

subsection \<open>The array of partitions\<close>

definition table_ok :: "partition_table \<Rightarrow> bool" where
  "table_ok p \<longleftrightarrow> length (partition_entries p) = NUM_PARTITIONS \<and> partition_count p \<le> NUM_PARTITIONS \<and>
     vfat_count p \<le> 2 \<and> ext3_count p \<le> 5 \<and> list_all (\<lambda>e. length (part_name e) = MAX_GPT_NAME_SIZE) (partition_entries p)"

text \<open>The driver fills the whole buffer.\<close>

definition reads_blocks :: "'c mmc \<Rightarrow> 'c \<Rightarrow> bool" where
  "reads_blocks M c \<longleftrightarrow> (\<forall>a. length (snd (mmc_boot_read_from_card M c a)) = BLOCK_SIZE)"

lemma length_copy_name: "length bs \<le> length (part_name e) \<Longrightarrow> length (part_name (copy_name bs e)) = length (part_name e)"
  by (simp add: copy_name_def)

lemma mbr_names_short: "map_of mbr_names ty = Some n \<Longrightarrow> length n \<le> 9"
  by (auto simp: mbr_names_def split: if_splits)

lemma fill_name_ok:
  assumes "mbr_fill_name e ty p = (e', q)" and "length (part_name e) = MAX_GPT_NAME_SIZE" and "vfat_count p \<le> 2" and "ext3_count p \<le> 5"
  shows "length (part_name e') = MAX_GPT_NAME_SIZE \<and> vfat_count q \<le> 2 \<and> ext3_count q \<le> 5 \<and>
    partition_entries q = partition_entries p \<and> partition_count q = partition_count p"
proof -
  have v: "length (vfat_partitions ! vfat_count p) \<le> 5 \<and> (vfat_partitions ! vfat_count p \<noteq> ''NONE'' \<longrightarrow> vfat_count p < 2)"
    using assms(3) by (cases "vfat_count p"; cases "vfat_count p - 1") (auto simp: vfat_partitions_def nth_Cons')
  have e: "length (ext3_partitions ! ext3_count p) \<le> 10" if "ext3_count p \<noteq> 5"
    using that assms(4) by (auto simp: ext3_partitions_def nth_Cons')
  have c: "length (part_name (copy_name bs e)) = MAX_GPT_NAME_SIZE" if "length bs \<le> 72" for bs
    using that assms(2) by (simp add: copy_name_def MAX_GPT_NAME_SIZE_def)
  have l: "length ext3_partitions = 5" by (simp add: ext3_partitions_def)
  show ?thesis
    using assms v e mbr_names_short [of ty] unfolding mbr_fill_name_def l
    by (auto simp: c ascii_def split: if_splits option.splits)
qed

lemma store_ok:
  assumes "table_ok p" and "partition_count p < NUM_PARTITIONS"
  shows "\<exists>q. store_mbr_entry st ty f n p = Some q \<and> table_ok q \<and> partition_count q = Suc (partition_count p)"
proof -
  let ?e = "(partition_entries p ! partition_count p)\<lparr>dtype := ucast ty, attribute_flag := ucast st, first_lba := ucast f, lba_count := ucast n\<rparr>"
  obtain e' q where q: "mbr_fill_name ?e (ucast ty) p = (e', q)" by fastforce
  have "length (part_name ?e) = MAX_GPT_NAME_SIZE" using assms by (simp add: table_ok_def list_all_length)
  then have "length (part_name e') = MAX_GPT_NAME_SIZE \<and> vfat_count q \<le> 2 \<and> ext3_count q \<le> 5 \<and>
      partition_entries q = partition_entries p \<and> partition_count q = partition_count p"
    using fill_name_ok [OF q] assms(1) by (simp add: table_ok_def)
  then show ?thesis using assms set_update_subset_insert [of "partition_entries p" "partition_count p" e']
    by (auto simp: store_mbr_entry_def q table_ok_def list_all_iff Let_def)
qed

lemma mbr_loop_ok:
  assumes "length buf = BLOCK_SIZE" and "table_ok p" and "partition_count p + length is < NUM_PARTITIONS" and "\<And>i. i \<in> set is \<Longrightarrow> i < 4"
  shows "\<exists>r q. mbr_loop is buf final p = Some (r, q) \<and> table_ok q \<and> partition_count q < NUM_PARTITIONS"
  using assms(2-4)
proof (induction "is" arbitrary: p final)
  case (Cons i "is")
  have i: "i < 4" using Cons.prems(3) by simp
  note b = block_reads [OF assms(1)]
  obtain f n where fn: "GET_LWORD_FROM_BYTE buf (TABLE_ENTRY_0 + i * 0x10 + 0x08) = Some f"
    "GET_LWORD_FROM_BYTE buf (TABLE_ENTRY_0 + i * 0x10 + 0x0C) = Some n"
    using b(2) [of "TABLE_ENTRY_0 + i * 0x10 + 0x08"] b(2) [of "TABLE_ENTRY_0 + i * 0x10 + 0x0C"] i by (auto simp: TABLE_ENTRY_0_def)
  obtain st ty where sy: "byte_at buf (TABLE_ENTRY_0 + i * 0x10 + 0x04) = Some ty" "byte_at buf (TABLE_ENTRY_0 + i * 0x10) = Some st"
    using b(1) i by (auto simp: TABLE_ENTRY_0_def)
  obtain q where q: "store_mbr_entry st ty f n p = Some q" "table_ok q" "partition_count q = Suc (partition_count p)"
    using store_ok [of p st ty f n] Cons.prems by auto
  obtain r u where "mbr_loop is buf (ucast ty, f) q = Some (r, u)" "table_ok u" "partition_count u < NUM_PARTITIONS"
    using Cons.IH [OF q(2), of "(ucast ty, f)"] q(3) Cons.prems by auto
  moreover have "table_ok (p\<lparr>gpt_partitions_exist := True\<rparr>)" using Cons.prems(1) by (simp add: table_ok_def)
  ultimately show ?case using Cons.prems q by (auto simp: fn sy)
qed simp

lemma ebr_loop_ok:
  assumes "reads_blocks M c" and "length buf = BLOCK_SIZE" and "table_ok p" and "partition_count p < NUM_PARTITIONS"
  shows "\<exists>r q. ebr_loop M c f cur buf p = Some (r, q) \<and> table_ok q"
  using assms(2-)
proof (induction "NUM_PARTITIONS - partition_count p" arbitrary: p buf cur rule: less_induct)
  case less
  note b = block_reads [OF less.prems(1)]
  obtain sg where sg: "partition_verify_mbr_signature BLOCK_SIZE buf = Some sg" using verify_block [OF less.prems(1)] by blast
  obtain fs n nx where fn: "GET_LWORD_FROM_BYTE buf (TABLE_ENTRY_0 + 0x08) = Some fs"
    "GET_LWORD_FROM_BYTE buf (TABLE_ENTRY_0 + 0x0C) = Some n" "GET_LWORD_FROM_BYTE buf (TABLE_ENTRY_1 + 0x08) = Some nx"
    using b(2) [of "TABLE_ENTRY_0 + 0x08"] b(2) [of "TABLE_ENTRY_0 + 0x0C"] b(2) [of "TABLE_ENTRY_1 + 0x08"]
    by (auto simp: TABLE_ENTRY_0_def TABLE_ENTRY_1_def)
  obtain st ty where sy: "byte_at buf TABLE_ENTRY_0 = Some st" "byte_at buf (TABLE_ENTRY_0 + 0x04) = Some ty"
    using b(1) by (auto simp: TABLE_ENTRY_0_def)
  obtain q where q: "store_mbr_entry st ty (fs + cur) n p = Some q" "table_ok q" "partition_count q = Suc (partition_count p)"
    using store_ok less.prems by blast
  obtain ret buf' where rd: "mmc_boot_read_from_card M c (ucast (f * 512 + nx * 512)) = (ret, buf')" by fastforce
  have b': "length buf' = BLOCK_SIZE" using assms(1) rd by (metis reads_blocks_def snd_conv)
  have IH: "\<exists>r u. ebr_loop M c f (f + nx) buf' q = Some (r, u) \<and> table_ok u" if "partition_count q \<noteq> NUM_PARTITIONS"
    using less.hyps [of q buf' "f + nx"] b' q less.prems that by (simp add: table_ok_def)
  show ?case
    by (subst ebr_loop.simps) (use IH q less.prems(2) in \<open>auto simp: sg sy fn rd\<close>)
qed

text \<open>C12: Reading a master boot record comes to its end on every card, whatever is on it: a chain of
  extended boot records, even a circular one, fills at most the 32 entries of the array and no
  name overruns its field.\<close>

theorem mmc_boot_read_mbr_total:
  assumes "reads_blocks M c" and "table_ok p"
  shows "\<exists>ret q. mmc_boot_read_mbr M c p = Some (ret, q) \<and> table_ok q"
proof -
  obtain r0 buf where rd: "mmc_boot_read_from_card M c 0 = (r0, buf)" by fastforce
  have buf: "length buf = BLOCK_SIZE" using assms(1) rd by (metis reads_blocks_def snd_conv)
  obtain sg where sg: "partition_verify_mbr_signature BLOCK_SIZE buf = Some sg" using verify_block [OF buf] by blast
  have p0: "table_ok (p\<lparr>partition_count := 0\<rparr>)" using assms(2) by (simp add: table_ok_def)
  obtain r q where q: "mbr_loop [0..<4] buf (0, 0) (p\<lparr>partition_count := 0\<rparr>) = Some (r, q)" "table_ok q" "partition_count q < NUM_PARTITIONS"
    using mbr_loop_ok [OF buf p0, of "[0..<4]" "(0, 0)"] by (auto simp: NUM_PARTITIONS_def)
  have "\<exists>ret u. ebr_loop M c s s (snd (mmc_boot_read_from_card M c a)) q = Some (ret, u) \<and> table_ok u" for s a
    using ebr_loop_ok [OF assms(1) _ q(2,3)] assms(1) by (simp add: reads_blocks_def)
  then show ?thesis using assms(2) q(2)
    by (auto simp: mmc_boot_read_mbr_def rd sg q(1) case_prod_unfold Let_def split: option.split)
qed

text \<open>A card whose extended boot record leads back to itself.\<close>

definition circular_card :: "unit mmc" where
  "circular_card = \<lparr>mmc_boot_read_from_card = (\<lambda>_ _. (0, (replicate 512 0)[0x1CE + 0x08 := 1, 0x1EE + 0x04 := 0x05, 0x1EE + 0x08 := 1,
       0x1FE := 0x55, 0x1FF := 0xAA])),
     mmc_write = (\<lambda>c _ _. (0, c)), mmc_erase_card = (\<lambda>c _ _. (0, c)), capacity = (\<lambda>_. 0)\<rparr>"

lemma zero_table_ok: "table_ok zero_table"
  by (simp add: table_ok_def zero_table_def zero_entry_def list_all_iff)

theorem mmc_boot_read_mbr_total_witness:
  "\<exists>ret q. mmc_boot_read_mbr circular_card () zero_table = Some (ret, q) \<and> table_ok q"
  by (rule mmc_boot_read_mbr_total) (simp_all add: reads_blocks_def circular_card_def BLOCK_SIZE_def zero_table_ok)

subsection \<open>Reading a GUID table\<close>

text \<open>An entry is in use unless the first two bytes of its type are 0; in use, it is decoded
  over the old contents of its place in the array.\<close>

definition in_use :: "u8 list \<Rightarrow> nat \<Rightarrow> bool" where
  "in_use block k \<longleftrightarrow> \<not> (block ! k = 0 \<and> block ! Suc k = 0)"

definition decoded :: "u8 list \<Rightarrow> nat \<Rightarrow> partition_entry \<Rightarrow> partition_entry option" where
  "decoded block k e = gpt_entry block k (e\<lparr>type_guid := take 16 (drop k block)\<rparr>)"

lemma decoded_Some: "length block = BLOCK_SIZE \<Longrightarrow> k + 128 \<le> 512 \<Longrightarrow> \<exists>e'. decoded block k e = Some e'"
  by (simp add: decoded_def gpt_entry_def GET_LLWORD_FROM_BYTE_def bytes_at_def BLOCK_SIZE_def MAX_GPT_NAME_SIZE_def)

text \<open>The entries of a table, from number m on.\<close>

lemma gpt_block_step:
  assumes "length block = BLOCK_SIZE" and "sz \<le> 128" and "j < 4" and "partition_count p < length (partition_entries p)"
  defines "k \<equiv> j * unat sz"
  shows "gpt_block (of_nat j # js) sz block p =
    (if \<not> in_use block k
     then Some (True, p\<lparr>partition_entries := (partition_entries p)[partition_count p := (partition_entries p ! partition_count p)\<lparr>type_guid := take 16 (drop k block)\<rparr>]\<rparr>)
     else case decoded block k (partition_entries p ! partition_count p) of
         None \<Rightarrow> None
       | Some e \<Rightarrow> gpt_block js sz block (p\<lparr>partition_entries := (partition_entries p)[partition_count p := e], partition_count := partition_count p + 1\<rparr>))"
proof -
  have sz: "unat sz \<le> 128" using assms(2) by (simp add: word_le_nat_alt)
  have "unat (of_nat j * sz :: u32) = k"
  proof -
    have "j * unat sz < 4294967296" using mult_le_mono [of j 3 "unat sz" 128] assms(3) sz by simp
    then show ?thesis using assms(3) by (simp add: k_def unat_word_ariths unat_of_nat)
  qed
  moreover have k: "k + 128 \<le> 512" using mult_le_mono [of j 3 "unat sz" 128] assms(3) sz by (simp add: k_def)
  moreover have "take 16 (drop k block) ! 0 = block ! k" "take 16 (drop k block) ! 1 = block ! Suc k" using k assms(1) by (simp_all add: BLOCK_SIZE_def)
  ultimately show ?thesis using assms(1,4)
    by (simp add: bytes_at_Some BLOCK_SIZE_def in_use_def decoded_def Let_def split: option.split)
qed

lemma gpt_block_run:
  assumes "length block = BLOCK_SIZE" and "sz \<le> 128" and "n \<le> 4" and "n < 4 \<Longrightarrow> \<not> in_use block (n * unat sz)"
    and "j \<le> n" and "partition_count p + (4 - j) \<le> length (partition_entries p)" and "\<And>i. j \<le> i \<Longrightarrow> i < n \<Longrightarrow> in_use block (i * unat sz)"
  shows "\<exists>q. gpt_block (map of_nat [j..<4]) sz block p = Some (n < 4, q) \<and> partition_count q = partition_count p + (n - j) \<and>
    length (partition_entries q) = length (partition_entries p) \<and>
    (\<forall>m < partition_count p. partition_entries q ! m = partition_entries p ! m) \<and>
    (\<forall>m. partition_count p \<le> m \<and> m < partition_count q \<longrightarrow>
       decoded block ((j + (m - partition_count p)) * unat sz) (partition_entries p ! m) = Some (partition_entries q ! m)) \<and>
    (n = 4 \<longrightarrow> (\<forall>m \<ge> partition_count q. partition_entries q ! m = partition_entries p ! m))"
  using assms(5-7)
proof (induction "n - j" arbitrary: j p)
  case 0
  then have jn: "j = n" by simp
  show ?case
  proof (cases "n < 4")
    case True
    then have "[j..<4] = j # [Suc j..<4]" using jn by (simp add: upt_conv_Cons)
    then show ?thesis using gpt_block_step [OF assms(1,2), of n p] assms(4) True 0 jn by auto
  qed (use jn assms(3) in auto)
next
  case (Suc x)
  then have jn: "j < n" "j < 4" using assms(3) by simp_all
  have u: "[j..<4] = j # [Suc j..<4]" using jn(2) by (simp add: upt_conv_Cons)
  let ?c = "partition_count p" and ?k = "j * unat sz"
  have "unat sz \<le> 128" using assms(2) by (simp add: word_le_nat_alt)
  then have "?k + 128 \<le> 512" using mult_le_mono [of j 3 "unat sz" 128] jn(2) by simp
  then obtain e where e: "decoded block ?k (partition_entries p ! ?c) = Some e" using decoded_Some [OF assms(1)] by blast
  let ?p = "p\<lparr>partition_entries := (partition_entries p)[?c := e], partition_count := ?c + 1\<rparr>"
  have c: "?c < length (partition_entries p)" using Suc.prems(2) jn(2) by simp
  have "\<exists>q. gpt_block (map of_nat [Suc j..<4]) sz block ?p = Some (n < 4, q) \<and> partition_count q = partition_count ?p + (n - Suc j) \<and>
    length (partition_entries q) = length (partition_entries ?p) \<and>
    (\<forall>m < partition_count ?p. partition_entries q ! m = partition_entries ?p ! m) \<and>
    (\<forall>m. partition_count ?p \<le> m \<and> m < partition_count q \<longrightarrow>
       decoded block ((Suc j + (m - partition_count ?p)) * unat sz) (partition_entries ?p ! m) = Some (partition_entries q ! m)) \<and>
    (n = 4 \<longrightarrow> (\<forall>m \<ge> partition_count q. partition_entries q ! m = partition_entries ?p ! m))"
    using Suc.hyps(1) [of "Suc j" ?p] Suc.hyps(2) Suc.prems jn by simp
  then obtain q where q: "gpt_block (map of_nat [Suc j..<4]) sz block ?p = Some (n < 4, q)" "partition_count q = ?c + (n - j)"
    "length (partition_entries q) = length (partition_entries p)" "\<forall>m \<le> ?c. partition_entries q ! m = (partition_entries p)[?c := e] ! m"
    "\<And>m. ?c < m \<Longrightarrow> m < partition_count q \<Longrightarrow> decoded block ((Suc j + (m - Suc ?c)) * unat sz) ((partition_entries p)[?c := e] ! m) = Some (partition_entries q ! m)"
    "n = 4 \<longrightarrow> (\<forall>m \<ge> partition_count q. partition_entries q ! m = (partition_entries p)[?c := e] ! m)"
    using jn by (auto simp: less_Suc_eq_le)
  have "decoded block ((j + (m - ?c)) * unat sz) (partition_entries p ! m) = Some (partition_entries q ! m)"
    if "?c \<le> m" "m < partition_count q" for m
  proof (cases "m = ?c")
    case False
    then have "?c < m" "Suc j + (m - Suc ?c) = j + (m - ?c)" using that by simp_all
    then show ?thesis using q(5) [of m] that False by simp
  qed (use e q(4) c in simp)
  then show ?case
    using q gpt_block_step [OF assms(1,2) jn(2) c] Suc.prems(3) jn c unfolding u by (auto simp: e)
qed

definition entry_block :: "'c mmc \<Rightarrow> 'c \<Rightarrow> u64 \<Rightarrow> nat \<Rightarrow> u8 list" where
  "entry_block M c p0 m = snd (mmc_boot_read_from_card M c (p0 * 512 + ucast (of_nat (m div 4) * 512 :: u32)))"

definition entry_offset :: "u32 \<Rightarrow> nat \<Rightarrow> nat" where
  "entry_offset sz m = (m mod 4) * unat sz"

definition reads_succeed :: "'c mmc \<Rightarrow> 'c \<Rightarrow> bool" where
  "reads_succeed M c \<longleftrightarrow> reads_blocks M c \<and> (\<forall>a. fst (mmc_boot_read_from_card M c a) = 0)"

lemma gpt_loop_run:
  assumes "reads_succeed M c" and "sz \<le> 128" and "n < NUM_PARTITIONS" and "n < 4 * unat (max_count div 4)" and "\<not> max_count + 1 < max_count div 4"
    and used: "\<And>m. m < n \<Longrightarrow> in_use (entry_block M c p0 m) (entry_offset sz m)" and free: "\<not> in_use (entry_block M c p0 n) (entry_offset sz n)"
    and "length (partition_entries p) = NUM_PARTITIONS" and "partition_count p = 4 * i" and "4 * i \<le> n"
  shows "\<exists>q. gpt_loop M c p0 sz max_count (of_nat i) p = Some (0, q) \<and> partition_count q = n \<and>
    (\<forall>m < 4 * i. partition_entries q ! m = partition_entries p ! m) \<and>
    (\<forall>m. 4 * i \<le> m \<and> m < n \<longrightarrow> decoded (entry_block M c p0 m) (entry_offset sz m) (partition_entries p ! m) = Some (partition_entries q ! m))"
  using assms(8-10)
proof (induction "n - 4 * i" arbitrary: i p rule: less_induct)
  case less
  define k where "k = min 4 (n - 4 * i)"
  define block where "block = entry_block M c p0 (4 * i)"
  have i: "i < 8" using less.prems(3) assms(3) by (simp add: NUM_PARTITIONS_def)
  have blk: "entry_block M c p0 m = block" "entry_offset sz m = (m - 4 * i) * unat sz" if "4 * i \<le> m" "m < 4 * i + 4" for m
  proof -
    have "m div 4 = i" using that by simp
    moreover from this have "m mod 4 = m - 4 * i" using div_mult_mod_eq [of m 4] by simp
    ultimately show "entry_block M c p0 m = block" "entry_offset sz m = (m - 4 * i) * unat sz" by (simp_all add: block_def entry_block_def entry_offset_def)
  qed
  have rd: "mmc_boot_read_from_card M c (p0 * 512 + ucast (of_nat i * 512 :: u32)) = (0, block)"
    using assms(1) by (simp add: reads_succeed_def block_def entry_block_def prod_eq_iff)
  have "length block = BLOCK_SIZE" using assms(1) by (simp add: reads_succeed_def reads_blocks_def block_def entry_block_def)
  moreover have "k < 4 \<Longrightarrow> \<not> in_use block (k * unat sz)" using free blk [of n] less.prems(3) by (simp add: k_def)
  moreover have "in_use block (x * unat sz)" if "x < k" for x using used [of "4 * i + x"] blk [of "4 * i + x"] that by (simp add: k_def less_diff_conv add.commute)
  ultimately obtain q where q: "gpt_block (map of_nat [0..<4]) sz block p = Some (k < 4, q)" "partition_count q = 4 * i + k"
    "length (partition_entries q) = NUM_PARTITIONS" "\<forall>m < 4 * i. partition_entries q ! m = partition_entries p ! m"
    "\<forall>m. 4 * i \<le> m \<and> m < partition_count q \<longrightarrow> decoded block ((m - 4 * i) * unat sz) (partition_entries p ! m) = Some (partition_entries q ! m)"
    "k = 4 \<longrightarrow> (\<forall>m \<ge> partition_count q. partition_entries q ! m = partition_entries p ! m)"
    using gpt_block_run [of block sz k 0 p] assms(2) less.prems(1,2) i by (auto simp: k_def NUM_PARTITIONS_def)
  have here: "decoded (entry_block M c p0 m) (entry_offset sz m) (partition_entries p ! m) = Some (partition_entries q ! m)"
    if "4 * i \<le> m" "m < 4 * i + k" for m
    using q(2,5) that blk [of m] by (simp add: k_def)
  have "unat (of_nat i :: u32) = i" using i by (simp add: unat_of_nat)
  then have lt: "of_nat i < max_count div 4" using assms(4) less.prems(3) by (simp add: word_less_nat_alt)
  have step: "gpt_loop M c p0 sz max_count (of_nat i) p = gpt_loop M c p0 sz max_count ((if k < 4 then max_count else of_nat i) + 1) q"
    using q(1) lt rd less.prems(2) i by (subst gpt_loop.simps) (simp add: NUM_PARTITIONS_def upt_rec)
  show ?case
  proof (cases "k < 4")
    case True
    then have "gpt_loop M c p0 sz max_count (of_nat i) p = Some (0, q)" unfolding step using assms(5) by (subst gpt_loop.simps) simp
    moreover have "4 * i + k = n" using True less.prems(3) by (simp add: k_def)
    ultimately show ?thesis using q(2,4) here by auto
  next
    case False
    then have k: "k = 4" "4 * Suc i \<le> n" by (simp_all add: k_def)
    have d: "n - 4 * Suc i < n - 4 * i" and q2: "partition_count q = 4 * Suc i" using k q(2) by simp_all
    obtain r where r: "gpt_loop M c p0 sz max_count (of_nat (Suc i)) q = Some (0, r)" "partition_count r = n"
      "\<forall>m < 4 * Suc i. partition_entries r ! m = partition_entries q ! m"
      "\<forall>m. 4 * Suc i \<le> m \<and> m < n \<longrightarrow> decoded (entry_block M c p0 m) (entry_offset sz m) (partition_entries q ! m) = Some (partition_entries r ! m)"
      using less.hyps [OF d q(3) q2 k(2)] by blast
    have "decoded (entry_block M c p0 m) (entry_offset sz m) (partition_entries p ! m) = Some (partition_entries r ! m)" if "4 * i \<le> m" "m < n" for m
    proof (cases "m < 4 * Suc i")
      case True
      then show ?thesis using here [of m] r(3) that(1) k(1) by simp
    next
      case False
      then show ?thesis using r(4) that(2) q(6) q2 k(1) by auto
    qed
    moreover have "gpt_loop M c p0 sz max_count (of_nat i) p = Some (0, r)" unfolding step using r(1) k(1) by (simp add: add.commute)
    ultimately show ?thesis using r(2,3) q(4) by auto
  qed
qed


text \<open>A card with one partition.\<close>

definition gpt_header_block :: "u8 list" where
  "gpt_header_block = [0x45, 0x46, 0x49, 0x20, 0x50, 0x41, 0x52, 0x54] @ replicate 64 0 @ [2, 0, 0, 0, 0, 0, 0, 0] @ [4, 0, 0, 0] @ [128, 0, 0, 0] @
     replicate 424 0"

definition gpt_entry_block :: "u8 list" where
  "gpt_entry_block = [1] @ replicate 511 0"

definition gpt_card :: "unit mmc" where
  "gpt_card = \<lparr>mmc_boot_read_from_card = (\<lambda>_ a. (0, if a = 512 then gpt_header_block else gpt_entry_block)),
     mmc_write = (\<lambda>c _ _. (0, c)), mmc_erase_card = (\<lambda>c _ _. (0, c)), capacity = (\<lambda>_. 0x100000)\<rparr>"


subsection \<open>Patching a table\<close>

lemma put_bytes_frame:
  assumes "put_bytes k bs buf = Some buf'"
  shows "length buf' = length buf" and "i < k \<or> k + length bs \<le> i \<Longrightarrow> buf' ! i = buf ! i" and "bytes_at k (length bs) buf' = Some bs"
  using assms by (auto simp: put_bytes_def bytes_at_def nth_append split: if_splits)

lemma bytes_at_nth: "bytes_at k n buf = Some bs \<longleftrightarrow> k + n \<le> length buf \<and> length bs = n \<and> (\<forall>i < n. bs ! i = buf ! (k + i))"
  by (auto simp: bytes_at_def list_eq_iff_nth_eq)

lemma bytes_at_cong:
  assumes "length buf' = length buf" and "\<And>i. k \<le> i \<Longrightarrow> i < k + n \<Longrightarrow> buf' ! i = buf ! i"
  shows "bytes_at k n buf' = bytes_at k n buf"
  using assms by (auto simp: bytes_at_def list_eq_iff_nth_eq)

lemma bytes_at_put:
  assumes "put_bytes k bs buf = Some buf'" and "j + n \<le> k \<or> k + length bs \<le> j"
  shows "bytes_at j n buf' = bytes_at j n buf"
  using put_bytes_frame [OF assms(1)] assms(2) by (intro bytes_at_cong) auto

lemma PUT_LONG_bytes: "PUT_LONG k y buf = Some buf' \<Longrightarrow> \<exists>bs. length bs = 4 \<and> put_bytes k bs buf = Some buf'"
  "PUT_LONG_LONG k z buf = Some buf' \<Longrightarrow> \<exists>bs. length bs = 8 \<and> put_bytes k bs buf = Some buf'"
  unfolding PUT_LONG_def PUT_LONG_LONG_def by (rule exI, rule conjI [rotated], assumption, simp)+

lemma long_of_bytes:
  "ucast (ucast (y AND mask 8) :: u8) OR push_bit 8 (ucast (ucast (drop_bit 8 y AND mask 8) :: u8)) OR
     push_bit 16 (ucast (ucast (drop_bit 16 y AND mask 8) :: u8)) OR push_bit 24 (ucast (ucast (drop_bit 24 y AND mask 8) :: u8)) = (y :: u32)"
proof (rule bit_word_eqI)
  fix n assume "n < LENGTH(32)"
  then consider "n < 8" | "8 \<le> n" "n < 16" | "16 \<le> n" "n < 24" | "24 \<le> n" "n < 32" by fastforce
  then show "bit (ucast (ucast (y AND mask 8) :: u8) OR push_bit 8 (ucast (ucast (drop_bit 8 y AND mask 8) :: u8)) OR
     push_bit 16 (ucast (ucast (drop_bit 16 y AND mask 8) :: u8)) OR push_bit 24 (ucast (ucast (drop_bit 24 y AND mask 8) :: u8)) :: u32) n \<longleftrightarrow> bit y n"
    by cases (simp_all add: bit_simps, linarith+)
qed

lemma put_get_long:
  assumes "PUT_LONG k y buf = Some buf'"
  shows "GET_LWORD_FROM_BYTE buf' k = Some y"
proof -
  define bs :: "u8 list" where
    "bs = [ucast (y AND 0xFF), ucast (drop_bit 8 y AND 0xFF), ucast (drop_bit 16 y AND 0xFF), ucast (drop_bit 24 y AND 0xFF)]"
  have m: "(0xFF :: u32) = mask 8" by (simp add: mask_numeral)
  have l: "length bs = 4" by (simp add: bs_def)
  have "put_bytes k bs buf = Some buf'" using assms by (simp only: PUT_LONG_def bs_def)
  then have b: "bytes_at k 4 buf' = Some bs" using put_bytes_frame(3) l by metis
  show ?thesis unfolding GET_LWORD_FROM_BYTE_def b bs_def m by (simp add: long_of_bytes)
qed

text \<open>A header is valid when its checksum is that of its first 92 bytes with the field of the
  checksum cleared; the entries are valid when theirs is that of the array.\<close>

definition header_crc_ok :: "nat \<Rightarrow> u8 list \<Rightarrow> bool" where
  "header_crc_ok k img \<longleftrightarrow> (\<exists>bs. bytes_at k 92 img = Some bs \<and>
     GET_LWORD_FROM_BYTE bs 16 = Some (crc32 (take 16 bs @ [0, 0, 0, 0] @ drop 20 bs)))"

definition array_crc_ok :: "nat \<Rightarrow> nat \<Rightarrow> nat \<Rightarrow> u8 list \<Rightarrow> bool" where
  "array_crc_ok k start len img \<longleftrightarrow> (\<exists>bs. bytes_at start len img = Some bs \<and> GET_LWORD_FROM_BYTE img (k + 88) = Some (crc32 bs))"

lemma bytes_at_bytes_at:
  assumes "bytes_at k n img = Some bs" and "j + m \<le> n"
  shows "bytes_at j m bs = bytes_at (k + j) m img"
proof -
  have bs: "k + n \<le> length img" "bs = take n (drop k img)" using assms(1) by (auto simp: bytes_at_def split: if_splits)
  have "take m (drop j bs) = take m (drop (k + j) img)" using assms(2) by (simp add: bs(2) drop_take min_absorb1 add.commute)
  then show ?thesis using bs(1) assms(2) by (simp add: bytes_at_def bs(2))
qed

lemma GET_bytes_at: "bytes_at k n img = Some bs \<Longrightarrow> j + 4 \<le> n \<Longrightarrow> GET_LWORD_FROM_BYTE bs j = GET_LWORD_FROM_BYTE img (k + j)"
  by (simp add: GET_LWORD_FROM_BYTE_def bytes_at_bytes_at)

lemma bytes_at_PUT:
  assumes "PUT_LONG k y buf = Some buf'" and "j + n \<le> k \<or> k + 4 \<le> j"
  shows "bytes_at j n buf' = bytes_at j n buf"
proof -
  obtain bs where bs: "length bs = 4" "put_bytes k bs buf = Some buf'" using PUT_LONG_bytes(1) [OF assms(1)] by (elim exE conjE)
  show ?thesis by (rule bytes_at_put [OF bs(2)]) (use assms(2) bs(1) in simp)
qed

lemma GET_PUT: "PUT_LONG k y buf = Some buf' \<Longrightarrow> j + 4 \<le> k \<or> k + 4 \<le> j \<Longrightarrow> GET_LWORD_FROM_BYTE buf' j = GET_LWORD_FROM_BYTE buf j"
  by (simp add: GET_LWORD_FROM_BYTE_def bytes_at_PUT)

lemma patch_header_crc_ok:
  assumes "patch_header_crc k a = Some b"
  shows "header_crc_ok k b" and "j + n \<le> k + 16 \<or> k + 20 \<le> j \<Longrightarrow> bytes_at j n b = bytes_at j n a"
    and "j + 4 \<le> k + 16 \<or> k + 20 \<le> j \<Longrightarrow> GET_LWORD_FROM_BYTE b j = GET_LWORD_FROM_BYTE a j"
proof -
  obtain z zs where z: "PUT_LONG (k + 16) 0 a = Some z" and zs: "bytes_at k 92 z = Some zs" and b: "PUT_LONG (k + 16) (crc32 zs) z = Some b"
    using assms by (auto simp: patch_header_crc_def image_crc_def crc32_of_code split: bind_splits)
  have "put_bytes (k + 16) [0, 0, 0, 0] a = Some z" using z by (simp add: PUT_LONG_def)
  note z0 = put_bytes_frame(3) [OF this]
  obtain cs where cs: "length cs = 4" "put_bytes (k + 16) cs z = Some b" using PUT_LONG_bytes(1) [OF b] by blast
  note bf = put_bytes_frame [OF cs(2), unfolded cs(1)]
  have zl: "k + 92 \<le> length z" "length zs = 92" "\<And>i. i < 92 \<Longrightarrow> zs ! i = z ! (k + i)" using zs by (auto simp: bytes_at_nth)
  obtain bs where bs: "bytes_at k 92 b = Some bs" using zl(1) bf(1) by (simp add: bytes_at_def)
  have bl: "length bs = 92" "\<And>i. i < 92 \<Longrightarrow> bs ! i = b ! (k + i)" using bs by (auto simp: bytes_at_nth)
  have zero: "zs ! (16 + i) = 0" if "i < 4" for i
  proof -
    have "[0, 0, 0, 0 :: u8] ! i = z ! (k + 16 + i)" using z0 that by (simp add: bytes_at_nth)
    moreover have "[0, 0, 0, 0 :: u8] ! i = 0" using that by (auto simp: nth_Cons')
    ultimately show ?thesis using zl(3) [of "16 + i"] that by (simp add: add.assoc)
  qed
  have "take 16 bs @ [0, 0, 0, 0] @ drop 20 bs = zs"
  proof (rule nth_equalityI)
    fix i assume "i < length (take 16 bs @ [0, 0, 0, 0] @ drop 20 bs)"
    then have i: "i < 92" using bl(1) by simp
    consider "i < 16" | "16 \<le> i" "i < 20" | "20 \<le> i" by linarith
    then show "(take 16 bs @ [0, 0, 0, 0] @ drop 20 bs) ! i = zs ! i"
    proof cases
      case 2
      then show ?thesis using zero [of "i - 16"] bl(1) by (auto simp: nth_append nth_Cons')
    qed (use i bl zl(3) bf(2) in \<open>auto simp: nth_append\<close>)
  qed (use bl zl in simp)
  moreover have "GET_LWORD_FROM_BYTE bs 16 = Some (crc32 zs)" using GET_bytes_at [OF bs, of 16] put_get_long [OF b] by simp
  ultimately show "header_crc_ok k b" using bs by (simp add: header_crc_ok_def)
  show "j + n \<le> k + 16 \<or> k + 20 \<le> j \<Longrightarrow> bytes_at j n b = bytes_at j n a" using bytes_at_PUT [OF b, of j n] bytes_at_PUT [OF z, of j n] by (simp add: add.commute)
  show "j + 4 \<le> k + 16 \<or> k + 20 \<le> j \<Longrightarrow> GET_LWORD_FROM_BYTE b j = GET_LWORD_FROM_BYTE a j"
    using GET_PUT [OF b, of j] GET_PUT [OF z, of j] by (simp add: add.commute)
qed

lemma nat_sint:
  assumes "unat (w :: u32) < 2 ^ 31"
  shows "nat (sint w) = unat w"
proof -
  have "uint w < 2147483648" using assms of_nat_less_iff [of "unat w" 2147483648, where 'a = int] by simp
  moreover have "- (2 ^ 31) \<le> uint w" by (rule order_trans [OF _ uint_ge_0]) simp
  ultimately have "- (2 ^ 31) \<le> uint w \<and> uint w < 2 ^ 31" by simp
  then have "signed_take_bit 31 (uint w) = uint w" by (intro signed_take_bit_int_eq_self) simp_all
  then show ?thesis by (simp add: sint_uint)
qed

lemma patch_gpt_checksums:
  assumes "patch_gpt card_capacity array_size max_count entry_size img = Some img'"
    and "unat (max_count * entry_size) \<le> unat array_size" and "unat array_size < 2 ^ 31"
  defines "second \<equiv> 1024 + 2 * unat array_size" and "len \<equiv> unat (max_count * entry_size)"
  shows "header_crc_ok 512 img' \<and> header_crc_ok second img' \<and> array_crc_ok 512 1024 len img' \<and>
    array_crc_ok second (1024 + unat array_size) len img'"
proof -
  have s: "unat (2 * array_size) + 1024 = second" using assms(3) by (simp add: second_def unat_word_ariths)
  have l: "nat (sint (max_count * entry_size)) = len" "len \<le> unat array_size"
    using assms(2,3) nat_sint [of "max_count * entry_size"] by (simp_all add: len_def)
  have c: "image_crc k (max_count * entry_size) a = map_option crc32 (bytes_at k len a)" for k a
    by (cases "bytes_at k len a") (simp_all add: image_crc_def l(1) crc32_of_code)
  define cs where "cs = (if card_capacity div 512 = 0 then 4 * 1024 * 1024 * 2 - 1 else card_capacity div 512)"
  have p: "patch_gpt card_capacity array_size max_count entry_size img = do {
      img \<leftarrow> patch_headers cs second img;
      a \<leftarrow> patch_last_partition cs (unat array_size) img;
      v1 \<leftarrow> map_option crc32 (bytes_at 1024 len a);
      i3 \<leftarrow> PUT_LONG (512 + 88) v1 a;
      v2 \<leftarrow> map_option crc32 (bytes_at (1024 + unat array_size) len i3);
      i4 \<leftarrow> PUT_LONG (second + 88) v2 i3;
      i6 \<leftarrow> patch_header_crc 512 i4;
      patch_header_crc second i6 }"
    unfolding patch_gpt_def Let_def s c cs_def ..
  obtain a b1 i3 b2 i4 i6 where st: "bytes_at 1024 len a = Some b1" "PUT_LONG (512 + 88) (crc32 b1) a = Some i3"
      "bytes_at (1024 + unat array_size) len i3 = Some b2" "PUT_LONG (second + 88) (crc32 b2) i3 = Some i4"
      "patch_header_crc 512 i4 = Some i6" "patch_header_crc second i6 = Some img'"
    using assms(1) unfolding p bind_eq_Some_conv map_option_eq_Some by (elim exE conjE) blast
  note h1 = patch_header_crc_ok [OF st(5)] and h2 = patch_header_crc_ok [OF st(6)]
  have "bytes_at 512 92 img' = bytes_at 512 92 i6" by (rule h2(2)) (simp add: second_def)
  then have "header_crc_ok 512 img'" using h1(1) by (simp add: header_crc_ok_def)
  moreover have "bytes_at 1024 len img' = Some b1"
    using h2(2) [of 1024 len] h1(2) [of 1024 len] bytes_at_PUT [OF st(4), of 1024 len] bytes_at_PUT [OF st(2), of 1024 len] st(1) l(2) by (simp add: second_def)
  moreover have "GET_LWORD_FROM_BYTE img' (512 + 88) = Some (crc32 b1)"
    using h2(3) [of 600] h1(3) [of 600] GET_PUT [OF st(4), of 600] put_get_long [OF st(2)] by (simp add: second_def)
  moreover have "bytes_at (1024 + unat array_size) len img' = Some b2"
    using h2(2) [of "1024 + unat array_size" len] h1(2) [of "1024 + unat array_size" len] bytes_at_PUT [OF st(4), of "1024 + unat array_size" len] st(3) l(2)
    by (simp add: second_def)
  moreover have "GET_LWORD_FROM_BYTE img' (second + 88) = Some (crc32 b2)"
    using h2(3) [of "second + 88"] h1(3) [of "second + 88"] put_get_long [OF st(4)] by (simp add: second_def)
  ultimately show ?thesis using h2(1) by (simp add: array_crc_ok_def)
qed

text \<open>No access of patch_gpt leaves an image that holds both headers.\<close>

lemma PUT_defined:
  "k + 4 \<le> length buf \<Longrightarrow> \<exists>buf'. PUT_LONG k y buf = Some buf' \<and> length buf' = length buf"
  "k + 8 \<le> length buf \<Longrightarrow> \<exists>buf'. PUT_LONG_LONG k z buf = Some buf' \<and> length buf' = length buf \<and> (\<forall>i. i < k \<or> k + 8 \<le> i \<longrightarrow> buf' ! i = buf ! i)"
proof -
  show "k + 4 \<le> length buf \<Longrightarrow> \<exists>buf'. PUT_LONG k y buf = Some buf' \<and> length buf' = length buf"
    by (simp add: PUT_LONG_def put_bytes_def)
  assume k: "k + 8 \<le> length buf"
  then obtain buf' where b: "PUT_LONG_LONG k z buf = Some buf'" by (simp add: PUT_LONG_LONG_def put_bytes_def)
  obtain bs where bs: "length bs = 8" "put_bytes k bs buf = Some buf'" using PUT_LONG_bytes(2) [OF b] by (elim exE conjE)
  show "\<exists>buf'. PUT_LONG_LONG k z buf = Some buf' \<and> length buf' = length buf \<and> (\<forall>i. i < k \<or> k + 8 \<le> i \<longrightarrow> buf' ! i = buf ! i)"
    using b put_bytes_frame(1,2) [OF bs(2)] bs(1) by auto
qed

lemma count_parts_le: "count_parts img k = Some n \<Longrightarrow> k \<le> n"
  by (induction img k rule: count_parts.induct) (metis Suc_leD count_parts.simps dual_order.refl option.distinct(1) option.inject)

lemma count_parts_cong:
  assumes "count_parts img k = Some n" and "length img' = length img"
    and "\<And>j. j \<le> n \<Longrightarrow> img' ! (1024 + j * 128) = img ! (1024 + j * 128)"
  shows "count_parts img' k = Some n"
  using assms
proof (induction img k rule: count_parts.induct)
  case (1 img k)
  have "img' ! (1024 + k * 128) = img ! (1024 + k * 128)" using 1(4) count_parts_le [OF 1(2)] by simp
  then show ?case using 1 count_parts.simps [of img k] count_parts.simps [of img' k] by (simp split: if_splits)
qed

lemma patch_headers_defined:
  assumes "second + 92 \<le> length img" and "1024 \<le> second"
  shows "\<exists>img'. patch_headers cs second img = Some img' \<and> length img' = length img \<and> (\<forall>i. 1024 \<le> i \<and> i < second + 24 \<longrightarrow> img' ! i = img ! i)"
proof -
  obtain a where a: "PUT_LONG_LONG (512 + 32) (cs - 1) img = Some a" "length a = length img" "\<And>i. 1024 \<le> i \<Longrightarrow> a ! i = img ! i"
    using PUT_defined(2) [of "512 + 32" img "cs - 1"] assms by auto
  obtain b where b: "PUT_LONG_LONG (512 + 48) (cs - 34) a = Some b" "length b = length img" "\<And>i. 1024 \<le> i \<Longrightarrow> b ! i = a ! i"
    using PUT_defined(2) [of "512 + 48" a "cs - 34"] assms a(2) by auto
  obtain c where c: "PUT_LONG_LONG (second + 24) (cs - 1) b = Some c" "length c = length img" "\<And>i. i < second + 24 \<Longrightarrow> c ! i = b ! i"
    using PUT_defined(2) [of "second + 24" b "cs - 1"] assms b(2) by auto
  obtain d where d: "PUT_LONG_LONG (second + 48) (cs - 34) c = Some d" "length d = length img" "\<And>i. i < second + 24 \<Longrightarrow> d ! i = c ! i"
    using PUT_defined(2) [of "second + 48" c "cs - 34"] assms c(2) by auto
  obtain e where e: "PUT_LONG_LONG (second + 72) (cs - 33) d = Some e" "length e = length img" "\<And>i. i < second + 24 \<Longrightarrow> e ! i = d ! i"
    using PUT_defined(2) [of "second + 72" d "cs - 33"] assms d(2) by auto
  show ?thesis unfolding patch_headers_def a(1) b(1) c(1) d(1) e(1) Option.bind.simps
    using a(3) b(3) c(3) d(3) e(2,3) by simp
qed

lemma patch_last_partition_defined:
  assumes "count_parts img 0 = Some n" and "n * 128 \<le> array_size" and "1024 + 2 * array_size \<le> length img"
  shows "\<exists>img'. patch_last_partition cs array_size img = Some img' \<and> length img' = length img"
proof -
  define k where "k = nat (1024 + (int n - 1) * 128 + 40)"
  have k: "k + 8 \<le> 1024 + n * 128" by (simp add: k_def)
  obtain a where a: "PUT_LONG_LONG k (cs - 34) img = Some a" "length a = length img"
    using PUT_defined(2) [of k img "cs - 34"] k assms by auto
  obtain b where b: "PUT_LONG_LONG (k + array_size) (cs - 34) a = Some b" "length b = length img"
    using PUT_defined(2) [of "k + array_size" a "cs - 34"] k assms a(2) by auto
  show ?thesis unfolding patch_last_partition_def assms(1) Let_def Option.bind.simps k_def [symmetric] a(1) b(1) using b(2) by simp
qed

lemma patch_header_crc_defined: "k + 92 \<le> length img \<Longrightarrow> \<exists>img'. patch_header_crc k img = Some img' \<and> length img' = length img"
proof -
  assume k: "k + 92 \<le> length img"
  obtain a where a: "PUT_LONG (k + 16) 0 img = Some a" "length a = length img" using PUT_defined(1) [of "k + 16" img 0] k by auto
  then obtain v where v: "image_crc k 92 a = Some v" using k by (simp add: image_crc_def bytes_at_def)
  obtain b where b: "PUT_LONG (k + 16) v a = Some b" "length b = length img" using PUT_defined(1) [of "k + 16" a v] k a(2) by auto
  show ?thesis by (simp add: patch_header_crc_def a v b)
qed

lemma patch_gpt_defined:
  assumes "count_parts img 0 = Some n" and "n * 128 \<le> unat array_size"
    and "unat (max_count * entry_size) \<le> unat array_size" and "unat array_size < 2 ^ 31"
    and "1024 + 2 * unat array_size + 92 \<le> length img"
  shows "\<exists>img'. patch_gpt card_capacity array_size max_count entry_size img = Some img'"
proof -
  define second where "second = unat (2 * array_size) + 1024"
  define cs where "cs = (if card_capacity div 512 = 0 then 4 * 1024 * 1024 * 2 - 1 else card_capacity div 512)"
  have s: "second = 1024 + 2 * unat array_size" using assms(4) by (simp add: second_def unat_word_ariths)
  have crc: "\<exists>v. image_crc k (max_count * entry_size) a = Some v" if "k + unat array_size \<le> length a" for k a
    using that assms(3,4) nat_sint [of "max_count * entry_size"] by (simp add: image_crc_def bytes_at_def)
  obtain a where a: "patch_headers cs second img = Some a" "length a = length img" "\<And>i. 1024 \<le> i \<Longrightarrow> i < second + 24 \<Longrightarrow> a ! i = img ! i"
    using patch_headers_defined [of second img cs] assms(5) s by auto
  have "count_parts a 0 = Some n" using assms(2) s by (intro count_parts_cong [OF assms(1) a(2)] a(3)) auto
  then obtain b where b: "patch_last_partition cs (unat array_size) a = Some b" "length b = length img"
    using patch_last_partition_defined [of a n "unat array_size" cs] assms(2,5) a(2) by auto
  obtain v where v: "image_crc 1024 (max_count * entry_size) b = Some v" using crc [of 1024 b] b(2) assms(5) by auto
  obtain c where c: "PUT_LONG (512 + 88) v b = Some c" "length c = length img" using PUT_defined(1) [of "512 + 88" b v] b(2) assms(5) by auto
  obtain w where w: "image_crc (1024 + unat array_size) (max_count * entry_size) c = Some w"
    using crc [of "1024 + unat array_size" c] c(2) assms(5) by auto
  obtain d where d: "PUT_LONG (second + 88) w c = Some d" "length d = length img" using PUT_defined(1) [of "second + 88" c w] c(2) s assms(5) by auto
  obtain e where e: "patch_header_crc 512 d = Some e" "length e = length img" using patch_header_crc_defined [of 512 d] d(2) assms(5) by auto
  obtain f where f: "patch_header_crc second e = Some f" using patch_header_crc_defined [of second e] e(2) s assms(5) by auto
  show ?thesis unfolding patch_gpt_def Let_def second_def [symmetric] cs_def [symmetric] a(1) b(1) v c(1) w d(1) e(1) f Option.bind.simps by simp
qed

text \<open>C11: The table that is written to the card has valid checksums. On an image that holds both
  headers and an end of the list of partitions within the array, patch_gpt accesses nothing outside
  the image, and afterwards both headers and both arrays of entries carry the CRC-32 that the
  standard asks for.\<close>

theorem patch_gpt_valid:
  assumes "count_parts img 0 = Some n" and "n * 128 \<le> unat array_size"
    and "unat (max_count * entry_size) \<le> unat array_size" and "unat array_size < 2 ^ 31"
    and "1024 + 2 * unat array_size + 92 \<le> length img"
  defines "second \<equiv> 1024 + 2 * unat array_size" and "len \<equiv> unat (max_count * entry_size)"
  shows "\<exists>img'. patch_gpt card_capacity array_size max_count entry_size img = Some img' \<and>
    header_crc_ok 512 img' \<and> header_crc_ok second img' \<and> array_crc_ok 512 1024 len img' \<and>
    array_crc_ok second (1024 + unat array_size) len img'"
  using patch_gpt_defined [OF assms(1-5)] patch_gpt_checksums [OF _ assms(3,4)] unfolding second_def len_def by blast

theorem patch_gpt_valid_witness:
  "\<exists>img'. patch_gpt 0x100000 128 1 128 (replicate 1024 0 @ 1 # replicate 1023 0) = Some img' \<and>
    header_crc_ok 512 img' \<and> header_crc_ok 1280 img' \<and> array_crc_ok 512 1024 128 img' \<and>
    array_crc_ok 1280 1152 128 img'"
proof -
  define img :: "u8 list" where "img = replicate 1024 0 @ 1 # replicate 1023 0"
  have "img ! 1024 = 1" "img ! 1152 = 0" "length img = 2048" by (simp_all add: img_def nth_append nth_Cons')
  then have "count_parts img 0 = Some 1" by (simp add: count_parts.simps)
  then show ?thesis using patch_gpt_valid [where img = img and n = 1 and array_size = 128 and max_count = 1 and entry_size = 128 and card_capacity = "0x100000"] \<open>length img = 2048\<close> by (simp add: img_def [symmetric])
qed

end
