(* ===== verification/Spec2Isabelle.thy ===== *)
theory Spec2Isabelle
  imports Kernel_Machine Init_Main Lk_Gpt
begin

text \<open>
  A verification of two programs that start an Android 4.4 device: the boot loader LK
  (\<^verbatim>\<open>src/bootable/lk\<close>) and Android's init (\<^verbatim>\<open>src/init/init\<close>). LK reads the partition table of
  the card and runs its applications as threads of a small kernel; the Linux kernel it starts
  runs init, which parses rc files, executes their commands, starts services and keeps the
  properties of the system.

  \<^bold>\<open>Conventions.\<close> The definitions follow the C code function by function and keep its names;
  a part of a long function has a definition of its own. State is passed explicitly: \<open>kstate\<close>
  for the kernel of LK, \<open>init_state\<close> for init, \<open>partition_table\<close> for the partitions. An unsigned
  int is a 32-bit word wherever it may wrap around. \<^term>\<open>None\<close> is the end of the execution: a failed
  ASSERT, a panic, an access outside of a buffer, an exit, or a loop that never ends. So a
  theorem that a function gives \<^term>\<open>Some\<close> result also says that none of these happens.

  \<^bold>\<open>The kernel of LK.\<close>
  \<^item> \<open>Prelude\<close>: words, bitmaps of priorities, the option monad.
  \<^item> \<open>Intrusive_List\<close>: \<^verbatim>\<open>include/list.h\<close> on a heap of pairs of pointers. The locale \<open>node_lists\<close> is
    the contract of lists of nodes; its first instance is the pointer structure, which
    implements sequences, and its second, in \<open>Kernel_State\<close>, the lists of the kernel's state.
  \<^item> \<open>Kernel_State\<close>, \<open>Kernel_Timer\<close>, \<open>Kernel_Thread\<close>, \<open>Kernel_Wait\<close>, \<open>Kernel_Sync\<close>: critical sections,
    \<^verbatim>\<open>timer.c\<close>, \<^verbatim>\<open>thread.c\<close> (run queues, then wait queues), \<^verbatim>\<open>mutex.c\<close>, \<^verbatim>\<open>event.c\<close> and \<^verbatim>\<open>dpc.c\<close>. A
    thread that is switched away from keeps the rest of its calls as frames in its record.
  \<^item> \<open>Kernel_Machine\<close>: the return of a switched thread, the timer interrupt, and the step relation
    \<open>kreach\<close>. A step is a yield, a sleep, an operation on a mutex or event, or an interrupt,
    up to the point where a thread is back in its own code. The theorems are that no such
    call fails, that mutexes exclude each other's owners and are handed over in order, that the
    loop of the interrupt ends, and that the scheduler takes the highest priority in turn. Timed
    waits, destruction and deferred calls are defined, but are not steps of the machine.

  \<^bold>\<open>Partition tables of LK.\<close> \<open>Lk_Crc\<close> has the checksum, equal to CRC-32 as it is defined bit by
  bit; \<open>Lk_Partition\<close> has \<^verbatim>\<open>platform/msm_shared/partition_parser.c\<close>; \<open>Lk_Gpt\<close> shows that a
  boot record of any content is read within bounds, that a GUID table is read as the entries
  that are in use, and that a patched table has valid checksums. The driver of the card
  (\<^verbatim>\<open>mmc.c\<close>, register accesses) is the record \<open>mmc\<close>, of which \<open>reads_blocks\<close> asks that a read
  fills its buffer and \<open>reads_succeed\<close> that it reports no error.

  \<^bold>\<open>init.\<close>
  \<^item> \<open>C_String\<close>: strings of C.
  \<^item> \<open>Init_Tokenizer\<close>, \<open>Init_Keywords\<close>, \<open>Init_Parser\<close>: \<^verbatim>\<open>parser.c\<close>, \<^verbatim>\<open>keywords.h\<close> and \<^verbatim>\<open>init_parser.c\<close>. The
    tokenizer writes into the buffer it reads; it is related to one on strings. Files written
    from words are parsed back, and every file leaves well-formed services and actions. The
    locale \<open>parsing\<close> is the contract of an invariant of the parser.
  \<^item> \<open>Init_State\<close>, \<open>Init_Util\<close>: \<^verbatim>\<open>init.h\<close>, \<^verbatim>\<open>util.c\<close>, and the record \<open>platform\<close>, which stands for what is
    not in the sources: system calls, the property area and constants of the C library, SELinux
    and the file system manager. A call may answer differently each time.
  \<^item> \<open>Init_Action\<close>, \<open>Init_Property\<close>, \<open>Init_Load\<close>: the queue of actions, \<^verbatim>\<open>property_service.c\<close>, the
    expansion of properties and the kernel's command line. The theorems are about the
    permissions, the names, the files of properties, and the bounds of the expansion.
  \<^item> \<open>Init_Service\<close>, \<open>Init_Logo\<close>, \<open>Init_Builtins\<close>, \<open>Init_Process\<close>: services and control messages of
    \<^verbatim>\<open>init.c\<close>, \<^verbatim>\<open>keychords.c\<close>, \<^verbatim>\<open>logo.c\<close>, the commands of \<^verbatim>\<open>builtins.c\<close>, \<^verbatim>\<open>signal_handler.c\<close> and the
    actions that init queues for itself.
  \<^item> \<open>Init_Frame\<close>: an invariant of init is a preorder on states that the basic operations respect.
    The locales \<open>init_steps\<close>, \<open>init_rounds\<close> and \<open>init_moves\<close> carry it to all handlers; they are
    interpreted for what stays as it was parsed, for the queue, for read-only properties, for
    the flags of services and for lists that only grow.
  \<^item> \<open>Init_Run\<close>, \<open>Init_Main\<close>: commands come to their end and are run in the order they were queued;
    \<open>main\<close> from its first call to any number of rounds of its loop, with the boot sequence, the
    invariant of the loop, its waking up, and the fate of services that exit.

  \<^bold>\<open>Hypotheses on the platform.\<close> \<open>prop_area_ok\<close>: a property that was added or updated is found,
  and the others are unchanged. \<open>fork_ok\<close>: the state is that of the parent, where fork does
  not return 0; the child is \<open>service_child\<close>. \<open>clock_advances\<close>: time passes every bound. Each
  theorem with a hypothesis is applied to a concrete state, named with the suffix \<open>_witness\<close>.

  \<^bold>\<open>Bounds and fuel.\<close> The traversal of a list, the loop of the timer interrupt and the waking of
  all waiters have a fuel; more than the length of the list is enough for each, which is shown.
  The depth of imports of rc files is bounded by fuel as well: a file that imports
  itself exhausts any depth. Loops around system calls are partial functions, and that
  the wait for a file ends is shown from \<open>clock_advances\<close>; the chain of extended boot records
  ends with the array of 32 partitions.

  \<^bold>\<open>Not modelled.\<close> Drivers, assembly, the applications of LK (\<^verbatim>\<open>app/aboot\<close>), boards, the daemons
  ueventd and watchdogd, bootchart, the excerpts of the Linux kernel, and the runtime in C++
  and Java: they are input and output of devices, or rest on code that is not in the tree.
  Log messages of LK are left out; of init, errors are recorded as effects by their constant part.
\<close>

end
